(* ===== verification/Spraybus_Prelude.thy ===== *)
theory Spraybus_Prelude
  imports Main "HOL-Library.Word"
begin

text \<open>
  Shared ground of the development: the machine types of the C++ sources, the exceptions they
  throw, the view of a word as bytes in memory, the identification of \<^verbatim>\<open>std::string\<close> contents
  with byte sequences, and the proof collections the component theories extend.
  \<^item> \<open>le_bytes\<close> and \<open>le_word\<close>: a word as its bytes from the least significant one, and back;
  \<^item> \<open>mem_bytes\<close> and \<open>mem_word\<close>: the object representation of an integer on a host of either
    byte order, and the reinterpretation of such bytes as an integer;
  \<^item> \<open>bytes_of_string\<close> and \<open>string_of_bytes\<close>: \<^verbatim>\<open>std::as_bytes\<close> over the characters of a string,
    and the \<^verbatim>\<open>reinterpret_cast<const char*>\<close> back;
  \<^item> the locale \<open>guarded_machine\<close>: what a step function that keeps an invariant under a guard
    gives for whole runs, and \<open>labelled_invariant\<close>, the same for labelled step relations, and \<open>bounded_wait\<close>, how long something can wait in
    their runs. The components interpret them on their own steps.
\<close>

unbundle bit_operations_syntax

section \<open>Types\<close>

type_synonym byte = "8 word"
type_synonym bytes = "8 word list"
type_synonym u16 = "16 word"
type_synonym u32 = "32 word"
type_synonym u64 = "64 word"

text \<open>
  Exceptions as values. \<open>Undefined_behaviour\<close> is no exception of the language: it marks the
  executions in which the program dereferences a null or dangling pointer, so that their absence
  can be stated.
\<close>

datatype cpp_error =
    Runtime_error string
  | Out_of_range string
  | Invalid_argument string
  | Undefined_behaviour

datatype endian = Little | Big

named_theorems enum_defs \<open>the underlying values of the enumerators\<close>
named_theorems memory_simps \<open>object representations and their inverses\<close>
named_theorems step_defs \<open>the handlers and operations of the components\<close>

section \<open>Lists\<close>

lemma in_set_map_filter: "y \<in> set (List.map_filter f xs) \<longleftrightarrow> (\<exists>x \<in> set xs. f x = Some y)"
  by (induction xs) (auto split: option.split)

lemma map_filter_total:
  "(\<And>x. x \<in> set xs \<Longrightarrow> f x \<noteq> None) \<Longrightarrow> List.map_filter f xs = map (the \<circ> f) xs"
proof (induction xs)
  case Nil
  then show ?case by simp
next
  case (Cons x xs)
  then obtain y where "f x = Some y" by (meson list.set_intros(1) not_None_eq)
  with Cons show ?case by simp
qed

section \<open>Words as bytes\<close>

primrec le_bytes :: "nat \<Rightarrow> 'a::len word \<Rightarrow> bytes" where
  "le_bytes 0 w = []"
| "le_bytes (Suc n) w = ucast w # le_bytes n (drop_bit 8 w)"

primrec le_word :: "bytes \<Rightarrow> 'a::len word" where
  "le_word [] = 0"
| "le_word (b # bs) = ucast b OR push_bit 8 (le_word bs)"

lemma length_le_bytes [simp]: "length (le_bytes n w) = n"
  by (induction n arbitrary: w) simp_all

lemma bit_byte_less: "bit (b :: byte) i \<Longrightarrow> i < 8"
  using bit_imp_le_length [of b i] by simp

lemma le_word_le_bytes_take: "le_word (le_bytes n w) = take_bit (8 * n) w"
proof (induction n arbitrary: w)
  case 0
  show ?case by simp
next
  case (Suc n)
  show ?case
    by (rule bit_word_eqI) (auto simp: Suc.IH bit_simps not_le dest: bit_byte_less)
qed

lemma le_word_le_bytes [memory_simps]:
  fixes w :: "'a::len word"
  assumes "LENGTH('a) \<le> 8 * n"
  shows "le_word (le_bytes n w) = w"
  using assms by (simp add: le_word_le_bytes_take take_bit_word_eq_self)

lemma bit_le_word_less: "bit (le_word bs :: 'a::len word) i \<Longrightarrow> i < 8 * length bs"
proof (induction bs arbitrary: i)
  case Nil
  then show ?case by simp
next
  case (Cons b bs)
  then show ?case
    by (fastforce simp: bit_simps dest: bit_byte_less)
qed

lemma le_bytes_le_word [memory_simps]:
  fixes bs :: bytes
  assumes "8 * length bs \<le> LENGTH('a::len)" and "n = length bs"
  shows "le_bytes n (le_word bs :: 'a word) = bs"
  using assms
proof (induction bs arbitrary: n)
  case Nil
  then show ?case by simp
next
  case (Cons b bs)
  have "ucast (ucast b OR push_bit 8 (le_word bs :: 'a word)) = b"
    using Cons.prems
    by (intro bit_word_eqI) (auto simp: bit_simps)
  moreover have "drop_bit 8 (ucast b OR push_bit 8 (le_word bs)) = (le_word bs :: 'a word)"
    using Cons.prems
    by (intro bit_word_eqI) (fastforce simp: bit_simps dest: bit_byte_less bit_le_word_less)
  ultimately show ?case
    using Cons by simp
qed

text \<open>
  The bytes an integer object occupies on a host of the given byte order, in address order,
  and the integer such bytes stand for.
\<close>

definition mem_bytes :: "endian \<Rightarrow> nat \<Rightarrow> 'a::len word \<Rightarrow> bytes" where
  "mem_bytes e n w = (case e of Little \<Rightarrow> le_bytes n w | Big \<Rightarrow> rev (le_bytes n w))"

definition mem_word :: "endian \<Rightarrow> bytes \<Rightarrow> 'a::len word" where
  "mem_word e bs = (case e of Little \<Rightarrow> le_word bs | Big \<Rightarrow> le_word (rev bs))"

lemma length_mem_bytes [simp]: "length (mem_bytes e n w) = n"
  by (simp add: mem_bytes_def split: endian.split)

lemma mem_word_mem_bytes [memory_simps]:
  fixes w :: "'a::len word"
  shows "LENGTH('a) \<le> 8 * n \<Longrightarrow> mem_word e (mem_bytes e n w) = w"
  by (simp add: mem_word_def mem_bytes_def memory_simps split: endian.split)

lemma mem_bytes_mem_word [memory_simps]:
  assumes "8 * length bs \<le> LENGTH('a::len)" and "n = length bs"
  shows "mem_bytes e n (mem_word e bs :: 'a word) = bs"
  using assms by (simp add: mem_word_def mem_bytes_def memory_simps split: endian.split)

section \<open>Strings as bytes\<close>

definition byte_of_char :: "char \<Rightarrow> byte" where
  "byte_of_char c = word_of_nat (of_char c)"

definition char_of_byte :: "byte \<Rightarrow> char" where
  "char_of_byte b = char_of (unat b)"

definition bytes_of_string :: "string \<Rightarrow> bytes" where
  "bytes_of_string s = map byte_of_char s"

definition string_of_bytes :: "bytes \<Rightarrow> string" where
  "string_of_bytes bs = map char_of_byte bs"

lemma of_char_less: "(of_char c :: nat) < 256"
  using mod_less_divisor [of 256 "of_char c :: nat"] by (simp del: mod_less_divisor)

lemma char_of_byte_of_char [simp]: "char_of_byte (byte_of_char c) = c"
  using of_char_less [of c] by (simp add: byte_of_char_def char_of_byte_def unat_of_nat)

lemma byte_of_char_of_byte [simp]: "byte_of_char (char_of_byte b) = b"
proof -
  have "unat b < 2 ^ LENGTH(8)" by (rule unsigned_less)
  then show ?thesis by (simp add: byte_of_char_def char_of_byte_def)
qed

lemma length_bytes_of_string [simp]: "length (bytes_of_string s) = length s"
  by (simp add: bytes_of_string_def)

lemma string_of_bytes_of_string [simp]: "string_of_bytes (bytes_of_string s) = s"
  by (simp add: string_of_bytes_def bytes_of_string_def o_def)

lemma bytes_of_string_of_bytes [simp]: "bytes_of_string (string_of_bytes bs) = bs"
  by (simp add: string_of_bytes_def bytes_of_string_def o_def)

section \<open>Runs of a fallible step function\<close>

text \<open>
  A loop that feeds events to a handler: it stops at the first exception and leaves the state
  the handler had reached. \<open>guarded_run\<close> says that every event satisfied the guard in the state
  it arrived in.
\<close>

fun run_events :: "('e \<Rightarrow> 's \<Rightarrow> (cpp_error + unit) \<times> 's) \<Rightarrow> 'e list \<Rightarrow> 's \<Rightarrow> (cpp_error + unit) \<times> 's" where
  "run_events step [] s = (Inr (), s)"
| "run_events step (e # es) s =
     (case step e s of
        (Inl err, s') \<Rightarrow> (Inl err, s')
      | (Inr _, s') \<Rightarrow> run_events step es s')"

fun guarded_run ::
    "('e \<Rightarrow> 's \<Rightarrow> (cpp_error + unit) \<times> 's) \<Rightarrow> ('s \<Rightarrow> 'e \<Rightarrow> bool) \<Rightarrow> 'e list \<Rightarrow> 's \<Rightarrow> bool" where
  "guarded_run step guard [] s = True"
| "guarded_run step guard (e # es) s =
     (guard s e \<and>
      (case step e s of (Inl _, _) \<Rightarrow> True | (Inr _, s') \<Rightarrow> guarded_run step guard es s'))"

lemma run_events_append:
  "run_events step (es @ fs) s =
     (case run_events step es s of
        (Inl err, s') \<Rightarrow> (Inl err, s')
      | (Inr _, s') \<Rightarrow> run_events step fs s')"
  by (induction es arbitrary: s) (auto split: prod.split sum.split)

locale guarded_machine =
  fixes step :: "'e \<Rightarrow> 's \<Rightarrow> (cpp_error + unit) \<times> 's"
    and guard :: "'s \<Rightarrow> 'e \<Rightarrow> bool"
    and inv :: "'s \<Rightarrow> bool"
  assumes step_inv: "\<lbrakk>inv s; guard s e; step e s = (r, s')\<rbrakk> \<Longrightarrow> inv s'"
begin

lemma run_inv: "\<lbrakk>inv s; guarded_run step guard es s; run_events step es s = (r, s')\<rbrakk> \<Longrightarrow> inv s'"
proof (induction es arbitrary: s)
  case Nil
  then show ?case by simp
next
  case (Cons e es)
  then show ?case
    by (auto split: prod.splits sum.splits dest: step_inv)
qed

end

locale safe_machine = guarded_machine +
  assumes step_defined: "\<lbrakk>inv s; guard s e\<rbrakk> \<Longrightarrow> fst (step e s) \<noteq> Inl Undefined_behaviour"
begin

lemma run_defined:
  "\<lbrakk>inv s; guarded_run step guard es s\<rbrakk> \<Longrightarrow> fst (run_events step es s) \<noteq> Inl Undefined_behaviour"
proof (induction es arbitrary: s)
  case Nil
  then show ?case by simp
next
  case (Cons e es)
  from Cons.prems have "fst (step e s) \<noteq> Inl Undefined_behaviour"
    by (intro step_defined) simp_all
  with Cons show ?case
    by (auto split: prod.splits sum.splits dest: step_inv)
qed

end

text \<open>
  Labelled step relations: \<open>runs\<close> are their finite runs, and an invariant of the steps, possibly only of those with
  certain labels, is one of the runs.
\<close>

inductive runs :: "('s \<Rightarrow> 'l \<Rightarrow> 's \<Rightarrow> bool) \<Rightarrow> 's \<Rightarrow> 'l list \<Rightarrow> 's \<Rightarrow> bool" for step where
  none: "runs step s [] s"
| snoc: "\<lbrakk>runs step s ls s'; step s' l s''\<rbrakk> \<Longrightarrow> runs step s (ls @ [l]) s''"

lemma runs_trans: "\<lbrakk>runs step b ms c; runs step a ls b\<rbrakk> \<Longrightarrow> runs step a (ls @ ms) c"
  by (induction rule: runs.induct) (auto simp flip: append_assoc intro: runs.snoc)

lemma runs_single: "step a l b \<Longrightarrow> runs step a [l] b"
  using runs.snoc [OF runs.none] by simp

locale labelled_invariant =
  fixes lstep :: "'s \<Rightarrow> 'l \<Rightarrow> 's \<Rightarrow> bool"
    and allowed :: "'l \<Rightarrow> bool"
    and linv :: "'s \<Rightarrow> bool"
  assumes kept: "\<lbrakk>linv s; allowed l; lstep s l s'\<rbrakk> \<Longrightarrow> linv s'"
begin

lemma kept_by_runs: "\<lbrakk>runs lstep s ls s'; linv s; \<forall>l \<in> set ls. allowed l\<rbrakk> \<Longrightarrow> linv s'"
  by (induction rule: runs.induct) (auto intro: kept)

end

text \<open>
  Bounded waiting: as long as something waits, its rank never grows and every step of a certain kind lowers it; so after more such
  steps than the rank it waits no more.
\<close>

locale bounded_wait =
  fixes lstep :: "'s \<Rightarrow> 'l \<Rightarrow> 's \<Rightarrow> bool"
    and turn :: "'l \<Rightarrow> bool"
    and linv :: "'s \<Rightarrow> bool"
    and waits :: "'s \<Rightarrow> bool"
    and rank :: "'s \<Rightarrow> nat"
  assumes inv_kept: "\<lbrakk>linv s; lstep s l s'\<rbrakk> \<Longrightarrow> linv s'"
    and over: "\<lbrakk>linv s; \<not> waits s; lstep s l s'\<rbrakk> \<Longrightarrow> \<not> waits s'"
    and lowers: "\<lbrakk>linv s; waits s; waits s'; lstep s l s'\<rbrakk> \<Longrightarrow> rank s' + (if turn l then 1 else 0) \<le> rank s"
begin

lemma rank_bounds:
  "\<lbrakk>runs lstep s ls s'; linv s\<rbrakk> \<Longrightarrow> linv s' \<and> (waits s' \<longrightarrow> rank s' + length (filter turn ls) \<le> rank s)"
proof (induction rule: runs.induct)
  case (snoc s ls s' l s'')
  then have inv: "linv s'" and bound: "waits s' \<Longrightarrow> rank s' + length (filter turn ls) \<le> rank s" by auto
  have "rank s'' + length (filter turn (ls @ [l])) \<le> rank s" if "waits s''"
  proof -
    have "waits s'" using over [OF inv _ snoc.hyps(2)] that by blast
    from lowers [OF inv this that snoc.hyps(2)] bound [OF this] show ?thesis by auto
  qed
  with inv_kept [OF inv snoc.hyps(2)] show ?case by blast
qed simp

lemma waits_no_more: "\<lbrakk>runs lstep s ls s'; linv s; rank s < length (filter turn ls)\<rbrakk> \<Longrightarrow> \<not> waits s'"
  using rank_bounds by fastforce

end

end
