(* ===== verification/ENet_Boundary.thy ===== *)
theory ENet_Boundary
  imports Spraybus_Prelude
begin

text \<open>
  The boundary to ENet. ENet is a third-party library, so nothing here says what it does:
  \<^item> what a call returns to the program (a host or null, a peer or null, an event or none) is an
    argument of the definitions that make the call;
  \<^item> what the program asks of ENet is recorded as a list of \<open>enet_call\<close>s, in the order of the calls.
    \<open>sends\<close> picks the packets handed to \<^verbatim>\<open>enet_peer_send\<close> out of such a list, \<open>destroyed\<close> the
    packets given back with \<^verbatim>\<open>enet_packet_destroy\<close>.

  \<open>enet_protocol\<close> is the documented order of the events a host reports for one peer: a connect
  event opens the connection, receive events come only while it is open, a disconnect event closes
  it. It is a named hypothesis of the results that need it.
\<close>

type_synonym ENetHost = nat
type_synonym ENetPeer = nat

record ENetAddress =
  addr_host :: "u32 option"  \<comment> \<open>\<open>None\<close>: never written, as after a failed name lookup\<close>
  addr_port :: u16

text \<open>A received packet: its address and the bytes it holds.\<close>

record ENetPacket =
  packet_ptr :: nat
  packet_data :: bytes

datatype ENetEvent =
    ENET_EVENT_TYPE_NONE
  | ENET_EVENT_TYPE_CONNECT ENetPeer
  | ENET_EVENT_TYPE_RECEIVE ENetPeer ENetPacket
  | ENET_EVENT_TYPE_DISCONNECT ENetPeer

datatype enet_call =
    Enet_initialize
  | Atexit_deinitialize
  | Host_create "ENetAddress option" nat nat
  | Host_destroy ENetHost
  | Address_set_host string
  | Host_connect ENetHost ENetAddress nat
  | Host_service ENetHost nat
  | Host_flush ENetHost
  | Host_broadcast ENetHost nat bytes
  | Packet_create bytes u32
  | Packet_destroy nat
  | Peer_send ENetPeer nat bytes
  | Peer_disconnect ENetPeer
  | Peer_reset ENetPeer

definition ENET_HOST_ANY :: u32 where
  "ENET_HOST_ANY = 0"

definition ENET_PACKET_FLAG_RELIABLE :: u32 where
  "ENET_PACKET_FLAG_RELIABLE = 1"

fun sends :: "enet_call list \<Rightarrow> (ENetPeer \<times> bytes) list" where
  "sends [] = []"
| "sends (Peer_send p ch b # cs) = (p, b) # sends cs"
| "sends (_ # cs) = sends cs"

fun destroyed :: "enet_call list \<Rightarrow> nat list" where
  "destroyed [] = []"
| "destroyed (Packet_destroy q # cs) = q # destroyed cs"
| "destroyed (_ # cs) = destroyed cs"

fun destroyed_hosts :: "enet_call list \<Rightarrow> ENetHost list" where
  "destroyed_hosts [] = []"
| "destroyed_hosts (Host_destroy h # cs) = h # destroyed_hosts cs"
| "destroyed_hosts (_ # cs) = destroyed_hosts cs"

lemma sends_append [simp]: "sends (cs @ ds) = sends cs @ sends ds"
  by (induction cs rule: sends.induct) simp_all

lemma destroyed_append [simp]: "destroyed (cs @ ds) = destroyed cs @ destroyed ds"
  by (induction cs rule: destroyed.induct) simp_all

lemma destroyed_hosts_append [simp]: "destroyed_hosts (cs @ ds) = destroyed_hosts cs @ destroyed_hosts ds"
  by (induction cs rule: destroyed_hosts.induct) simp_all

fun enet_protocol :: "ENetPeer set \<Rightarrow> ENetEvent list \<Rightarrow> bool" where
  "enet_protocol C [] = True"
| "enet_protocol C (ENET_EVENT_TYPE_NONE # es) = enet_protocol C es"
| "enet_protocol C (ENET_EVENT_TYPE_CONNECT p # es) = (p \<notin> C \<and> enet_protocol (insert p C) es)"
| "enet_protocol C (ENET_EVENT_TYPE_RECEIVE p q # es) = (p \<in> C \<and> enet_protocol C es)"
| "enet_protocol C (ENET_EVENT_TYPE_DISCONNECT p # es) = (p \<in> C \<and> enet_protocol (C - {p}) es)"

end
