(* ===== verification/Cpp_Strings.thy ===== *)
theory Cpp_Strings
  imports Spraybus_Prelude
begin

text \<open>
  The pieces of the C++ standard library on strings that the sources use: \<^verbatim>\<open>std::to_string\<close> on
  integers, \<^verbatim>\<open>std::stoi\<close> with its index output and its two exceptions, the C string view of a
  \<^verbatim>\<open>std::string\<close>, and \<^verbatim>\<open>starts_with\<close>. The lemmas give the round trip of \<open>stoi\<close> over decimal
  numerals and the injectivity of printing.
\<close>

section \<open>Decimal numerals\<close>

definition digit_char :: "nat \<Rightarrow> char" where
  "digit_char d = char_of (48 + d)"

definition is_digit :: "char \<Rightarrow> bool" where
  "is_digit c \<longleftrightarrow> 48 \<le> (of_char c :: nat) \<and> of_char c \<le> (57 :: nat)"

definition digit_value :: "char \<Rightarrow> nat" where
  "digit_value c = of_char c - 48"

definition decimal_value :: "string \<Rightarrow> nat" where
  "decimal_value ds = foldl (\<lambda>acc c. 10 * acc + digit_value c) 0 ds"

fun show_nat :: "nat \<Rightarrow> string" where
  "show_nat n = (if n < 10 then [digit_char n] else show_nat (n div 10) @ [digit_char (n mod 10)])"

declare show_nat.simps [simp del]

text \<open>\<^verbatim>\<open>std::to_string\<close> on an unsigned 64-bit value and on an \<^verbatim>\<open>int\<close>.\<close>

definition to_string_u64 :: "u64 \<Rightarrow> string" where
  "to_string_u64 w = show_nat (unat w)"

definition to_string_int :: "int \<Rightarrow> string" where
  "to_string_int i = (if i < 0 then CHR ''-'' # show_nat (nat (- i)) else show_nat (nat i))"

lemma digit_char_props:
  assumes "d < 10"
  shows "is_digit (digit_char d)" and "digit_value (digit_char d) = d"
  using assms by (simp_all add: is_digit_def digit_value_def digit_char_def)

lemma show_nat_nonempty [simp]: "show_nat n \<noteq> []"
  by (subst show_nat.simps) simp

lemma show_nat_digits: "c \<in> set (show_nat n) \<Longrightarrow> is_digit c"
proof (induction n rule: show_nat.induct)
  case (1 n)
  then show ?case
    by (subst (asm) (2) show_nat.simps) (auto simp: digit_char_props split: if_splits)
qed

lemma decimal_value_snoc: "decimal_value (ds @ [c]) = 10 * decimal_value ds + digit_value c"
  by (simp add: decimal_value_def)

lemma decimal_value_show_nat [simp]: "decimal_value (show_nat n) = n"
proof (induction n rule: show_nat.induct)
  case (1 n)
  show ?case
  proof (cases "n < 10")
    case True
    then show ?thesis
      by (subst show_nat.simps) (simp add: decimal_value_def digit_char_props)
  next
    case False
    with "1.IH" show ?thesis
      by (subst show_nat.simps) (simp add: decimal_value_snoc digit_char_props)
  qed
qed

lemma show_nat_inject [simp]: "show_nat m = show_nat n \<longleftrightarrow> m = n"
  by (metis decimal_value_show_nat)

lemma to_string_u64_inject [simp]: "to_string_u64 v = to_string_u64 w \<longleftrightarrow> v = w"
  by (simp add: to_string_u64_def word_unat_eq_iff)

section \<open>std::stoi\<close>

text \<open>
  \<^verbatim>\<open>std::stoi(str, &parsed)\<close> in base 10: white space of the C locale is skipped, an optional sign
  and the longest run of digits are read. Without a digit it throws \<^verbatim>\<open>std::invalid_argument\<close>, for a
  value outside \<^verbatim>\<open>int\<close> it throws \<^verbatim>\<open>std::out_of_range\<close>. The result is the value and the number of
  characters read.
\<close>

definition is_space :: "char \<Rightarrow> bool" where
  "is_space c \<longleftrightarrow> of_char c = (32 :: nat) \<or> (9 \<le> (of_char c :: nat) \<and> of_char c \<le> (13 :: nat))"

definition int_min :: int where
  "int_min = - 2147483648"

definition int_max :: int where
  "int_max = 2147483647"

definition read_sign :: "string \<Rightarrow> bool \<times> nat" where
  "read_sign s =
     (case s of [] \<Rightarrow> (False, 0)
      | c # _ \<Rightarrow> if c = CHR ''-'' then (True, 1) else if c = CHR ''+'' then (False, 1) else (False, 0))"

definition stoi :: "string \<Rightarrow> cpp_error + int \<times> nat" where
  "stoi s =
     (let skipped = length (takeWhile is_space s);
          (negative, sign_len) = read_sign (drop skipped s);
          digits = takeWhile is_digit (drop (skipped + sign_len) s);
          n = int (decimal_value digits);
          v = (if negative then - n else n)
      in if digits = [] then Inl (Invalid_argument ''stoi'')
         else if v < int_min \<or> int_max < v then Inl (Out_of_range ''stoi'')
         else Inr (v, skipped + sign_len + length digits))"

lemma is_digit_not_space: "is_digit c \<Longrightarrow> \<not> is_space c"
  by (auto simp: is_digit_def is_space_def)

lemma is_digit_not_sign: "is_digit c \<Longrightarrow> c \<noteq> CHR ''-'' \<and> c \<noteq> CHR ''+''"
  by (auto simp: is_digit_def)

lemma read_sign_digits:
  assumes "s \<noteq> []" and "\<And>c. c \<in> set s \<Longrightarrow> is_digit c"
  shows "read_sign s = (False, 0)"
  using assms by (cases s) (auto simp: read_sign_def dest: is_digit_not_sign)

text \<open>A string of digits is read whole, and its value is the decimal one.\<close>

lemma stoi_digits:
  assumes nonempty: "s \<noteq> []" and digits: "\<And>c. c \<in> set s \<Longrightarrow> is_digit c"
    and bound: "int (decimal_value s) \<le> int_max"
  shows "stoi s = Inr (int (decimal_value s), length s)"
proof -
  from nonempty digits have "takeWhile is_space s = []"
    by (cases s) (auto dest: is_digit_not_space)
  moreover from digits have whole: "takeWhile is_digit s = s"
    by (simp add: takeWhile_eq_all_conv)
  ultimately show ?thesis
    using nonempty bound read_sign_digits [OF nonempty digits]
    by (simp add: stoi_def Let_def int_min_def whole del: takeWhile_eq_all_conv)
qed

lemma stoi_show_nat:
  "int n \<le> int_max \<Longrightarrow> stoi (show_nat n) = Inr (int n, length (show_nat n))"
  using stoi_digits [of "show_nat n"] show_nat_digits by simp

lemma stoi_show_nat_big:
  assumes "int_max < int n"
  shows "stoi (show_nat n) = Inl (Out_of_range ''stoi'')"
proof -
  have d: "\<And>c. c \<in> set (show_nat n) \<Longrightarrow> is_digit c" by (rule show_nat_digits)
  then have "takeWhile is_space (show_nat n) = []"
    using show_nat_nonempty [of n] by (cases "show_nat n") (auto dest: is_digit_not_space)
  moreover from d have "takeWhile is_digit (show_nat n) = show_nat n"
    by (simp add: takeWhile_eq_all_conv)
  ultimately show ?thesis
    using assms read_sign_digits [OF show_nat_nonempty d]
    by (simp add: stoi_def Let_def del: takeWhile_eq_all_conv)
qed

lemma stoi_range: "stoi s = Inr (v, k) \<Longrightarrow> int_min \<le> v \<and> v \<le> int_max"
  by (auto simp: stoi_def Let_def split: prod.splits if_splits)

lemma stoi_length: "stoi s = Inr (v, k) \<Longrightarrow> k \<le> length s"
proof -
  assume r: "stoi s = Inr (v, k)"
  define skipped where "skipped = length (takeWhile is_space s)"
  obtain negative sign_len where sg: "read_sign (drop skipped s) = (negative, sign_len)"
    by fastforce
  define digits where "digits = takeWhile is_digit (drop (skipped + sign_len) s)"
  from r have k: "k = skipped + sign_len + length digits" and ne: "digits \<noteq> []"
    by (auto simp: stoi_def Let_def sg skipped_def [symmetric] digits_def [symmetric] split: if_splits)
  have "length digits \<le> length s - (skipped + sign_len)"
    unfolding digits_def by (metis length_drop length_takeWhile_le)
  moreover from ne have "skipped + sign_len < length s"
    unfolding digits_def by (metis drop_all not_le takeWhile.simps(1))
  ultimately show ?thesis using k by linarith
qed

section \<open>C strings\<close>

text \<open>\<^verbatim>\<open>c_str()\<close> as a C callee reads it: up to the first null character.\<close>

definition c_str :: "string \<Rightarrow> string" where
  "c_str s = takeWhile (\<lambda>c. c \<noteq> CHR 0x00) s"

definition starts_with :: "string \<Rightarrow> string \<Rightarrow> bool" where
  "starts_with s prefix \<longleftrightarrow> take (length prefix) s = prefix"

end
