(* ===== verification/Net_Server.thy ===== *)
theory Net_Server
  imports ENet_Boundary Cpp_Strings
begin

text \<open>
  The low-level server of \<^verbatim>\<open>include/spraybus/networking/server/server.hpp\<close>: connected-client
  records, the table that owns them, the vector of pointers into that table, and the event loop
  that dispatches to a derived class.

  \<^item> A \<^verbatim>\<open>Client*\<close> is the address of a node of \<^verbatim>\<open>m_client_map\<close>. Nodes of a \<^verbatim>\<open>std::unordered_map\<close>
    do not move, and there is one per key, so a pointer is modelled by the key of the node it points
    to, \<open>None\<close> being null. Dereferencing null or the pointer to an erased node is \<open>None\<close>, and an
    operation that does so ends in \<open>Undefined_behaviour\<close>.
  \<^item> \<open>peer_data\<close> is the \<^verbatim>\<open>data\<close> field of every \<^verbatim>\<open>ENetPeer\<close>, which the event loop sets and reads.
  \<^item> The class is a CRTP base: the derived part of the object is the record extension \<open>'m\<close>, and the
    four callbacks are the record \<open>derived\<close>. What the base relies on is the locale
    \<open>derived_server\<close>; inside it the event loop is shown to keep the table consistent and never to
    follow a dangling pointer.
\<close>

section \<open>Model\<close>

type_synonym client_ptr = "u64 option"

record 'd Client =
  cl_id :: u64
  cl_peer :: ENetPeer
  cl_server :: ENetHost
  cl_data :: 'd

definition Client_ctor :: "'d \<Rightarrow> u64 \<Rightarrow> ENetPeer \<Rightarrow> ENetHost \<Rightarrow> 'd Client" where
  "Client_ctor d0 client_id peer server = \<lparr>cl_id = client_id, cl_peer = peer, cl_server = server, cl_data = d0\<rparr>"

record 'd net_server =
  m_address :: ENetAddress
  m_server :: ENetHost
  m_client_map :: "u64 \<rightharpoonup> 'd Client"
  m_clients :: "client_ptr list"
  m_next_client_id :: u64
  peer_data :: "ENetPeer \<Rightarrow> client_ptr"
  enet_calls :: "enet_call list"

definition uint16_max :: int where
  "uint16_max = 65535"

text \<open>\<open>host\<close> is what \<^verbatim>\<open>enet_host_create\<close> returns, \<open>None\<close> for null.\<close>

definition Server_ctor :: "int \<Rightarrow> ENetHost option \<Rightarrow> cpp_error + 'd net_server" where
  "Server_ctor port host =
     (if port < 0 \<or> uint16_max < port then
        Inl (Out_of_range (''Server port must be between 0 and '' @ to_string_int uint16_max @
          '': '' @ to_string_int port))
      else
        (let address = \<lparr>addr_host = Some ENET_HOST_ANY, addr_port = word_of_int port\<rparr>
         in case host of
              None \<Rightarrow> Inl (Runtime_error ''Failed to create ENet server'')
            | Some h \<Rightarrow>
                Inr \<lparr>m_address = address, m_server = h, m_client_map = Map.empty, m_clients = [],
                  m_next_client_id = 1, peer_data = (\<lambda>_. None),
                  enet_calls = [Host_create (Some address) 8 2]\<rparr>))"

definition issue :: "enet_call list \<Rightarrow> ('d, 'm) net_server_scheme \<Rightarrow> ('d, 'm) net_server_scheme" where
  "issue cs s = s\<lparr>enet_calls := enet_calls s @ cs\<rparr>"

definition Server_dtor :: "('d, 'm) net_server_scheme \<Rightarrow> ('d, 'm) net_server_scheme" where
  "Server_dtor s = issue [Host_destroy (m_server s)] s"

definition deref :: "('d, 'm) net_server_scheme \<Rightarrow> client_ptr \<Rightarrow> 'd Client option" where
  "deref s p = (case p of None \<Rightarrow> None | Some k \<Rightarrow> m_client_map s k)"

text \<open>\<^verbatim>\<open>Client::send\<close>: a reliable packet on channel 0, flushed at once.\<close>

definition Client_send ::
    "client_ptr \<Rightarrow> bytes \<Rightarrow> ('d, 'm) net_server_scheme \<Rightarrow> (cpp_error + unit) \<times> ('d, 'm) net_server_scheme" where
  "Client_send p message s =
     (case deref s p of
        None \<Rightarrow> (Inl Undefined_behaviour, s)
      | Some c \<Rightarrow>
          (Inr (), issue [Packet_create message ENET_PACKET_FLAG_RELIABLE,
             Peer_send (cl_peer c) 0 message, Host_flush (cl_server c)] s))"

text \<open>\<open>c->data() = f(c->data())\<close> through a pointer.\<close>

definition update_data ::
    "client_ptr \<Rightarrow> ('d \<Rightarrow> 'd) \<Rightarrow> ('d, 'm) net_server_scheme \<Rightarrow> (cpp_error + unit) \<times> ('d, 'm) net_server_scheme" where
  "update_data p f s =
     (case p of
        None \<Rightarrow> (Inl Undefined_behaviour, s)
      | Some k \<Rightarrow>
          (case m_client_map s k of
             None \<Rightarrow> (Inl Undefined_behaviour, s)
           | Some c \<Rightarrow>
               (Inr (), s\<lparr>m_client_map := (m_client_map s)(k \<mapsto> c\<lparr>cl_data := f (cl_data c)\<rparr>)\<rparr>)))"

definition create_client_error :: "u64 \<Rightarrow> cpp_error" where
  "create_client_error client_id =
     Runtime_error (''Failed to create client with ID: '' @ to_string_u64 client_id)"

definition create_client ::
    "'d \<Rightarrow> ENetPeer \<Rightarrow> ('d, 'm) net_server_scheme \<Rightarrow> (cpp_error + client_ptr) \<times> ('d, 'm) net_server_scheme" where
  "create_client d0 peer s =
     (let client_id = m_next_client_id s;
          s = s\<lparr>m_next_client_id := m_next_client_id s + 1\<rparr>
      in if m_client_map s client_id \<noteq> None then
           (Inl (create_client_error client_id), s)
         else
           (let s = s\<lparr>m_client_map :=
                      (m_client_map s)(client_id \<mapsto> Client_ctor d0 client_id peer (m_server s))\<rparr>;
                client = Some client_id;
                s = s\<lparr>m_clients := m_clients s @ [client]\<rparr>
            in (Inr client, s)))"

definition destroy_client ::
    "client_ptr \<Rightarrow> ('d, 'm) net_server_scheme \<Rightarrow> (cpp_error + unit) \<times> ('d, 'm) net_server_scheme" where
  "destroy_client client s =
     (case deref s client of
        None \<Rightarrow> (Inl Undefined_behaviour, s)
      | Some c \<Rightarrow>
          (let s = s\<lparr>m_client_map := (m_client_map s)(cl_id c := None)\<rparr>;
               s = s\<lparr>m_clients := removeAll client (m_clients s)\<rparr>
           in (Inr (), s)))"

text \<open>The callbacks of the derived class.\<close>

record 's derived =
  on_process :: "'s \<Rightarrow> (cpp_error + unit) \<times> 's"
  on_connect :: "client_ptr \<Rightarrow> 's \<Rightarrow> (cpp_error + unit) \<times> 's"
  on_disconnect :: "client_ptr \<Rightarrow> 's \<Rightarrow> (cpp_error + unit) \<times> 's"
  on_message :: "client_ptr \<Rightarrow> bytes \<Rightarrow> 's \<Rightarrow> (cpp_error + unit) \<times> 's"

text \<open>
  One turn of the \<^verbatim>\<open>switch\<close> in \<^verbatim>\<open>process\<close>. The packet guard destroys a received packet also when the
  handler throws.
\<close>

fun dispatch ::
    "('d, 'm) net_server_scheme derived \<Rightarrow> 'd \<Rightarrow> ENetEvent \<Rightarrow>
     ('d, 'm) net_server_scheme \<Rightarrow> (cpp_error + unit) \<times> ('d, 'm) net_server_scheme" where
  "dispatch D d0 (ENET_EVENT_TYPE_CONNECT peer) s =
     (case create_client d0 peer s of
        (Inl err, s) \<Rightarrow> (Inl err, s)
      | (Inr client, s) \<Rightarrow>
          (let s = s\<lparr>peer_data := (peer_data s)(peer := client)\<rparr>
           in on_connect D (peer_data s peer) s))"
| "dispatch D d0 (ENET_EVENT_TYPE_RECEIVE peer packet) s =
     (case on_message D (peer_data s peer) (packet_data packet) s of
        (r, s) \<Rightarrow> (r, issue [Packet_destroy (packet_ptr packet)] s))"
| "dispatch D d0 (ENET_EVENT_TYPE_DISCONNECT peer) s =
     (case on_disconnect D (peer_data s peer) s of
        (Inl err, s) \<Rightarrow> (Inl err, s)
      | (Inr _, s) \<Rightarrow> destroy_client (peer_data s peer) s)"
| "dispatch D d0 ENET_EVENT_TYPE_NONE s = (Inr (), s)"

definition poll_host :: "('d, 'm) net_server_scheme \<Rightarrow> ('d, 'm) net_server_scheme" where
  "poll_host s = issue [Host_service (m_server s) 0] s"

text \<open>
  The loop of \<^verbatim>\<open>process\<close>: \<open>events\<close> are the events that successive calls of \<^verbatim>\<open>enet_host_service\<close>
  report until one reports none.
\<close>

fun process_loop ::
    "('d, 'm) net_server_scheme derived \<Rightarrow> 'd \<Rightarrow> ENetEvent list \<Rightarrow>
     ('d, 'm) net_server_scheme \<Rightarrow> (cpp_error + unit) \<times> ('d, 'm) net_server_scheme" where
  "process_loop D d0 [] s = (Inr (), poll_host s)"
| "process_loop D d0 (event # events) s =
     (case dispatch D d0 event (poll_host s) of
        (Inl err, s) \<Rightarrow> (Inl err, s)
      | (Inr _, s) \<Rightarrow> process_loop D d0 events s)"

definition process ::
    "('d, 'm) net_server_scheme derived \<Rightarrow> 'd \<Rightarrow> ENetEvent list \<Rightarrow>
     ('d, 'm) net_server_scheme \<Rightarrow> (cpp_error + unit) \<times> ('d, 'm) net_server_scheme" where
  "process D d0 events s =
     (case on_process D s of
        (Inl err, s) \<Rightarrow> (Inl err, s)
      | (Inr _, s) \<Rightarrow> process_loop D d0 events s)"

definition broadcast :: "bytes \<Rightarrow> ('d, 'm) net_server_scheme \<Rightarrow> ('d, 'm) net_server_scheme" where
  "broadcast message s =
     issue [Packet_create message ENET_PACKET_FLAG_RELIABLE, Host_broadcast (m_server s) 0 message,
       Host_flush (m_server s)] s"

definition clients :: "('d, 'm) net_server_scheme \<Rightarrow> client_ptr list" where
  "clients s = m_clients s"

section \<open>Consistency of the client table\<close>

text \<open>
  The vector of pointers lists the nodes of the table without repetition, every node carries its
  own key as identifier, and the peer of every client points back to it. The last clause also says
  that no two clients share a peer.
\<close>

definition net_inv :: "('d, 'm) net_server_scheme \<Rightarrow> bool" where
  "net_inv s \<longleftrightarrow>
     distinct (m_clients s) \<and> set (m_clients s) = Some ` dom (m_client_map s) \<and>
     (\<forall>k c. m_client_map s k = Some c \<longrightarrow>
        cl_id c = k \<and> cl_server c = m_server s \<and> peer_data s (cl_peer c) = Some k)"

definition connected_peers :: "('d, 'm) net_server_scheme \<Rightarrow> ENetPeer list" where
  "connected_peers s = List.map_filter (\<lambda>p. map_option cl_peer (deref s p)) (m_clients s)"

fun event_ok :: "('d, 'm) net_server_scheme \<Rightarrow> ENetEvent \<Rightarrow> bool" where
  "event_ok s ENET_EVENT_TYPE_NONE = True"
| "event_ok s (ENET_EVENT_TYPE_CONNECT p) = (p \<notin> set (connected_peers s))"
| "event_ok s (ENET_EVENT_TYPE_RECEIVE p _) = (p \<in> set (connected_peers s))"
| "event_ok s (ENET_EVENT_TYPE_DISCONNECT p) = (p \<in> set (connected_peers s))"

fun peers_after :: "ENetEvent \<Rightarrow> ENetPeer set \<Rightarrow> ENetPeer set" where
  "peers_after (ENET_EVENT_TYPE_CONNECT p) C = insert p C"
| "peers_after (ENET_EVENT_TYPE_DISCONNECT p) C = C - {p}"
| "peers_after _ C = C"

text \<open>What a callback must leave alone: everything of the table but the application data.\<close>

definition client_identity :: "'d Client \<Rightarrow> u64 \<times> ENetPeer \<times> ENetHost" where
  "client_identity c = (cl_id c, cl_peer c, cl_server c)"

definition same_registry :: "('d, 'm) net_server_scheme \<Rightarrow> ('d, 'm) net_server_scheme \<Rightarrow> bool" where
  "same_registry s s' \<longleftrightarrow>
     m_server s' = m_server s \<and> m_clients s' = m_clients s \<and>
     m_next_client_id s' = m_next_client_id s \<and> peer_data s' = peer_data s \<and>
     (\<forall>k. map_option client_identity (m_client_map s' k) = map_option client_identity (m_client_map s k))"

lemma same_registry_refl [simp]: "same_registry s s"
  by (simp add: same_registry_def)

lemma same_registry_trans: "\<lbrakk>same_registry s s'; same_registry s' s''\<rbrakk> \<Longrightarrow> same_registry s s''"
  by (simp add: same_registry_def)

lemma same_registry_lookup:
  assumes "same_registry s s'" and "m_client_map s' k = Some c'"
  obtains c where "m_client_map s k = Some c" and "cl_id c' = cl_id c" and "cl_peer c' = cl_peer c"
    and "cl_server c' = cl_server c"
proof -
  from assms have "map_option client_identity (m_client_map s k) = Some (client_identity c')"
    by (metis option.simps(9) same_registry_def)
  then show ?thesis
    by (auto simp: client_identity_def intro: that)
qed

lemma same_registry_dom: "same_registry s s' \<Longrightarrow> dom (m_client_map s') = dom (m_client_map s)"
  unfolding same_registry_def dom_def by (metis (mono_tags) option.map_disc_iff)

lemma same_registry_inv:
  assumes same: "same_registry s s'" and inv: "net_inv s"
  shows "net_inv s'"
  unfolding net_inv_def
proof (intro conjI allI impI)
  show "distinct (m_clients s')" and "set (m_clients s') = Some ` dom (m_client_map s')"
    using same inv by (simp_all add: same_registry_dom net_inv_def) (simp_all add: same_registry_def)
next
  fix k c'
  assume "m_client_map s' k = Some c'"
  with same obtain c where "m_client_map s k = Some c" and id: "cl_id c' = cl_id c"
    "cl_peer c' = cl_peer c" "cl_server c' = cl_server c"
    by (rule same_registry_lookup)
  with inv have "cl_id c = k" "cl_server c = m_server s" "peer_data s (cl_peer c) = Some k"
    by (simp_all add: net_inv_def)
  with same id show "cl_id c' = k" "cl_server c' = m_server s'" "peer_data s' (cl_peer c') = Some k"
    by (simp_all add: same_registry_def)
qed

lemma same_registry_peers: "same_registry s s' \<Longrightarrow> connected_peers s' = connected_peers s"
proof -
  assume same: "same_registry s s'"
  have "map_option cl_peer (m_client_map s' k) = map_option cl_peer (m_client_map s k)" for k
  proof -
    have "map_option (fst \<circ> snd) (map_option client_identity (m_client_map s' k)) =
        map_option (fst \<circ> snd) (map_option client_identity (m_client_map s k))"
      using same by (simp add: same_registry_def)
    then show ?thesis by (simp add: option.map_comp o_def client_identity_def)
  qed
  then have "(\<lambda>p. map_option cl_peer (deref s' p)) = (\<lambda>p. map_option cl_peer (deref s p))"
    by (auto simp: deref_def fun_eq_iff split: option.split)
  with same show ?thesis
    by (simp add: connected_peers_def same_registry_def)
qed

lemma same_registry_issue [simp]:
  "same_registry (issue cs s) s' = same_registry s s'" "same_registry s (issue cs s') = same_registry s s'"
  by (simp_all add: issue_def same_registry_def)

lemma net_inv_next_id [simp]: "net_inv (s\<lparr>m_next_client_id := n\<rparr>) = net_inv s"
  by (simp add: net_inv_def)

lemma net_inv_issue [simp]: "net_inv (issue cs s) = net_inv s"
  by (simp add: net_inv_def issue_def)

lemma connected_peers_issue [simp]: "connected_peers (issue cs s) = connected_peers s"
  by (simp add: same_registry_peers)

lemma create_client_error_defined [simp]: "create_client_error k \<noteq> Undefined_behaviour"
  by (simp add: create_client_error_def)

lemma set_connected_peers:
  assumes "net_inv s"
  shows "p \<in> set (connected_peers s) \<longleftrightarrow> (\<exists>k c. m_client_map s k = Some c \<and> cl_peer c = p)"
proof -
  from assms have "set (m_clients s) = Some ` dom (m_client_map s)"
    by (simp add: net_inv_def)
  then show ?thesis
    by (auto simp: connected_peers_def in_set_map_filter deref_def)
qed

lemma connected_ptr:
  assumes "net_inv s" and "p \<in> set (connected_peers s)"
  obtains k c where "peer_data s p = Some k" and "m_client_map s k = Some c" and "cl_peer c = p"
    and "cl_id c = k" and "cl_server c = m_server s"
  using assms by (auto simp: set_connected_peers net_inv_def)

section \<open>Operations on the table\<close>

lemma deref_live: "\<lbrakk>net_inv s; p \<in> set (m_clients s)\<rbrakk> \<Longrightarrow> deref s p \<noteq> None"
  by (auto simp: net_inv_def deref_def)

lemma Client_send_live:
  "deref s p = Some c \<Longrightarrow>
   Client_send p b s =
     (Inr (), issue [Packet_create b ENET_PACKET_FLAG_RELIABLE, Peer_send (cl_peer c) 0 b,
        Host_flush (cl_server c)] s)"
  by (simp add: Client_send_def)

lemma Client_send_registry: "Client_send p b s = (r, s') \<Longrightarrow> same_registry s s'"
  by (auto simp: Client_send_def split: option.splits)

lemma update_data_registry: "update_data p f s = (r, s') \<Longrightarrow> same_registry s s'"
  by (auto simp: update_data_def same_registry_def client_identity_def split: option.splits)

lemma create_client_cases:
  assumes "create_client d0 peer s = (r, s')"
  obtains (clash) c where "m_client_map s (m_next_client_id s) = Some c"
      and "r = Inl (create_client_error (m_next_client_id s))"
      and "s' = s\<lparr>m_next_client_id := m_next_client_id s + 1\<rparr>"
  | (made) "m_client_map s (m_next_client_id s) = None"
      and "r = Inr (Some (m_next_client_id s))"
      and "s' = s\<lparr>m_next_client_id := m_next_client_id s + 1,
              m_client_map := (m_client_map s)
                (m_next_client_id s \<mapsto> Client_ctor d0 (m_next_client_id s) peer (m_server s)),
              m_clients := m_clients s @ [Some (m_next_client_id s)]\<rparr>"
  using assms by (cases "m_client_map s (m_next_client_id s)") (auto simp: create_client_def Let_def)

text \<open>A connect event for a peer that has no client yet: the new client is registered with it.\<close>

lemma net_inv_connect:
  assumes inv: "net_inv s" and free: "peer \<notin> set (connected_peers s)"
    and made: "create_client d0 peer s = (Inr p, s')"
  defines "s'' \<equiv> s'\<lparr>peer_data := (peer_data s')(peer := p)\<rparr>"
  shows "net_inv s''" and "set (connected_peers s'') = insert peer (set (connected_peers s))"
    and "deref s'' p = Some (Client_ctor d0 (m_next_client_id s) peer (m_server s))"
proof -
  from made show look: "deref s'' p = Some (Client_ctor d0 (m_next_client_id s) peer (m_server s))"
    by (cases rule: create_client_cases) (simp_all add: s''_def deref_def)
  from free have other: "cl_peer c \<noteq> peer" if "m_client_map s k = Some c" for k c
    using that by (auto simp: set_connected_peers [OF inv])
  from made show inv'': "net_inv s''"
  proof (cases rule: create_client_cases)
    case made
    with inv other show ?thesis
      by (auto simp: net_inv_def s''_def Client_ctor_def)
  qed simp
  from made show "set (connected_peers s'') = insert peer (set (connected_peers s))"
  proof (cases rule: create_client_cases)
    case made
    then have "m_client_map s'' = (m_client_map s)
        (m_next_client_id s \<mapsto> Client_ctor d0 (m_next_client_id s) peer (m_server s))"
      by (simp add: s''_def)
    with made(1) show ?thesis
      by (auto simp: set_eq_iff set_connected_peers [OF inv] set_connected_peers [OF inv''] Client_ctor_def)
        (metis option.distinct(1))
  qed simp
qed

text \<open>A disconnect event of a connected peer: exactly its client is removed.\<close>

lemma net_inv_destroy:
  assumes inv: "net_inv s" and conn: "peer \<in> set (connected_peers s)"
    and gone: "destroy_client (peer_data s peer) s = (r, s')"
  shows "r = Inr ()" and "net_inv s'" and "set (connected_peers s') = set (connected_peers s) - {peer}"
proof -
  from inv conn obtain k c where k: "peer_data s peer = Some k" "m_client_map s k = Some c"
    "cl_peer c = peer" "cl_id c = k"
    by (rule connected_ptr)
  with gone have s': "s' = s\<lparr>m_client_map := (m_client_map s)(k := None),
      m_clients := removeAll (Some k) (m_clients s)\<rparr>" and r: "r = Inr ()"
    by (auto simp: destroy_client_def deref_def)
  show "r = Inr ()" by (rule r)
  from inv show inv': "net_inv s'"
    by (auto simp: s' net_inv_def distinct_removeAll)
  have "m_client_map s k' = Some c' \<Longrightarrow> cl_peer c' = peer \<longleftrightarrow> k' = k" for k' c'
    using inv k unfolding net_inv_def by (metis option.inject)
  moreover have "m_client_map s' = (m_client_map s)(k := None)" by (simp add: s')
  ultimately show "set (connected_peers s') = set (connected_peers s) - {peer}"
    by (auto simp: set_eq_iff set_connected_peers [OF inv] set_connected_peers [OF inv'])
qed

section \<open>The contract of a derived server\<close>

definition loop_step ::
    "('d, 'm) net_server_scheme derived \<Rightarrow> 'd \<Rightarrow> ENetEvent \<Rightarrow>
     ('d, 'm) net_server_scheme \<Rightarrow> (cpp_error + unit) \<times> ('d, 'm) net_server_scheme" where
  "loop_step D d0 event s = dispatch D d0 event (poll_host s)"

lemma process_loop_run_events:
  "process_loop D d0 events s =
     (case run_events (loop_step D d0) events s of
        (Inl err, s') \<Rightarrow> (Inl err, s')
      | (Inr _, s') \<Rightarrow> (Inr (), poll_host s'))"
  by (induction events arbitrary: s) (auto simp: loop_step_def split: prod.split sum.split)

locale derived_server =
  fixes D :: "('d, 'm) net_server_scheme derived"
    and d0 :: 'd
  assumes process_registry: "on_process D s = (r, s') \<Longrightarrow> same_registry s s'"
    and connect_registry: "on_connect D p s = (r, s') \<Longrightarrow> same_registry s s'"
    and disconnect_registry: "on_disconnect D p s = (r, s') \<Longrightarrow> same_registry s s'"
    and message_registry: "on_message D p b s = (r, s') \<Longrightarrow> same_registry s s'"
    and process_defined: "net_inv s \<Longrightarrow> fst (on_process D s) \<noteq> Inl Undefined_behaviour"
    and connect_defined:
      "\<lbrakk>net_inv s; deref s p \<noteq> None\<rbrakk> \<Longrightarrow> fst (on_connect D p s) \<noteq> Inl Undefined_behaviour"
    and disconnect_defined:
      "\<lbrakk>net_inv s; deref s p \<noteq> None\<rbrakk> \<Longrightarrow> fst (on_disconnect D p s) \<noteq> Inl Undefined_behaviour"
    and message_defined:
      "\<lbrakk>net_inv s; deref s p \<noteq> None\<rbrakk> \<Longrightarrow> fst (on_message D p b s) \<noteq> Inl Undefined_behaviour"
begin

lemma dispatch_connect:
  assumes "net_inv s" and "peer \<notin> set (connected_peers s)"
    and "dispatch D d0 (ENET_EVENT_TYPE_CONNECT peer) s = (r, s')"
  shows "net_inv s' \<and> r \<noteq> Inl Undefined_behaviour \<and>
    (r = Inr () \<longrightarrow> set (connected_peers s') = insert peer (set (connected_peers s)))"
proof (cases "create_client d0 peer s")
  case (Pair r1 s1)
  show ?thesis
  proof (cases r1)
    case (Inl err)
    with Pair assms show ?thesis
      by (auto elim!: create_client_cases)
  next
    case (Inr p)
    let ?s2 = "s1\<lparr>peer_data := (peer_data s1)(peer := p)\<rparr>"
    note made = net_inv_connect [OF assms(1,2), of d0 p s1]
    have run: "on_connect D p ?s2 = (r, s')"
      using Pair Inr assms(3) by simp
    with made Pair Inr show ?thesis
      using connect_registry [OF run] connect_defined [of ?s2 p]
      by (auto simp: same_registry_peers intro: same_registry_inv)
  qed
qed

lemma dispatch_receive:
  assumes "net_inv s" and "peer \<in> set (connected_peers s)"
    and "dispatch D d0 (ENET_EVENT_TYPE_RECEIVE peer packet) s = (r, s')"
  shows "net_inv s' \<and> r \<noteq> Inl Undefined_behaviour \<and> connected_peers s' = connected_peers s"
proof -
  obtain r1 s1 where run: "on_message D (peer_data s peer) (packet_data packet) s = (r1, s1)"
    by fastforce
  with assms(3) have s': "s' = issue [Packet_destroy (packet_ptr packet)] s1" and r: "r = r1"
    by simp_all
  have same: "same_registry s s'"
    unfolding s' using message_registry [OF run] by simp
  have "deref s (peer_data s peer) \<noteq> None"
    using assms(1,2) by (auto simp: deref_def elim: connected_ptr)
  then show ?thesis
    using message_defined [OF assms(1)] run r same assms(1)
    by (metis fst_conv same_registry_inv same_registry_peers)
qed

lemma dispatch_disconnect:
  assumes "net_inv s" and "peer \<in> set (connected_peers s)"
    and "dispatch D d0 (ENET_EVENT_TYPE_DISCONNECT peer) s = (r, s')"
  shows "net_inv s' \<and> r \<noteq> Inl Undefined_behaviour \<and>
    (r = Inr () \<longrightarrow> set (connected_peers s') = set (connected_peers s) - {peer})"
proof -
  obtain r1 s1 where run: "on_disconnect D (peer_data s peer) s = (r1, s1)"
    by fastforce
  have inv1: "net_inv s1" and peers1: "connected_peers s1 = connected_peers s"
    using disconnect_registry [OF run] assms(1) by (simp_all add: same_registry_inv same_registry_peers)
  have "deref s (peer_data s peer) \<noteq> None"
    using assms(1,2) by (auto simp: deref_def elim: connected_ptr)
  then have "r1 \<noteq> Inl Undefined_behaviour"
    using disconnect_defined [OF assms(1)] run by (metis fst_conv)
  with assms(2,3) run inv1 peers1 show ?thesis
    using net_inv_destroy [OF inv1, of peer r s']
    by (auto split: sum.splits)
qed

lemma dispatch_ok:
  assumes "net_inv s" and "event_ok s event" and "dispatch D d0 event s = (r, s')"
  shows "net_inv s' \<and> r \<noteq> Inl Undefined_behaviour \<and>
    (r = Inr () \<longrightarrow> set (connected_peers s') = peers_after event (set (connected_peers s)))"
proof (cases event)
  case ENET_EVENT_TYPE_NONE
  with assms show ?thesis by auto
next
  case (ENET_EVENT_TYPE_CONNECT peer)
  with assms show ?thesis using dispatch_connect [of s peer r s'] by simp
next
  case (ENET_EVENT_TYPE_RECEIVE peer packet)
  with assms show ?thesis using dispatch_receive [of s peer packet r s'] by simp
next
  case (ENET_EVENT_TYPE_DISCONNECT peer)
  with assms show ?thesis using dispatch_disconnect [of s peer r s'] by simp
qed

end

lemma poll_host_simps [simp]:
  "net_inv (poll_host s) = net_inv s"
  "connected_peers (poll_host s) = connected_peers s"
  "same_registry s (poll_host s)"
  by (simp_all add: poll_host_def)

lemma event_ok_poll_host [simp]: "event_ok (poll_host s) event = event_ok s event"
  by (cases event) simp_all

text \<open>Every derived server makes the event loop a safe machine over the table invariant.\<close>

sublocale derived_server \<subseteq> loop: safe_machine "loop_step D d0" event_ok net_inv
proof
  fix s s' :: "('d, 'm) net_server_scheme" and event r
  assume "net_inv s" and "event_ok s event" and "loop_step D d0 event s = (r, s')"
  then show "net_inv s'"
    using dispatch_ok [of "poll_host s" event r s'] by (simp add: loop_step_def)
next
  fix s :: "('d, 'm) net_server_scheme" and event
  assume "net_inv s" and "event_ok s event"
  then show "fst (loop_step D d0 event s) \<noteq> Inl Undefined_behaviour"
    using dispatch_ok [of "poll_host s" event]
    by (cases "loop_step D d0 event s") (auto simp: loop_step_def)
qed

context derived_server
begin

lemma protocol_guarded:
  "\<lbrakk>net_inv s; enet_protocol (set (connected_peers s)) events\<rbrakk> \<Longrightarrow>
   guarded_run (loop_step D d0) event_ok events s"
proof (induction events arbitrary: s)
  case Nil
  then show ?case by simp
next
  case (Cons event events)
  let ?C = "set (connected_peers s)"
  from Cons.prems(2) have ok: "event_ok s event"
    and rest: "enet_protocol (peers_after event ?C) events"
    by (cases event; simp)+
  have "guarded_run (loop_step D d0) event_ok events s'" if "loop_step D d0 event s = (Inr u, s')" for u s'
  proof (rule Cons.IH)
    have "net_inv s' \<and> set (connected_peers s') = peers_after event ?C"
      using dispatch_ok [of "poll_host s" event "Inr ()" s'] Cons.prems(1) ok that
      by (simp add: loop_step_def)
    then show "net_inv s'" and "enet_protocol (set (connected_peers s')) events"
      using rest by simp_all
  qed
  with ok show ?case by (auto split: prod.split sum.split)
qed

lemma process_safe:
  assumes inv: "net_inv s" and events: "enet_protocol (set (connected_peers s)) events"
    and run: "process D d0 events s = (r, s')"
  shows "net_inv s' \<and> r \<noteq> Inl Undefined_behaviour"
proof (cases "on_process D s")
  case (Pair r1 s1)
  have s1: "net_inv s1" "connected_peers s1 = connected_peers s"
    using process_registry [OF Pair] inv by (simp_all add: same_registry_inv same_registry_peers)
  with events have g: "guarded_run (loop_step D d0) event_ok events s1"
    by (intro protocol_guarded) simp_all
  have "fst (run_events (loop_step D d0) events s1) \<noteq> Inl Undefined_behaviour"
    using s1(1) g by (rule loop.run_defined)
  moreover have "net_inv (snd (run_events (loop_step D d0) events s1))"
    using loop.run_inv [OF s1(1) g] by (metis prod.collapse)
  moreover have "r1 \<noteq> Inl Undefined_behaviour"
    using process_defined [OF inv] Pair by simp
  ultimately show ?thesis
    using run Pair s1
    by (auto simp: process_def process_loop_run_events split: sum.splits prod.splits)
qed

end

end
