(* ===== verification/Protocol.thy ===== *)
theory Protocol
  imports Cpp_Strings
begin

text \<open>
  The wire protocol of \<^verbatim>\<open>include/spraybus/networking/protocol.hpp\<close>: the enumerations of a header,
  the packed 16-byte header itself, the packet builder \<^verbatim>\<open>Constructor\<close> and the packet view
  \<^verbatim>\<open>Message\<close>.

  A scoped enumeration with a fixed underlying type holds every value of that type, also the ones
  no enumerator names, and a received header is read straight from the wire. Each enumeration is
  therefore a datatype that wraps its underlying value, the enumerators are named values of it, and
  a \<^verbatim>\<open>switch\<close> is a chain of comparisons with the \<^verbatim>\<open>default\<close> branch last.

  The header goes onto the wire as its object representation, so its bytes depend on the byte order
  of the host; the byte order is an argument of every definition that reads or writes memory.
  The lemmas give the round trip of packets in both directions, the layout of every packet the
  \<^verbatim>\<open>Constructor\<close> builds, what survives between hosts of different byte order, and the shape of
  the diagnostic strings.
\<close>

section \<open>Byte order of the topic key\<close>

definition byteswap64 :: "u64 \<Rightarrow> u64" where
  "byteswap64 v = le_word (rev (le_bytes 8 v))"

definition host_to_network64 :: "endian \<Rightarrow> u64 \<Rightarrow> u64" where
  "host_to_network64 e v = (case e of Little \<Rightarrow> byteswap64 v | Big \<Rightarrow> v)"

definition network_to_host64 :: "endian \<Rightarrow> u64 \<Rightarrow> u64" where
  "network_to_host64 e v = (case e of Little \<Rightarrow> byteswap64 v | Big \<Rightarrow> v)"

section \<open>Enumerations\<close>

datatype Origin = Origin (origin_value: byte)

definition Origin_unknown :: Origin where
  [enum_defs]: "Origin_unknown = Origin 0x00"

definition Origin_client :: Origin where
  [enum_defs]: "Origin_client = Origin 0x01"

definition Origin_server :: Origin where
  [enum_defs]: "Origin_server = Origin 0x02"

definition Origin_leaf :: Origin where
  [enum_defs]: "Origin_leaf = Origin 0x03"

definition to_string_Origin :: "Origin \<Rightarrow> string" where
  "to_string_Origin origin =
     (if origin = Origin_unknown then ''unknown''
      else if origin = Origin_client then ''client''
      else if origin = Origin_server then ''server''
      else if origin = Origin_leaf then ''leaf''
      else ''invalid'')"

datatype Version = Version (version_value: u16)

definition Version_v1 :: Version where
  [enum_defs]: "Version_v1 = Version 0x01"

definition to_string_Version :: "Version \<Rightarrow> string" where
  "to_string_Version version = (if version = Version_v1 then ''v1'' else ''invalid'')"

datatype Type = Type (type_value: byte)

definition Type_unknown :: Type where
  [enum_defs]: "Type_unknown = Type 0x00"

definition Type_topic_request :: Type where
  [enum_defs]: "Type_topic_request = Type 0x01"

definition Type_topic_response :: Type where
  [enum_defs]: "Type_topic_response = Type 0x02"

definition Type_publish :: Type where
  [enum_defs]: "Type_publish = Type 0x03"

definition Type_subscribe :: Type where
  [enum_defs]: "Type_subscribe = Type 0x04"

definition Type_unsubscribe :: Type where
  [enum_defs]: "Type_unsubscribe = Type 0x05"

definition Type_fanout :: Type where
  [enum_defs]: "Type_fanout = Type 0x06"

definition to_string_Type :: "Type \<Rightarrow> string" where
  "to_string_Type type =
     (if type = Type_unknown then ''unknown''
      else if type = Type_topic_request then ''topic_request''
      else if type = Type_topic_response then ''topic_response''
      else if type = Type_publish then ''publish''
      else if type = Type_subscribe then ''subscribe''
      else if type = Type_unsubscribe then ''unsubscribe''
      else if type = Type_fanout then ''fanout''
      else ''invalid'')"

section \<open>Header\<close>

text \<open>The field \<open>m_topic_key\<close> holds the key in network byte order, as the C++ member does.\<close>

record Header =
  m_reserved :: u32
  m_version :: Version
  m_origin :: Origin
  m_type :: Type
  m_topic_key :: u64

definition current_version :: Version where
  "current_version = Version_v1"

definition Header_ctor :: "endian \<Rightarrow> Origin \<Rightarrow> Type \<Rightarrow> u64 \<Rightarrow> Header" where
  "Header_ctor e origin type topic_key =
     \<lparr>m_reserved = 0, m_version = current_version, m_origin = origin, m_type = type,
      m_topic_key = host_to_network64 e topic_key\<rparr>"

definition Header_topic_request :: "endian \<Rightarrow> Origin \<Rightarrow> Header" where
  "Header_topic_request e origin = Header_ctor e origin Type_topic_request 0"

definition Header_topic_response :: "endian \<Rightarrow> u64 \<Rightarrow> Origin \<Rightarrow> Header" where
  "Header_topic_response e topic_key origin = Header_ctor e origin Type_topic_response topic_key"

definition Header_publish :: "endian \<Rightarrow> u64 \<Rightarrow> Origin \<Rightarrow> Header" where
  "Header_publish e topic_key origin = Header_ctor e origin Type_publish topic_key"

definition Header_subscribe :: "endian \<Rightarrow> u64 \<Rightarrow> Origin \<Rightarrow> Header" where
  "Header_subscribe e topic_key origin = Header_ctor e origin Type_subscribe topic_key"

definition Header_unsubscribe :: "endian \<Rightarrow> u64 \<Rightarrow> Origin \<Rightarrow> Header" where
  "Header_unsubscribe e topic_key origin = Header_ctor e origin Type_unsubscribe topic_key"

definition Header_fanout :: "endian \<Rightarrow> u64 \<Rightarrow> Origin \<Rightarrow> Header" where
  "Header_fanout e topic_key origin = Header_ctor e origin Type_fanout topic_key"

definition Header_version :: "Header \<Rightarrow> Version" where
  "Header_version h = m_version h"

definition Header_origin :: "Header \<Rightarrow> Origin" where
  "Header_origin h = m_origin h"

definition Header_type :: "Header \<Rightarrow> Type" where
  "Header_type h = m_type h"

definition Header_topic_key :: "endian \<Rightarrow> Header \<Rightarrow> u64" where
  "Header_topic_key e h = network_to_host64 e (m_topic_key h)"

definition Header_to_string :: "endian \<Rightarrow> Header \<Rightarrow> string" where
  "Header_to_string e h =
     ''Header { version: '' @ to_string_Version (m_version h) @
     '', origin: '' @ to_string_Origin (m_origin h) @
     '', type: '' @ to_string_Type (m_type h) @
     '', topic_key: '' @ to_string_u64 (Header_topic_key e h) @ '' }''"

text \<open>\<^verbatim>\<open>static_assert(sizeof(Header) == 16)\<close>, proved below as \<open>length_bytes_of_Header\<close>.\<close>

definition sizeof_Header :: nat where
  "sizeof_Header = 16"

text \<open>
  The object representation of the packed struct, its members in declaration order without
  padding, and the struct that \<^verbatim>\<open>reinterpret_cast<const Header*>\<close> sees in such bytes.
\<close>

definition bytes_of_Header :: "endian \<Rightarrow> Header \<Rightarrow> bytes" where
  "bytes_of_Header e h =
     mem_bytes e 4 (m_reserved h) @ mem_bytes e 2 (version_value (m_version h)) @
     [origin_value (m_origin h)] @ [type_value (m_type h)] @ mem_bytes e 8 (m_topic_key h)"

definition Header_of_bytes :: "endian \<Rightarrow> bytes \<Rightarrow> Header" where
  "Header_of_bytes e bs =
     \<lparr>m_reserved = mem_word e (take 4 bs),
      m_version = Version (mem_word e (take 2 (drop 4 bs))),
      m_origin = Origin (bs ! 6),
      m_type = Type (bs ! 7),
      m_topic_key = mem_word e (take 8 (drop 8 bs))\<rparr>"

section \<open>Constructor\<close>

text \<open>
  The builder owns one buffer. An operation returns the bytes its span shows and the builder
  afterwards: the span is a view of the buffer, so the two agree.
\<close>

record Constructor =
  m_buffer :: bytes

definition Constructor_ctor :: Constructor where
  "Constructor_ctor = \<lparr>m_buffer = []\<rparr>"

definition construct :: "endian \<Rightarrow> Constructor \<Rightarrow> Header \<Rightarrow> bytes \<Rightarrow> bytes \<times> Constructor" where
  "construct e c header payload =
     (let c = c\<lparr>m_buffer := []\<rparr>;
          header_bytes = bytes_of_Header e header;
          c = c\<lparr>m_buffer := m_buffer c @ header_bytes\<rparr>;
          c = c\<lparr>m_buffer := m_buffer c @ payload\<rparr>
      in (m_buffer c, c))"

definition construct_topic_request ::
    "endian \<Rightarrow> Constructor \<Rightarrow> string \<Rightarrow> Origin \<Rightarrow> bytes \<times> Constructor" where
  "construct_topic_request e c topic_name origin =
     construct e c (Header_topic_request e origin) (bytes_of_string topic_name)"

definition construct_topic_response ::
    "endian \<Rightarrow> Constructor \<Rightarrow> u64 \<Rightarrow> string \<Rightarrow> Origin \<Rightarrow> bytes \<times> Constructor" where
  "construct_topic_response e c topic_key topic_name origin =
     construct e c (Header_topic_response e topic_key origin) (bytes_of_string topic_name)"

definition construct_publish ::
    "endian \<Rightarrow> Constructor \<Rightarrow> u64 \<Rightarrow> bytes \<Rightarrow> Origin \<Rightarrow> bytes \<times> Constructor" where
  "construct_publish e c topic_key payload origin =
     construct e c (Header_publish e topic_key origin) payload"

definition construct_subscribe ::
    "endian \<Rightarrow> Constructor \<Rightarrow> u64 \<Rightarrow> Origin \<Rightarrow> bytes \<times> Constructor" where
  "construct_subscribe e c topic_key origin =
     construct e c (Header_subscribe e topic_key origin) []"

definition construct_unsubscribe ::
    "endian \<Rightarrow> Constructor \<Rightarrow> u64 \<Rightarrow> Origin \<Rightarrow> bytes \<times> Constructor" where
  "construct_unsubscribe e c topic_key origin =
     construct e c (Header_unsubscribe e topic_key origin) []"

definition construct_fanout ::
    "endian \<Rightarrow> Constructor \<Rightarrow> u64 \<Rightarrow> bytes \<Rightarrow> Origin \<Rightarrow> bytes \<times> Constructor" where
  "construct_fanout e c topic_key payload origin =
     construct e c (Header_fanout e topic_key origin) payload"

section \<open>Message\<close>

record Message =
  m_header :: Header
  m_payload :: bytes
  m_topic :: string

definition parse_header :: "endian \<Rightarrow> bytes \<Rightarrow> cpp_error + Header" where
  "parse_header e data =
     (if length data < sizeof_Header then Inl (Runtime_error ''Data too short to contain header'')
      else Inr (Header_of_bytes e data))"

definition Message_ctor :: "endian \<Rightarrow> bytes \<Rightarrow> cpp_error + Message" where
  "Message_ctor e data =
     (case parse_header e data of
        Inl err \<Rightarrow> Inl err
      | Inr h \<Rightarrow> Inr \<lparr>m_header = h, m_payload = drop sizeof_Header data, m_topic = []\<rparr>)"

definition set_topic :: "string \<Rightarrow> Message \<Rightarrow> Message" where
  "set_topic topic_name m = m\<lparr>m_topic := topic_name\<rparr>"

definition Message_topic :: "Message \<Rightarrow> string" where
  "Message_topic m = m_topic m"

definition Message_header :: "Message \<Rightarrow> Header" where
  "Message_header m = m_header m"

definition Message_payload :: "Message \<Rightarrow> bytes" where
  "Message_payload m = m_payload m"

definition payload_as_string :: "Message \<Rightarrow> string" where
  "payload_as_string m = string_of_bytes (m_payload m)"

definition hex_digits :: string where
  "hex_digits = ''0123456789abcdef''"

text \<open>The loop of \<^verbatim>\<open>Message::to_string\<close> from index \<open>i\<close> on.\<close>

function hex_loop :: "bytes \<Rightarrow> nat \<Rightarrow> string \<Rightarrow> string" where
  "hex_loop p i out =
     (if i < length p then
        let out = (if i \<noteq> 0 then out @ '' '' else out);
            byte = p ! i;
            out = out @ ''0x'';
            out = out @ [hex_digits ! unat (drop_bit 4 byte AND 0x0f)];
            out = out @ [hex_digits ! unat (byte AND 0x0f)]
        in hex_loop p (Suc i) out
      else out)"
  by pat_completeness auto
termination
  by (relation "measure (\<lambda>(p, i, out). length p - i)") auto

declare hex_loop.simps [simp del]

definition Message_to_string :: "endian \<Rightarrow> Message \<Rightarrow> string" where
  "Message_to_string e m =
     hex_loop (m_payload m) 0 (''Message { '' @ Header_to_string e (Message_header m) @ '', Payload { '') @ '' } }''"

section \<open>Byte order\<close>

lemmas accessor_defs =
  Header_version_def Header_origin_def Header_type_def Header_topic_key_def
  Message_topic_def Message_header_def Message_payload_def

lemmas header_factory_defs =
  Header_topic_request_def Header_topic_response_def Header_publish_def Header_subscribe_def
  Header_unsubscribe_def Header_fanout_def

lemmas packet_factory_defs =
  construct_topic_request_def construct_topic_response_def construct_publish_def
  construct_subscribe_def construct_unsubscribe_def construct_fanout_def

lemma byteswap64_byteswap64 [simp]: "byteswap64 (byteswap64 v) = v"
  by (simp add: byteswap64_def memory_simps)

lemma network_to_host64_host_to_network64 [simp]:
  "network_to_host64 e (host_to_network64 e v) = v"
  by (simp add: network_to_host64_def host_to_network64_def split: endian.split)

lemma host_to_network64_network_to_host64 [simp]:
  "host_to_network64 e (network_to_host64 e v) = v"
  by (simp add: network_to_host64_def host_to_network64_def split: endian.split)

text \<open>In memory, the converted value lies with its most significant byte first on every host.\<close>

lemma mem_bytes_host_to_network64: "mem_bytes e 8 (host_to_network64 e k) = rev (le_bytes 8 k)"
  by (simp add: mem_bytes_def host_to_network64_def byteswap64_def memory_simps split: endian.split)

lemma network_to_host64_mem_word:
  "length bs = 8 \<Longrightarrow> network_to_host64 e (mem_word e bs) = le_word (rev bs)"
  by (simp add: network_to_host64_def mem_word_def byteswap64_def memory_simps split: endian.split)

section \<open>Packets\<close>

lemma length_bytes_of_Header [simp]: "length (bytes_of_Header e h) = sizeof_Header"
  by (simp add: bytes_of_Header_def sizeof_Header_def)

lemma Header_of_bytes_of_Header [memory_simps]: "Header_of_bytes e (bytes_of_Header e h @ p) = h"
  by (simp add: Header_of_bytes_def bytes_of_Header_def memory_simps nth_append)

lemma split16:
  assumes "16 \<le> length bs"
  shows "take 4 bs @ take 2 (drop 4 bs) @ [bs ! 6] @ [bs ! 7] @ take 8 (drop 8 bs) = take 16 bs"
proof -
  have "take 16 bs = take 4 bs @ take 2 (drop 4 bs) @ take 1 (drop 6 bs) @ take 1 (drop 7 bs)
      @ take 8 (drop 8 bs)"
    using take_add [of 4 12 bs] take_add [of 2 10 "drop 4 bs"] take_add [of 1 9 "drop 6 bs"]
      take_add [of 1 8 "drop 7 bs"]
    by simp
  with assms show ?thesis
    by (simp add: take_Suc hd_drop_conv_nth)
qed

lemma bytes_of_Header_of_bytes:
  assumes "sizeof_Header \<le> length bs"
  shows "bytes_of_Header e (Header_of_bytes e bs) = take sizeof_Header bs"
  using assms split16 [of bs]
  by (simp add: Header_of_bytes_def bytes_of_Header_def memory_simps sizeof_Header_def)

lemma construct_simp [simp]:
  "construct e c h p = (bytes_of_Header e h @ p, c\<lparr>m_buffer := bytes_of_Header e h @ p\<rparr>)"
  by (simp add: construct_def Let_def)

lemma Message_ctor_packet [simp]:
  "Message_ctor e (bytes_of_Header e h @ p) = Inr \<lparr>m_header = h, m_payload = p, m_topic = []\<rparr>"
  by (simp add: Message_ctor_def parse_header_def memory_simps)

lemma Message_ctor_short [simp]:
  "length d < sizeof_Header \<Longrightarrow>
   Message_ctor e d = Inl (Runtime_error ''Data too short to contain header'')"
  by (simp add: Message_ctor_def parse_header_def)

lemma Message_ctor_long:
  "sizeof_Header \<le> length d \<Longrightarrow>
   Message_ctor e d =
     Inr \<lparr>m_header = Header_of_bytes e d, m_payload = drop sizeof_Header d, m_topic = []\<rparr>"
  by (simp add: Message_ctor_def parse_header_def)

lemma Message_ctor_Inr_iff:
  "Message_ctor e d = Inr m \<longleftrightarrow>
     sizeof_Header \<le> length d \<and>
     m = \<lparr>m_header = Header_of_bytes e d, m_payload = drop sizeof_Header d, m_topic = []\<rparr>"
  by (cases "length d < sizeof_Header") (auto simp: Message_ctor_long not_less)

subsection \<open>The packet format as an interface\<close>

text \<open>
  What a peer relies on: a packet decodes to what it was built from, and what a packet decodes to
  builds that packet again. Then encoding is injective and a sequence of packets can be read back
  one by one.
\<close>

locale packet_codec =
  fixes encode :: "'h \<Rightarrow> bytes \<Rightarrow> bytes"
    and decode :: "bytes \<Rightarrow> cpp_error + 'h \<times> bytes"
  assumes decode_encode: "decode (encode h p) = Inr (h, p)"
    and encode_decode: "decode d = Inr (h, p) \<Longrightarrow> encode h p = d"
begin

lemma encode_inject: "encode h p = encode h' p' \<longleftrightarrow> h = h' \<and> p = p'"
  by (metis Inr_inject Pair_inject decode_encode)

lemma decode_inject: "\<lbrakk>decode d = Inr x; decode d' = Inr x\<rbrakk> \<Longrightarrow> d = d'"
  by (cases x) (metis encode_decode)

lemma decode_stream: "map decode (map (case_prod encode) ms) = map Inr ms"
  by (induction ms) (auto simp: decode_encode)

end

definition decode_packet :: "endian \<Rightarrow> bytes \<Rightarrow> cpp_error + Header \<times> bytes" where
  "decode_packet e d = map_sum id (\<lambda>m. (Message_header m, Message_payload m)) (Message_ctor e d)"

interpretation wire: packet_codec "\<lambda>h p. fst (construct e c h p)" "decode_packet e" for e c
proof
  fix h p
  show "decode_packet e (fst (construct e c h p)) = Inr (h, p)"
    by (simp add: decode_packet_def accessor_defs)
next
  fix d h p
  assume "decode_packet e d = Inr (h, p)"
  then show "fst (construct e c h p) = d"
    by (cases "Message_ctor e d")
      (auto simp: decode_packet_def accessor_defs Message_ctor_Inr_iff bytes_of_Header_of_bytes)
qed

subsection \<open>Layout\<close>

lemma le_bytes_eval:
  "le_bytes 2 w = [ucast w, ucast (drop_bit 8 w)]"
  "le_bytes 4 w = [ucast w, ucast (drop_bit 8 w), ucast (drop_bit 16 w), ucast (drop_bit 24 w)]"
  by (simp_all add: numeral_eq_Suc)

lemma bytes_of_Header_ctor:
  "bytes_of_Header e (Header_ctor e org t k) =
     [0, 0, 0, 0] @ (case e of Little \<Rightarrow> [1, 0] | Big \<Rightarrow> [0, 1]) @
     [origin_value org, type_value t] @ rev (le_bytes 8 k)"
  by (simp add: bytes_of_Header_def Header_ctor_def current_version_def Version_v1_def
      mem_bytes_host_to_network64)
    (simp add: mem_bytes_def le_bytes_eval split: endian.split)

lemma Header_topic_key_ctor [simp]: "Header_topic_key e (Header_ctor e org t k) = k"
  by (simp add: Header_topic_key_def Header_ctor_def)

lemma Header_type_ctor [simp]: "Header_type (Header_ctor e org t k) = t"
  by (simp add: Header_type_def Header_ctor_def)

lemma Header_origin_ctor [simp]: "Header_origin (Header_ctor e org t k) = org"
  by (simp add: Header_origin_def Header_ctor_def)

lemma le_word_two:
  "(le_word [1, 0] :: u16) = 1" "(le_word [0, 1] :: u16) = 256"
  by simp_all

text \<open>
  A packet read on a host of another byte order: only the version, which is not converted, can differ.
\<close>

lemma cross_endian_Header:
  "let h = Header_of_bytes e' (bytes_of_Header e (Header_ctor e org t k) @ p)
   in Header_type h = t \<and> Header_origin h = org \<and> Header_topic_key e' h = k \<and>
      (Header_version h = current_version \<longleftrightarrow> e' = e)"
proof -
  let ?d = "bytes_of_Header e (Header_ctor e org t k) @ p"
  have d: "?d = [0, 0, 0, 0] @ (case e of Little \<Rightarrow> [1, 0] | Big \<Rightarrow> [0, 1]) @
     [origin_value org, type_value t] @ rev (le_bytes 8 k) @ p"
    by (simp add: bytes_of_Header_ctor)
  have key: "network_to_host64 e' (mem_word e' (rev (le_bytes 8 k))) = k"
    by (simp add: network_to_host64_mem_word memory_simps)
  have "Header_version (Header_of_bytes e' ?d) = current_version \<longleftrightarrow> e' = e"
    unfolding d by (cases e; cases e')
      (simp_all add: Header_of_bytes_def accessor_defs mem_word_def le_word_two current_version_def enum_defs
        del: le_word.simps)
  moreover have "Header_type (Header_of_bytes e' ?d) = t" "Header_origin (Header_of_bytes e' ?d) = org"
    "Header_topic_key e' (Header_of_bytes e' ?d) = k"
    unfolding d using key by (simp_all add: Header_of_bytes_def accessor_defs split: endian.split)
  ultimately show ?thesis by (simp add: Let_def)
qed

section \<open>Diagnostic strings\<close>

definition hex_byte :: "byte \<Rightarrow> string" where
  "hex_byte b = ''0x'' @ [hex_digits ! unat (drop_bit 4 b AND 0x0f), hex_digits ! unat (b AND 0x0f)]"

fun hex_dump :: "bytes \<Rightarrow> string" where
  "hex_dump [] = ''''"
| "hex_dump (b # bs) = hex_byte b @ concat (map (\<lambda>b. '' '' @ hex_byte b) bs)"

lemma hex_loop_unfold:
  "hex_loop p i out =
     out @ concat (map (\<lambda>j. (if j \<noteq> 0 then '' '' else '''') @ hex_byte (p ! j)) [i..<length p])"
proof (induction p i out rule: hex_loop.induct)
  case (1 p i out)
  show ?case
  proof (cases "i < length p")
    case True
    with "1.IH" show ?thesis
      by (subst hex_loop.simps) (simp add: hex_byte_def Let_def upt_rec [of i])
  next
    case False
    then show ?thesis
      by (subst hex_loop.simps) simp
  qed
qed

lemma hex_loop_hex_dump: "hex_loop p 0 out = out @ hex_dump p"
proof (cases p)
  case Nil
  then show ?thesis by (simp add: hex_loop_unfold)
next
  case (Cons b bs)
  have "map (\<lambda>j. (if j \<noteq> 0 then '' '' else '''') @ hex_byte ((b # bs) ! j)) [Suc 0..<Suc (length bs)]
      = map (\<lambda>b. '' '' @ hex_byte b) bs"
    by (rule nth_equalityI) (simp_all del: upt_Suc)
  with Cons show ?thesis
    by (simp add: hex_loop_unfold upt_rec [of 0] del: upt_Suc)
qed

lemma nibble_less: "unat (b AND 0x0f :: byte) < 16"
proof -
  have "unat (b AND 0x0f) \<le> unat (0x0f :: byte)"
    by (rule word_and_le1 [THEN word_le_nat_alt [THEN iffD1]])
  then show ?thesis by simp
qed

lemma byte_nibbles: "b = push_bit 4 (drop_bit 4 b AND 0x0f) OR (b AND 0x0f)" for b :: byte
proof -
  have m: "(0x0f :: byte) = mask 4" by (simp add: mask_eq_exp_minus_1)
  show ?thesis
    unfolding m by (rule bit_word_eqI) (auto simp: bit_simps)
qed

lemma hex_digits_nth_inject:
  "\<lbrakk>m < 16; n < 16; hex_digits ! m = hex_digits ! n\<rbrakk> \<Longrightarrow> m = n"
  using nth_eq_iff_index_eq [of hex_digits m n] by (simp add: hex_digits_def)

lemma hex_byte_inject [simp]: "hex_byte b = hex_byte c \<longleftrightarrow> b = c"
proof
  assume "hex_byte b = hex_byte c"
  then have "drop_bit 4 b AND 0x0f = drop_bit 4 c AND 0x0f" and "b AND 0x0f = c AND 0x0f"
    by (auto simp: hex_byte_def word_unat_eq_iff nibble_less dest!: hex_digits_nth_inject [rotated 2])
  then show "b = c"
    using byte_nibbles [of b] byte_nibbles [of c] by simp
qed simp

lemma length_hex_byte [simp]: "length (hex_byte b) = 4"
  by (simp add: hex_byte_def)

lemma concat_hex_inject:
  "concat (map (\<lambda>b. '' '' @ hex_byte b) bs) = concat (map (\<lambda>b. '' '' @ hex_byte b) cs) \<longleftrightarrow> bs = cs"
proof (induction bs arbitrary: cs)
  case Nil
  then show ?case by (cases cs) auto
next
  case (Cons b bs)
  then show ?case by (cases cs) (auto simp: append_eq_append_conv)
qed

lemma hex_dump_inject [simp]: "hex_dump p = hex_dump q \<longleftrightarrow> p = q"
proof (cases p; cases q)
  fix b bs c cs
  assume "p = b # bs" and "q = c # cs"
  then show ?thesis
    using concat_hex_inject [of bs cs] by (simp add: append_eq_append_conv)
qed (auto simp: hex_byte_def)

section \<open>Properties\<close>

text \<open>What a receiver reads off a packet: type, origin, topic key and payload.\<close>

definition packet_view :: "endian \<Rightarrow> bytes \<Rightarrow> cpp_error + Type \<times> Origin \<times> u64 \<times> bytes" where
  "packet_view e d =
     map_sum id (\<lambda>m. (Header_type (Message_header m), Header_origin (Message_header m),
       Header_topic_key e (Message_header m), Message_payload m)) (Message_ctor e d)"

lemma packet_view_ctor [simp]:
  "packet_view e' (bytes_of_Header e (Header_ctor e org t k) @ p) = Inr (t, org, k, p)"
  using cross_endian_Header [of e' e org t k p]
  by (simp add: packet_view_def Message_header_def Message_payload_def Message_ctor_long Let_def)

text \<open>C22: Parsing a packet built by \<^verbatim>\<open>Constructor::construct\<close> gives back exactly the header and
  payload it was built from, on hosts of either byte order and whatever the buffer held before.\<close>

theorem construct_then_parse:
  "Message_ctor e (fst (construct e c h p)) = Inr \<lparr>m_header = h, m_payload = p, m_topic = []\<rparr>"
  by simp

text \<open>C23: The other direction: every packet that parses is the packet \<^verbatim>\<open>construct\<close> builds from the
  parsed header and payload, so no byte of a received packet is lost or reinterpreted, and two
  different packets never parse to the same header and payload.\<close>

theorem parse_then_construct:
  assumes "Message_ctor e d = Inr m"
  shows "fst (construct e c (Message_header m) (Message_payload m)) = d"
  using assms
  by (intro wire.encode_decode) (simp add: decode_packet_def)

theorem parse_then_construct_witness:
  "Message_ctor Little (replicate 16 0 @ [7]) =
     Inr \<lparr>m_header = Header_of_bytes Little (replicate 16 0 @ [7]), m_payload = [7], m_topic = []\<rparr> \<and>
   fst (construct Little Constructor_ctor (Header_of_bytes Little (replicate 16 0 @ [7])) [7])
     = replicate 16 0 @ [7]"
proof -
  have h: "Message_ctor Little (replicate 16 0 @ [7]) =
      Inr \<lparr>m_header = Header_of_bytes Little (replicate 16 0 @ [7]), m_payload = [7], m_topic = []\<rparr>"
    by (simp add: Message_ctor_Inr_iff sizeof_Header_def)
  show ?thesis
    using h parse_then_construct [OF h, of Constructor_ctor] by (simp add: accessor_defs)
qed

text \<open>Parsing fails exactly on packets shorter than the 16 header bytes, always with the same
  exception, and otherwise the payload is everything after the header.\<close>

lemma parse_total:
  "(case Message_ctor e d of
      Inl err \<Rightarrow> length d < 16 \<and> err = Runtime_error ''Data too short to contain header''
    | Inr m \<Rightarrow> 16 \<le> length d \<and> Message_payload m = drop 16 d \<and> Message_topic m = [])"
  by (cases "length d < sizeof_Header")
    (simp_all add: Message_ctor_long accessor_defs sizeof_Header_def not_less)

text \<open>The wire layout: four zero bytes, the version in the byte order of the sending host, one
  byte each for origin and type, and the key with its most significant byte first on every host.\<close>

lemma packet_layout:
  "fst (construct e c (Header_ctor e org t k) p) =
     [0, 0, 0, 0] @ (case e of Little \<Rightarrow> [1, 0] | Big \<Rightarrow> [0, 1]) @
     [origin_value org, type_value t] @ rev (le_bytes 8 k) @ p"
  by (simp add: bytes_of_Header_ctor)

text \<open>C24: Between hosts of different byte order a packet keeps its type, origin, topic key and
  payload; the version field, which is not converted, is read correctly only by a host of the
  sender's byte order.\<close>

theorem packet_cross_endian:
  "\<exists>m. Message_ctor e' (fst (construct e c (Header_ctor e org t k) p)) = Inr m \<and>
     Header_type (Message_header m) = t \<and> Header_origin (Message_header m) = org \<and>
     Header_topic_key e' (Message_header m) = k \<and> Message_payload m = p \<and>
     (Header_version (Message_header m) = current_version \<longleftrightarrow> e' = e)"
  using cross_endian_Header [of e' e org t k p]
  by (simp add: Message_ctor_long accessor_defs Let_def)

text \<open>\<^verbatim>\<open>Message::to_string\<close> prints the payload as two hexadecimal digits per byte, separated by
  single spaces, and messages with the same header print alike only if their payloads agree.\<close>

lemma Message_to_string_faithful:
  "Message_to_string e m =
     ''Message { '' @ Header_to_string e (m_header m) @ '', Payload { '' @ hex_dump (m_payload m) @ '' } }'' \<and>
   (m_header m' = m_header m \<longrightarrow>
     (Message_to_string e m' = Message_to_string e m \<longleftrightarrow> m_payload m' = m_payload m))"
  by (auto simp: Message_to_string_def hex_loop_hex_dump accessor_defs)

end
