(* ===== verification/Topic_Map.thy ===== *)
theory Topic_Map
  imports Spraybus_Prelude
begin

text \<open>
  The server's topic table, \<^verbatim>\<open>include/spraybus/server/topic_map.hpp\<close>: a map from topic names to
  64-bit keys and the next key to hand out, which wraps around like the C++ counter does.

  The abstract specification is the list of topic names in the order of their first request; the
  key of a topic is its position, counted from 1. \<open>names_of\<close> relates the two, and the interface
  \<open>key_allocator\<close> collects the laws the server relies on: known names keep their key, other names
  are not touched, and no two names share a key while the counter has not wrapped.
\<close>

section \<open>Model\<close>

record TopicMap =
  m_map :: "string \<rightharpoonup> u64"
  m_next_key :: u64

definition TopicMap_ctor :: TopicMap where
  "TopicMap_ctor = \<lparr>m_map = Map.empty, m_next_key = 1\<rparr>"

definition generate_key :: "TopicMap \<Rightarrow> u64 \<times> TopicMap" where
  "generate_key tm = (m_next_key tm, tm\<lparr>m_next_key := m_next_key tm + 1\<rparr>)"

definition get_or_create :: "string \<Rightarrow> TopicMap \<Rightarrow> u64 \<times> TopicMap" where
  "get_or_create topic tm =
     (case m_map tm topic of
        Some k \<Rightarrow> (k, tm)
      | None \<Rightarrow>
          (let (topic_key, tm) = generate_key tm
           in (topic_key, tm\<lparr>m_map := (m_map tm)(topic \<mapsto> topic_key)\<rparr>)))"

definition get :: "string \<Rightarrow> TopicMap \<Rightarrow> u64 option" where
  "get topic tm = m_map tm topic"

section \<open>The interface of a key allocator\<close>

definition alloc_all :: "('n \<Rightarrow> 's \<Rightarrow> 'k \<times> 's) \<Rightarrow> 'n list \<Rightarrow> 's \<Rightarrow> 's" where
  "alloc_all alloc ns s = fold (\<lambda>n s. snd (alloc n s)) ns s"

locale key_allocator =
  fixes alloc :: "'n \<Rightarrow> 's \<Rightarrow> 'k \<times> 's"
    and lookup :: "'n \<Rightarrow> 's \<Rightarrow> 'k option"
    and room :: "'s \<Rightarrow> bool"
    and inv :: "'s \<Rightarrow> bool"
  assumes alloc_lookup: "alloc n s = (k, s') \<Longrightarrow> lookup n s' = Some k"
    and alloc_other: "\<lbrakk>alloc n s = (k, s'); n' \<noteq> n\<rbrakk> \<Longrightarrow> lookup n' s' = lookup n' s"
    and alloc_known: "lookup n s = Some k \<Longrightarrow> alloc n s = (k, s)"
    and alloc_inv: "\<lbrakk>inv s; room s; alloc n s = (k, s')\<rbrakk> \<Longrightarrow> inv s'"
    and lookup_inject: "\<lbrakk>inv s; lookup n s = Some k; lookup n' s = Some k\<rbrakk> \<Longrightarrow> n = n'"
begin

lemma alloc_stable: "\<lbrakk>lookup m s = Some k; alloc n s = (k', s')\<rbrakk> \<Longrightarrow> lookup m s' = Some k"
  by (cases "m = n") (auto simp: alloc_known alloc_other)

lemma alloc_all_stable: "lookup m s = Some k \<Longrightarrow> lookup m (alloc_all alloc ns s) = Some k"
proof (induction ns arbitrary: s)
  case Nil
  then show ?case by (simp add: alloc_all_def)
next
  case (Cons n ns)
  have "lookup m (snd (alloc n s)) = Some k"
    using Cons.prems by (cases "alloc n s") (auto intro: alloc_stable)
  then show ?case
    using Cons.IH by (simp add: alloc_all_def)
qed

lemma alloc_again:
  assumes "alloc n s = (k, s')"
  shows "alloc n (alloc_all alloc ns s') = (k, alloc_all alloc ns s')"
  using assms by (intro alloc_known alloc_all_stable alloc_lookup)

lemma alloc_distinct:
  assumes "inv s" and "room s" and "alloc n s = (k, s')" and "lookup n' s = Some k'" and "n' \<noteq> n"
  shows "k' \<noteq> k"
  using assms alloc_inv alloc_lookup alloc_stable lookup_inject by metis

end

section \<open>The abstract table: names in order of registration\<close>

fun position :: "'a list \<Rightarrow> 'a \<Rightarrow> nat option" where
  "position [] x = None"
| "position (y # ys) x = (if x = y then Some 0 else map_option Suc (position ys x))"

definition register :: "'a list \<Rightarrow> 'a \<Rightarrow> 'a list" where
  "register ns n = (if n \<in> set ns then ns else ns @ [n])"

definition abstract_key :: "string list \<Rightarrow> string \<Rightarrow> u64 option" where
  "abstract_key ns n = map_option (\<lambda>i. word_of_nat (Suc i)) (position ns n)"

definition names_of :: "TopicMap \<Rightarrow> string list \<Rightarrow> bool" where
  "names_of tm ns \<longleftrightarrow>
     distinct ns \<and> length ns < 2 ^ 64 \<and>
     (\<forall>n. m_map tm n = abstract_key ns n) \<and>
     m_next_key tm = word_of_nat (Suc (length ns))"

lemma position_None [simp]: "position ns n = None \<longleftrightarrow> n \<notin> set ns"
  by (induction ns) auto

lemma position_Some: "position ns n = Some i \<Longrightarrow> i < length ns \<and> ns ! i = n"
  by (induction ns arbitrary: i) (auto split: if_splits)

lemma position_snoc: "n \<notin> set ns \<Longrightarrow> position (ns @ [n]) m = (if m = n then Some (length ns) else position ns m)"
  by (induction ns) (auto split: option.split)

lemma position_inject: "\<lbrakk>position ns n = Some i; position ns m = Some i\<rbrakk> \<Longrightarrow> n = m"
  using position_Some by metis

lemma position_nth: "\<lbrakk>distinct ns; i < length ns\<rbrakk> \<Longrightarrow> position ns (ns ! i) = Some i"
  by (metis nth_eq_iff_index_eq nth_mem option.exhaust position_None position_Some)

lemma word_of_nat_Suc_inject:
  assumes "i < 2 ^ 64 - 1" and "j < 2 ^ 64 - 1"
  shows "(word_of_nat (Suc i) :: u64) = word_of_nat (Suc j) \<longleftrightarrow> i = j"
  using assms by (simp add: word_of_nat_eq_iff take_bit_nat_eq_self del: of_nat_Suc)

lemma word_of_nat_Suc_nonzero:
  assumes "i < 2 ^ 64 - 1"
  shows "(word_of_nat (Suc i) :: u64) \<noteq> 0"
  using assms by (auto simp: word_of_nat_eq_0_iff simp del: of_nat_Suc dest!: dvd_imp_le)

lemma names_of_ctor: "names_of TopicMap_ctor []"
  by (simp add: names_of_def TopicMap_ctor_def abstract_key_def fun_eq_iff)

lemma names_of_room:
  assumes "names_of tm ns"
  shows "m_next_key tm \<noteq> 0 \<longleftrightarrow> length ns < 2 ^ 64 - 1"
proof (cases "length ns < 2 ^ 64 - 1")
  case True
  with assms show ?thesis
    using word_of_nat_Suc_nonzero [of "length ns"] by (simp add: names_of_def)
next
  case False
  with assms have "Suc (length ns) = 2 ^ 64" by (auto simp: names_of_def)
  with assms have "m_next_key tm = word_of_nat (2 ^ 64)" by (simp only: names_of_def)
  with False show ?thesis by simp
qed

lemma names_of_inject:
  assumes "names_of tm ns" and "m_map tm n = Some k" and "m_map tm n' = Some k"
  shows "n = n'"
proof -
  from assms obtain i j where i: "position ns n = Some i" "k = word_of_nat (Suc i)"
    and j: "position ns n' = Some j" "k = word_of_nat (Suc j)"
    by (auto simp: names_of_def abstract_key_def)
  from i j assms(1) have "i < 2 ^ 64 - 1" "j < 2 ^ 64 - 1"
    by (auto simp: names_of_def dest!: position_Some)
  with i j have "i = j" by (simp add: word_of_nat_Suc_inject del: of_nat_Suc)
  with i j show ?thesis by (auto intro: position_inject)
qed

lemma names_of_nonzero:
  assumes "names_of tm ns" and "m_map tm n = Some k"
  shows "k \<noteq> 0"
proof -
  from assms obtain i where "position ns n = Some i" "k = word_of_nat (Suc i)"
    by (auto simp: names_of_def abstract_key_def)
  with assms(1) show ?thesis
    using word_of_nat_Suc_nonzero [of i] by (auto simp: names_of_def dest!: position_Some)
qed

lemma get_or_create_known: "m_map tm n = Some k \<Longrightarrow> get_or_create n tm = (k, tm)"
  by (simp add: get_or_create_def)

lemma get_or_create_new:
  "m_map tm n = None \<Longrightarrow>
   get_or_create n tm =
     (m_next_key tm, tm\<lparr>m_next_key := m_next_key tm + 1, m_map := (m_map tm)(n \<mapsto> m_next_key tm)\<rparr>)"
  by (simp add: get_or_create_def generate_key_def)

lemma names_of_known: "names_of tm ns \<Longrightarrow> m_map tm n = None \<longleftrightarrow> n \<notin> set ns"
  by (simp add: names_of_def abstract_key_def)

lemma names_of_get_or_create:
  assumes tm: "names_of tm ns" and room: "n \<in> set ns \<or> m_next_key tm \<noteq> 0"
    and step: "get_or_create n tm = (k, tm')"
  shows "names_of tm' (register ns n) \<and> abstract_key (register ns n) n = Some k"
proof (cases "n \<in> set ns")
  case True
  with tm obtain k' where k': "m_map tm n = Some k'"
    by (meson names_of_known not_None_eq)
  with tm step True show ?thesis
    by (simp add: get_or_create_known register_def names_of_def)
next
  case False
  with tm have new: "m_map tm n = None" by (simp add: names_of_known)
  from False room have "length ns < 2 ^ 64 - 1" using names_of_room [OF tm] by simp
  with tm step new False show ?thesis
    by (auto simp: get_or_create_new register_def names_of_def abstract_key_def position_snoc)
qed

interpretation topics: key_allocator get_or_create get "\<lambda>tm. m_next_key tm \<noteq> 0" "\<lambda>tm. \<exists>ns. names_of tm ns"
proof
  fix n :: string and tm k tm'
  assume "get_or_create n tm = (k, tm')"
  then show "get n tm' = Some k"
    by (cases "m_map tm n") (auto simp: get_def get_or_create_known get_or_create_new)
next
  fix n n' :: string and tm k tm'
  assume "get_or_create n tm = (k, tm')" and "n' \<noteq> n"
  then show "get n' tm' = get n' tm"
    by (cases "m_map tm n") (auto simp: get_def get_or_create_known get_or_create_new)
next
  fix n :: string and tm k
  assume "get n tm = Some k"
  then show "get_or_create n tm = (k, tm)"
    by (simp add: get_def get_or_create_known)
next
  fix n :: string and tm k tm'
  assume "\<exists>ns. names_of tm ns" and "m_next_key tm \<noteq> 0" and "get_or_create n tm = (k, tm')"
  then show "\<exists>ns. names_of tm' ns"
    using names_of_get_or_create by blast
next
  fix n n' :: string and tm k
  assume "\<exists>ns. names_of tm ns" and "get n tm = Some k" and "get n' tm = Some k"
  then show "n = n'"
    using names_of_inject by (auto simp: get_def)
qed

section \<open>Properties\<close>

text \<open>C26: \<^verbatim>\<open>get_or_create\<close> refines the abstract table: it registers the topic if it is new, and the
  key it returns is the topic's position among the registered names, counted from 1. The only
  hypothesis besides the abstraction is that the counter has not wrapped when a new topic
  arrives.\<close>

theorem get_or_create_refines:
  assumes "names_of tm ns" and "n \<in> set ns \<or> m_next_key tm \<noteq> 0"
  shows "names_of (snd (get_or_create n tm)) (register ns n) \<and>
    abstract_key (register ns n) n = Some (fst (get_or_create n tm))"
  using names_of_get_or_create [OF assms] by (cases "get_or_create n tm") auto

theorem get_or_create_refines_witness:
  "names_of (snd (get_or_create ''a'' TopicMap_ctor)) [''a''] \<and>
   fst (get_or_create ''a'' TopicMap_ctor) = 1"
proof -
  have room: "''a'' \<in> set [] \<or> m_next_key TopicMap_ctor \<noteq> 0"
    by (simp add: TopicMap_ctor_def)
  show ?thesis
    using get_or_create_refines [OF names_of_ctor room] by (simp add: register_def abstract_key_def)
qed

text \<open>A topic keeps its key for the life of the table: once \<^verbatim>\<open>get_or_create\<close> has returned a key,
  any later sequence of requests leaves it in place, and asking again returns the same key and
  changes nothing. This holds even after the counter has wrapped.\<close>

lemma topic_key_stable:
  assumes "get_or_create n tm = (k, tm')"
  shows "get n (alloc_all get_or_create ns tm') = Some k \<and>
    get_or_create n (alloc_all get_or_create ns tm') = (k, alloc_all get_or_create ns tm')"
  using topics.alloc_all_stable [OF topics.alloc_lookup [OF assms]] topics.alloc_again [OF assms]
  by simp

text \<open>No two topics share a key and no topic has key 0, in every table that has not handed out
  all \<open>2 ^ 64 - 1\<close> nonzero keys; a new topic never gets a key that is already in use.\<close>

lemma topic_keys_unique:
  assumes "names_of tm ns" and "m_next_key tm \<noteq> 0"
    and "get_or_create n tm = (k, tm')"
  shows "k \<noteq> 0 \<and> inj_on (m_map tm') (dom (m_map tm')) \<and> (\<forall>n'. n' \<noteq> n \<longrightarrow> get n' tm' \<noteq> Some k)"
proof -
  from assms have tm': "names_of tm' (register ns n)" and look: "get n tm' = Some k"
    using names_of_get_or_create topics.alloc_lookup by blast+
  have "inj_on (m_map tm') (dom (m_map tm'))"
    by (rule inj_onI) (auto intro: names_of_inject [OF tm'])
  then show ?thesis
    using tm' look names_of_nonzero names_of_inject by (fastforce simp: get_def)
qed

end
