(* ===== verification/Logging.thy ===== *)
theory Logging
  imports Cpp_Strings
begin

text \<open>
  Logging of the server: \<^verbatim>\<open>include/spraybus/server/logging.hpp\<close>, \<^verbatim>\<open>src/spraybus/server/logging.cpp\<close>
  and the log statements of \<^verbatim>\<open>src/spraybus/server/server.cpp\<close>. Quill itself is a third-party library:
  the calls made of it are recorded in a list, and the loggers it returns are an argument, a function
  of the calls made so far; \<open>gets_existing\<close> names what its documentation says of
  \<^verbatim>\<open>create_or_get_logger\<close>. A log statement is an entry of the server's log with the values of its
  arguments; \<open>log_text\<close> is the message with the arguments filled in and \<open>log_level\<close> its severity.
\<close>

datatype sink = FileSink string | ConsoleSink string

datatype quill_call =
    Backend_start
  | Create_or_get_sink sink
  | Create_or_get_logger string sink

text \<open>\<^verbatim>\<open>using Logger = quill::Logger*\<close>: a logger is the pointer that Quill returns.\<close>

type_synonym Logger = nat

text \<open>What \<^verbatim>\<open>create_or_get_logger\<close> returns when it is the last of these calls.\<close>

type_synonym quill = "quill_call list \<Rightarrow> Logger"

text \<open>The file-scope variable \<^verbatim>\<open>logfile\<close> and the calls made of Quill.\<close>

record logging =
  logfile :: "string option"
  quill_calls :: "quill_call list"

definition logging_start :: logging where
  "logging_start = \<lparr>logfile = None, quill_calls = []\<rparr>"

definition init_logging :: "logging \<Rightarrow> logging" where
  "init_logging st = st\<lparr>quill_calls := quill_calls st @ [Backend_start]\<rparr>"

definition set_logfile :: "string \<Rightarrow> logging \<Rightarrow> logging" where
  "set_logfile filename st = st\<lparr>logfile := Some filename\<rparr>"

definition create_logger :: "quill \<Rightarrow> string \<Rightarrow> logging \<Rightarrow> Logger \<times> logging" where
  "create_logger quill name st =
     (case logfile st of
        Some f \<Rightarrow>
          (let st = st\<lparr>quill_calls := quill_calls st @ [Create_or_get_sink (FileSink f), Create_or_get_logger name (FileSink f)]\<rparr>
           in (quill (quill_calls st), st))
      | None \<Rightarrow>
          (let st = st\<lparr>quill_calls := quill_calls st @
                 [Create_or_get_sink (ConsoleSink ''default''), Create_or_get_logger name (ConsoleSink ''default'')]\<rparr>
           in (quill (quill_calls st), st)))"

record ClassLogger =
  m_logger :: Logger

definition ClassLogger_ctor :: "quill \<Rightarrow> string \<Rightarrow> logging \<Rightarrow> ClassLogger \<times> logging" where
  "ClassLogger_ctor quill name st =
     (let (l, st) = create_logger quill name st in (\<lparr>m_logger = l\<rparr>, st))"

definition ClassLogger_logger :: "ClassLogger \<Rightarrow> Logger" where
  "ClassLogger_logger this = m_logger this"

text \<open>
  The documented behaviour of \<^verbatim>\<open>create_or_get_logger\<close>: a name that has a logger gets that logger back,
  whatever sink is asked for. \<open>first_request\<close> is a Quill that behaves so: it numbers a logger by the
  first request for its name.
\<close>

definition gets_existing :: "quill \<Rightarrow> bool" where
  "gets_existing quill \<longleftrightarrow>
     (\<forall>cs cs' name s s'.
        quill (cs @ [Create_or_get_logger name s] @ cs' @ [Create_or_get_logger name s']) =
        quill (cs @ [Create_or_get_logger name s]))"

fun requests :: "string \<Rightarrow> quill_call \<Rightarrow> bool" where
  "requests name (Create_or_get_logger name' s) = (name = name')"
| "requests name _ = False"

definition first_request :: quill where
  "first_request cs =
     (case last cs of
        Create_or_get_logger name s \<Rightarrow> length (takeWhile (\<lambda>c. \<not> requests name c) cs)
      | _ \<Rightarrow> 0)"

datatype level = Debug | Info | Warning

datatype log_entry =
    Server_started int
  | Server_shutting_down
  | Client_connected u64
  | Client_disconnected u64
  | Ignoring_malformed u64 nat nat
  | Received_message u64 string
  | Registered_topic string u64
  | Subscribed u64 u64
  | Unsubscribed u64 u64
  | Forwarded u64 u64 u64
  | Unhandled_type string

fun log_level :: "log_entry \<Rightarrow> level" where
  "log_level (Ignoring_malformed _ _ _) = Warning"
| "log_level (Unhandled_type _) = Warning"
| "log_level (Received_message _ _) = Debug"
| "log_level (Forwarded _ _ _) = Debug"
| "log_level _ = Info"

fun log_text :: "log_entry \<Rightarrow> string" where
  "log_text (Server_started port) = ''Server started on port '' @ to_string_int port"
| "log_text Server_shutting_down = ''Server shutting down''"
| "log_text (Client_connected i) = ''Client '' @ to_string_u64 i @ '' connected''"
| "log_text (Client_disconnected i) = ''Client '' @ to_string_u64 i @ '' disconnected''"
| "log_text (Ignoring_malformed i n got) =
     ''Ignoring malformed packet from client '' @ to_string_u64 i @ '': expected at least '' @
     show_nat n @ '' bytes, got '' @ show_nat got"
| "log_text (Received_message i m) = ''Received message from client '' @ to_string_u64 i @ '': '' @ m"
| "log_text (Registered_topic n k) = ''Registered topic '' @ [CHR 0x27] @ n @ [CHR 0x27] @ '' with key '' @ to_string_u64 k"
| "log_text (Subscribed i k) = ''Client '' @ to_string_u64 i @ '' subscribed to topic key '' @ to_string_u64 k"
| "log_text (Unsubscribed i k) = ''Client '' @ to_string_u64 i @ '' unsubscribed from topic key '' @ to_string_u64 k"
| "log_text (Forwarded i j k) =
     ''Forwarded message from client '' @ to_string_u64 i @ '' to client '' @ to_string_u64 j @
     '' for topic key '' @ to_string_u64 k"
| "log_text (Unhandled_type t) = ''Unhandled message type: '' @ t"

section \<open>Where a logger writes\<close>

lemma first_request_gets_existing: "gets_existing first_request"
proof -
  have "length (takeWhile (\<lambda>c. \<not> requests name c) (cs @ Create_or_get_logger name s # xs)) =
      length (takeWhile (\<lambda>c. \<not> requests name c) (cs @ [Create_or_get_logger name s]))" for cs xs name s
    by (induction cs) auto
  then show ?thesis by (simp add: gets_existing_def first_request_def)
qed

lemma create_logger_calls:
  "quill_calls (snd (create_logger quill name st)) =
     quill_calls st @
     (let s = (case logfile st of Some f \<Rightarrow> FileSink f | None \<Rightarrow> ConsoleSink ''default'')
      in [Create_or_get_sink s, Create_or_get_logger name s])"
  "fst (create_logger quill name st) = quill (quill_calls (snd (create_logger quill name st)))"
  "logfile (snd (create_logger quill name st)) = logfile st"
  by (simp_all add: create_logger_def Let_def split: option.split)

lemma set_logfile_simps [simp]:
  "logfile (set_logfile f st) = Some f" "quill_calls (set_logfile f st) = quill_calls st"
  by (simp_all add: set_logfile_def)

text \<open>A log file must be set before a logger is first created: a class logger that is made under a name that already
  has a logger gets that same logger, although the file sink was opened for it, so its messages keep
  going where they went before.\<close>

lemma set_logfile_too_late:
  assumes "gets_existing quill" and "create_logger quill name st = (l, st1)"
    and "ClassLogger_ctor quill name (set_logfile f st1) = (c, st2)"
  shows "ClassLogger_logger c = l \<and> logfile st2 = Some f \<and>
    quill_calls st2 = quill_calls st1 @ [Create_or_get_sink (FileSink f), Create_or_get_logger name (FileSink f)]"
proof -
  obtain cs s where st1: "quill_calls st1 = cs @ [Create_or_get_logger name s]"
    using create_logger_calls(1) [of quill name st] assms(2) by (simp add: Let_def split: option.splits)
  have "l = quill (quill_calls st1)"
    using create_logger_calls(2) [of quill name st] assms(2) by simp
  moreover have c: "ClassLogger_logger c = fst (create_logger quill name (set_logfile f st1))"
    "st2 = snd (create_logger quill name (set_logfile f st1))"
    using assms(3) by (auto simp: ClassLogger_ctor_def ClassLogger_logger_def split: prod.splits)
  moreover have "quill (cs @ [Create_or_get_logger name s] @ [Create_or_get_sink (FileSink f)] @
      [Create_or_get_logger name (FileSink f)]) = quill (cs @ [Create_or_get_logger name s])"
    using assms(1) unfolding gets_existing_def by blast
  ultimately show ?thesis
    using st1 create_logger_calls [of quill name "set_logfile f st1"] by (simp add: Let_def)
qed

end
