(* ===== verification/Bus_Server.thy ===== *)
theory Bus_Server
  imports Net_Server Protocol Topic_Map Logging
begin

text \<open>
  The pub/sub server: \<^verbatim>\<open>include/spraybus/server/server.hpp\<close> and \<^verbatim>\<open>src/spraybus/server/server.cpp\<close>.
  Its state extends the networking base with the topic table, the packet builder and the log; its
  callbacks are interpreted as a \<open>derived_server\<close>, which gives memory safety of the event loop.

  The abstract specification is a broker that knows the topic names in order of registration and,
  per connected peer in order of connection, the set of subscribed keys. Each event of the server is
  one step of the broker, and the packets the server sends are the broker's replies in wire format.
  Arguments of a log statement are taken to be evaluated at every level, so a statement that
  dereferences a pointer counts as a use of it.
\<close>

section \<open>Model\<close>

record ClientData =
  subscribed_topics :: "u64 set"

definition ClientData_ctor :: ClientData where
  "ClientData_ctor = \<lparr>subscribed_topics = {}\<rparr>"

record bus_server = "ClientData net_server" +
  m_topic_map :: TopicMap
  m_protocol_constructor :: Constructor
  class_logger :: ClassLogger           \<comment> \<open>the base class \<^verbatim>\<open>ClassLogger\<close>\<close>
  m_log :: "log_entry list"             \<comment> \<open>the statements passed to \<^verbatim>\<open>logger()\<close>\<close>

definition log :: "log_entry \<Rightarrow> bus_server \<Rightarrow> bus_server" where
  "log entry s = s\<lparr>m_log := m_log s @ [entry]\<rparr>"

definition bus_server_ctor ::
    "quill \<Rightarrow> int \<Rightarrow> ENetHost option \<Rightarrow> logging \<Rightarrow> (cpp_error + bus_server) \<times> logging" where
  "bus_server_ctor quill port host lg =
     (case Server_ctor port host of
        Inl err \<Rightarrow> (Inl err, lg)
      | Inr base \<Rightarrow>
          (let (cl, lg) = ClassLogger_ctor quill ''server'' lg
           in (Inr (net_server.extend base
                \<lparr>m_topic_map = TopicMap_ctor, m_protocol_constructor = Constructor_ctor,
                 class_logger = cl, m_log = [Server_started port]\<rparr>), lg)))"

definition bus_server_dtor :: "bus_server \<Rightarrow> bus_server" where
  "bus_server_dtor s = Server_dtor (log Server_shutting_down s)"

definition bus_on_process :: "bus_server \<Rightarrow> (cpp_error + unit) \<times> bus_server" where
  "bus_on_process s = (Inr (), s)"

definition bus_on_connect :: "client_ptr \<Rightarrow> bus_server \<Rightarrow> (cpp_error + unit) \<times> bus_server" where
  "bus_on_connect client s =
     (case deref s client of
        None \<Rightarrow> (Inl Undefined_behaviour, s)
      | Some c \<Rightarrow> (Inr (), log (Client_connected (cl_id c)) s))"

definition bus_on_disconnect :: "client_ptr \<Rightarrow> bus_server \<Rightarrow> (cpp_error + unit) \<times> bus_server" where
  "bus_on_disconnect client s =
     (case deref s client of
        None \<Rightarrow> (Inl Undefined_behaviour, s)
      | Some c \<Rightarrow> (Inr (), log (Client_disconnected (cl_id c)) s))"

text \<open>The branches of \<^verbatim>\<open>Server::on_message\<close>. Each starts after the message was parsed and logged.\<close>

definition on_topic_request ::
    "endian \<Rightarrow> client_ptr \<Rightarrow> Message \<Rightarrow> bus_server \<Rightarrow> (cpp_error + unit) \<times> bus_server" where
  "on_topic_request e client msg s =
     (let topic_name = payload_as_string msg;
          (topic_key, topics) = get_or_create topic_name (m_topic_map s);
          s = s\<lparr>m_topic_map := topics\<rparr>;
          (response_payload, builder) =
            construct_topic_response e (m_protocol_constructor s) topic_key topic_name Origin_server;
          s = s\<lparr>m_protocol_constructor := builder\<rparr>
      in case Client_send client response_payload s of
           (Inl err, s) \<Rightarrow> (Inl err, s)
         | (Inr _, s) \<Rightarrow> (Inr (), log (Registered_topic topic_name topic_key) s))"

definition on_subscribe ::
    "endian \<Rightarrow> client_ptr \<Rightarrow> Message \<Rightarrow> bus_server \<Rightarrow> (cpp_error + unit) \<times> bus_server" where
  "on_subscribe e client msg s =
     (let topic_key = Header_topic_key e (Message_header msg)
      in case update_data client (\<lambda>d. d\<lparr>subscribed_topics := insert topic_key (subscribed_topics d)\<rparr>) s of
           (Inl err, s) \<Rightarrow> (Inl err, s)
         | (Inr _, s) \<Rightarrow>
             (case deref s client of
                None \<Rightarrow> (Inl Undefined_behaviour, s)
              | Some c \<Rightarrow> (Inr (), log (Subscribed (cl_id c) topic_key) s)))"

definition on_unsubscribe ::
    "endian \<Rightarrow> client_ptr \<Rightarrow> Message \<Rightarrow> bus_server \<Rightarrow> (cpp_error + unit) \<times> bus_server" where
  "on_unsubscribe e client msg s =
     (let topic_key = Header_topic_key e (Message_header msg)
      in case update_data client (\<lambda>d. d\<lparr>subscribed_topics := subscribed_topics d - {topic_key}\<rparr>) s of
           (Inl err, s) \<Rightarrow> (Inl err, s)
         | (Inr _, s) \<Rightarrow>
             (case deref s client of
                None \<Rightarrow> (Inl Undefined_behaviour, s)
              | Some c \<Rightarrow> (Inr (), log (Unsubscribed (cl_id c) topic_key) s)))"

text \<open>The loop over \<^verbatim>\<open>clients()\<close> in the publish branch.\<close>

fun fanout_loop ::
    "client_ptr \<Rightarrow> u64 \<Rightarrow> bytes \<Rightarrow> client_ptr list \<Rightarrow> bus_server \<Rightarrow> (cpp_error + unit) \<times> bus_server" where
  "fanout_loop client topic_key fanout_payload [] s = (Inr (), s)"
| "fanout_loop client topic_key fanout_payload (other # others) s =
     (case (deref s other, deref s client) of
        (Some oc, Some c) \<Rightarrow>
          (if cl_id oc \<noteq> cl_id c \<and> topic_key \<in> subscribed_topics (cl_data oc) then
             (case Client_send other fanout_payload s of
                (Inl err, s) \<Rightarrow> (Inl err, s)
              | (Inr _, s) \<Rightarrow>
                  fanout_loop client topic_key fanout_payload others
                    (log (Forwarded (cl_id c) (cl_id oc) topic_key) s))
           else fanout_loop client topic_key fanout_payload others s)
      | _ \<Rightarrow> (Inl Undefined_behaviour, s))"

definition on_publish ::
    "endian \<Rightarrow> client_ptr \<Rightarrow> Message \<Rightarrow> bus_server \<Rightarrow> (cpp_error + unit) \<times> bus_server" where
  "on_publish e client msg s =
     (let topic_key = Header_topic_key e (Message_header msg);
          payload = Message_payload msg;
          (fanout_payload, builder) =
            construct_fanout e (m_protocol_constructor s) topic_key payload Origin_server;
          s = s\<lparr>m_protocol_constructor := builder\<rparr>
      in fanout_loop client topic_key fanout_payload (clients s) s)"

definition bus_on_message ::
    "endian \<Rightarrow> client_ptr \<Rightarrow> bytes \<Rightarrow> bus_server \<Rightarrow> (cpp_error + unit) \<times> bus_server" where
  "bus_on_message e client message s =
     (if length message < sizeof_Header then
        (case deref s client of
           None \<Rightarrow> (Inl Undefined_behaviour, s)
         | Some c \<Rightarrow> (Inr (), log (Ignoring_malformed (cl_id c) sizeof_Header (length message)) s))
      else
        (case Message_ctor e message of
           Inl err \<Rightarrow> (Inl err, s)
         | Inr msg \<Rightarrow>
             (case deref s client of
                None \<Rightarrow> (Inl Undefined_behaviour, s)
              | Some c \<Rightarrow>
                  (let s = log (Received_message (cl_id c) (Message_to_string e msg)) s;
                       t = Header_type (Message_header msg)
                   in if t = Type_topic_request then on_topic_request e client msg s
                      else if t = Type_subscribe then on_subscribe e client msg s
                      else if t = Type_unsubscribe then on_unsubscribe e client msg s
                      else if t = Type_publish then on_publish e client msg s
                      else (Inr (), log (Unhandled_type (to_string_Type t)) s)))))"

definition bus_callbacks :: "endian \<Rightarrow> bus_server derived" where
  "bus_callbacks e =
     \<lparr>on_process = bus_on_process, on_connect = bus_on_connect,
      on_disconnect = bus_on_disconnect, on_message = bus_on_message e\<rparr>"

text \<open>\<^verbatim>\<open>Server::process\<close> of the concrete server, and one turn of its loop.\<close>

definition bus_process :: "endian \<Rightarrow> ENetEvent list \<Rightarrow> bus_server \<Rightarrow> (cpp_error + unit) \<times> bus_server" where
  "bus_process e events s = process (bus_callbacks e) ClientData_ctor events s"

abbreviation bus_step :: "endian \<Rightarrow> ENetEvent \<Rightarrow> bus_server \<Rightarrow> (cpp_error + unit) \<times> bus_server" where
  "bus_step e \<equiv> loop_step (bus_callbacks e) ClientData_ctor"

section \<open>The callbacks as a derived server\<close>

lemmas branch_defs = on_topic_request_def on_subscribe_def on_unsubscribe_def on_publish_def

lemma log_simps [simp]:
  "same_registry (log x s) s' = same_registry s s'" "same_registry s (log x s') = same_registry s s'"
  "deref (log x s) p = deref s p"
  "net_inv (log x s) = net_inv s"
  "m_client_map (log x s) = m_client_map s" "m_clients (log x s) = m_clients s"
  "m_server (log x s) = m_server s" "peer_data (log x s) = peer_data s"
  "m_next_client_id (log x s) = m_next_client_id s"
  "enet_calls (log x s) = enet_calls s" "m_topic_map (log x s) = m_topic_map s"
  "m_protocol_constructor (log x s) = m_protocol_constructor s"
  by (simp_all add: log_def same_registry_def deref_def net_inv_def split: option.split)

lemma issue_simps [simp]:
  "deref (issue cs s) p = deref s p"
  "m_client_map (issue cs s) = m_client_map s" "m_clients (issue cs s) = m_clients s"
  "m_server (issue cs s) = m_server s" "peer_data (issue cs s) = peer_data s"
  "m_next_client_id (issue cs s) = m_next_client_id s"
  "enet_calls (issue cs s) = enet_calls s @ cs"
  by (simp_all add: issue_def deref_def split: option.split)

lemma issue_bus_simps [simp]:
  fixes s :: bus_server
  shows "m_topic_map (issue cs s) = m_topic_map s"
    "m_protocol_constructor (issue cs s) = m_protocol_constructor s" "m_log (issue cs s) = m_log s"
  by (simp_all add: issue_def)

lemma same_registry_derived [simp]:
  fixes s s' :: bus_server
  shows "same_registry (s\<lparr>m_topic_map := tm\<rparr>) s' = same_registry s s'"
    "same_registry (s\<lparr>m_protocol_constructor := c\<rparr>) s' = same_registry s s'"
    "same_registry s (s'\<lparr>m_topic_map := tm\<rparr>) = same_registry s s'"
    "same_registry s (s'\<lparr>m_protocol_constructor := c\<rparr>) = same_registry s s'"
  by (simp_all add: same_registry_def)

lemma fanout_loop_registry: "fanout_loop p k b ps s = (r, s') \<Longrightarrow> same_registry s s'"
proof (induction ps arbitrary: s)
  case Nil
  then show ?case by simp
next
  case (Cons q qs)
  then show ?case
    by (fastforce simp: Client_send_def split: option.splits if_splits)
qed

lemma fanout_loop_defined:
  "\<lbrakk>deref s p \<noteq> None; \<And>q. q \<in> set ps \<Longrightarrow> deref s q \<noteq> None\<rbrakk> \<Longrightarrow> fst (fanout_loop p k b ps s) = Inr ()"
proof (induction ps arbitrary: s)
  case Nil
  then show ?case by simp
next
  case (Cons q qs)
  then obtain oc c where "deref s q = Some oc" "deref s p = Some c"
    by (meson list.set_intros(1) not_None_eq)
  with Cons show ?case
    by (simp add: Client_send_live)
qed

lemma bus_on_message_registry: "bus_on_message e p b s = (r, s') \<Longrightarrow> same_registry s s'"
  by (auto simp: bus_on_message_def branch_defs Let_def Client_send_def same_registry_refl
      split: option.splits if_splits sum.splits prod.splits
      dest!: fanout_loop_registry update_data_registry)

lemma bus_on_message_returns:
  assumes "net_inv s" and "deref s p \<noteq> None"
  shows "fst (bus_on_message e p b s) = Inr ()"
proof -
  obtain k c where p: "p = Some k" "m_client_map s k = Some c" and d: "deref s p = Some c"
    using assms(2) by (auto simp: deref_def split: option.splits)
  have "fst (fanout_loop p key bs (m_clients s') s') = Inr ()"
    if "\<And>q. deref s' q = deref s q" "m_clients s' = m_clients s" for s' key bs
    using that assms(1) d by (intro fanout_loop_defined) (auto simp: deref_live)
  note loop = this
  show ?thesis
  proof (cases "length b < sizeof_Header")
    case True
    with d show ?thesis by (simp add: bus_on_message_def)
  next
    case False
    with d p loop show ?thesis
      by (auto simp: bus_on_message_def branch_defs Message_ctor_long Let_def Client_send_def update_data_def
          clients_def deref_def split: prod.split option.split)
  qed
qed

interpretation bus: derived_server "bus_callbacks e" ClientData_ctor for e
proof
  fix p b and s s' :: bus_server and r
  show "on_process (bus_callbacks e) s = (r, s') \<Longrightarrow> same_registry s s'"
    by (simp add: bus_callbacks_def bus_on_process_def)
  show "on_connect (bus_callbacks e) p s = (r, s') \<Longrightarrow> same_registry s s'"
    by (auto simp: bus_callbacks_def bus_on_connect_def split: option.splits)
  show "on_disconnect (bus_callbacks e) p s = (r, s') \<Longrightarrow> same_registry s s'"
    by (auto simp: bus_callbacks_def bus_on_disconnect_def split: option.splits)
  show "on_message (bus_callbacks e) p b s = (r, s') \<Longrightarrow> same_registry s s'"
    by (simp add: bus_callbacks_def bus_on_message_registry)
next
  fix p b and s :: bus_server
  assume inv: "net_inv s"
  show "fst (on_process (bus_callbacks e) s) \<noteq> Inl Undefined_behaviour"
    by (simp add: bus_callbacks_def bus_on_process_def)
  assume live: "deref s p \<noteq> None"
  show "fst (on_connect (bus_callbacks e) p s) \<noteq> Inl Undefined_behaviour"
    and "fst (on_disconnect (bus_callbacks e) p s) \<noteq> Inl Undefined_behaviour"
    using live by (auto simp: bus_callbacks_def bus_on_connect_def bus_on_disconnect_def)
  show "fst (on_message (bus_callbacks e) p b s) \<noteq> Inl Undefined_behaviour"
    using bus_on_message_returns [OF inv live] by (simp add: bus_callbacks_def)
qed

section \<open>What each branch does\<close>

definition send_calls :: "('d, 'm) net_server_scheme \<Rightarrow> bytes \<Rightarrow> client_ptr \<Rightarrow> enet_call list" where
  "send_calls s b p =
     (case deref s p of
        None \<Rightarrow> []
      | Some c \<Rightarrow> [Packet_create b ENET_PACKET_FLAG_RELIABLE, Peer_send (cl_peer c) 0 b, Host_flush (cl_server c)])"

definition is_target :: "bus_server \<Rightarrow> u64 \<Rightarrow> u64 \<Rightarrow> client_ptr \<Rightarrow> bool" where
  "is_target s sender key p =
     (case deref s p of
        None \<Rightarrow> False
      | Some c \<Rightarrow> cl_id c \<noteq> sender \<and> key \<in> subscribed_topics (cl_data c))"

definition pointer_id :: "('d, 'm) net_server_scheme \<Rightarrow> client_ptr \<Rightarrow> u64" where
  "pointer_id s p = (case deref s p of None \<Rightarrow> 0 | Some c \<Rightarrow> cl_id c)"

lemma target_simps [simp]:
  "is_target (log x s) = is_target s" "is_target (issue cs s) = is_target s"
  "send_calls (log x s) = send_calls s" "send_calls (issue cs t) = send_calls t"
  "pointer_id (log x s) = pointer_id s" "pointer_id (issue cs t) = pointer_id t"
  by (simp_all add: is_target_def send_calls_def pointer_id_def fun_eq_iff)

text \<open>The fan-out loop sends to every listed client that is not the sender and is subscribed, in the
  order of the list, and changes nothing but the calls and the log.\<close>

lemma fanout_loop_result:
  assumes "deref s p = Some c" and "\<And>q. q \<in> set ps \<Longrightarrow> deref s q \<noteq> None"
  shows "fanout_loop p k b ps s =
    (Inr (), s\<lparr>enet_calls := enet_calls s @ concat (map (send_calls s b) (filter (is_target s (cl_id c) k) ps)),
       m_log := m_log s @ map (\<lambda>q. Forwarded (cl_id c) (pointer_id s q) k) (filter (is_target s (cl_id c) k) ps)\<rparr>)"
  using assms
proof (induction ps arbitrary: s)
  case Nil
  then show ?case by simp
next
  case (Cons q qs)
  then obtain oc where q: "deref s q = Some oc" by (meson list.set_intros(1) not_None_eq)
  show ?case
  proof (cases "is_target s (cl_id c) k q")
    case True
    let ?s = "log (Forwarded (cl_id c) (cl_id oc) k) (issue (send_calls s b q) s)"
    from True q Cons.prems have "fanout_loop p k b (q # qs) s = fanout_loop p k b qs ?s"
      by (simp add: is_target_def send_calls_def Client_send_live)
    also have "\<dots> = (Inr (), ?s\<lparr>enet_calls := enet_calls ?s @ concat (map (send_calls s b) (filter (is_target s (cl_id c) k) qs)),
        m_log := m_log ?s @ map (\<lambda>q. Forwarded (cl_id c) (pointer_id s q) k) (filter (is_target s (cl_id c) k) qs)\<rparr>)"
      using Cons.IH [of ?s] Cons.prems by simp
    finally show ?thesis
      using True q by (simp add: log_def issue_def pointer_id_def)
  next
    case False
    with q have "\<not> (cl_id oc \<noteq> cl_id c \<and> k \<in> subscribed_topics (cl_data oc))"
      by (simp add: is_target_def)
    with q Cons.prems have "fanout_loop p k b (q # qs) s = fanout_loop p k b qs s" by auto
    with False Cons show ?thesis by simp
  qed
qed

lemma bus_on_message_short:
  "\<lbrakk>length b < sizeof_Header; deref s p = Some c\<rbrakk> \<Longrightarrow>
   bus_on_message e p b s = (Inr (), log (Ignoring_malformed (cl_id c) sizeof_Header (length b)) s)"
  by (simp add: bus_on_message_def)

lemma bus_on_message_long:
  assumes "Message_ctor e b = Inr msg" and "deref s p = Some c"
  shows "bus_on_message e p b s =
    (let s = log (Received_message (cl_id c) (Message_to_string e msg)) s;
         t = Header_type (Message_header msg)
     in if t = Type_topic_request then on_topic_request e p msg s
        else if t = Type_subscribe then on_subscribe e p msg s
        else if t = Type_unsubscribe then on_unsubscribe e p msg s
        else if t = Type_publish then on_publish e p msg s
        else (Inr (), log (Unhandled_type (to_string_Type t)) s))"
proof -
  from assms(1) have "\<not> length b < sizeof_Header" by (simp add: Message_ctor_Inr_iff)
  with assms show ?thesis unfolding bus_on_message_def by (simp only: if_False sum.case option.case)
qed

section \<open>The abstract broker\<close>

record broker =
  b_names :: "string list"
  b_sessions :: "(ENetPeer \<times> u64 set) list"

datatype request = Resolve string | Subscribe u64 | Unsubscribe u64 | Publish u64 bytes | Ignored

datatype broker_event = Join ENetPeer | Leave ENetPeer | Request ENetPeer request | Idle

datatype reply = Key_for u64 string | Fanout_of u64 bytes

definition change_subs :: "ENetPeer \<Rightarrow> (u64 set \<Rightarrow> u64 set) \<Rightarrow> broker \<Rightarrow> broker" where
  "change_subs p f b =
     b\<lparr>b_sessions := map (\<lambda>(q, S). if q = p then (q, f S) else (q, S)) (b_sessions b)\<rparr>"

fun broker_step :: "broker_event \<Rightarrow> broker \<Rightarrow> (ENetPeer \<times> reply) list \<times> broker" where
  "broker_step (Join p) b = ([], b\<lparr>b_sessions := b_sessions b @ [(p, {})]\<rparr>)"
| "broker_step (Leave p) b = ([], b\<lparr>b_sessions := filter (\<lambda>(q, S). q \<noteq> p) (b_sessions b)\<rparr>)"
| "broker_step (Request p (Resolve n)) b =
     (let ns = register (b_names b) n
      in ([(p, Key_for (the (abstract_key ns n)) n)], b\<lparr>b_names := ns\<rparr>))"
| "broker_step (Request p (Subscribe k)) b = ([], change_subs p (insert k) b)"
| "broker_step (Request p (Unsubscribe k)) b = ([], change_subs p (\<lambda>S. S - {k}) b)"
| "broker_step (Request p (Publish k m)) b =
     (map (\<lambda>(q, S). (q, Fanout_of k m)) (filter (\<lambda>(q, S). q \<noteq> p \<and> k \<in> S) (b_sessions b)), b)"
| "broker_step (Request p Ignored) b = ([], b)"
| "broker_step Idle b = ([], b)"

text \<open>How packets and events read as broker events, and how replies go onto the wire.\<close>

definition request_of :: "endian \<Rightarrow> bytes \<Rightarrow> request" where
  "request_of e d =
     (case packet_view e d of
        Inl _ \<Rightarrow> Ignored
      | Inr (t, _, k, p) \<Rightarrow>
          if t = Type_topic_request then Resolve (string_of_bytes p)
          else if t = Type_subscribe then Subscribe k
          else if t = Type_unsubscribe then Unsubscribe k
          else if t = Type_publish then Publish k p
          else Ignored)"

fun broker_event_of :: "endian \<Rightarrow> ENetEvent \<Rightarrow> broker_event" where
  "broker_event_of e ENET_EVENT_TYPE_NONE = Idle"
| "broker_event_of e (ENET_EVENT_TYPE_CONNECT p) = Join p"
| "broker_event_of e (ENET_EVENT_TYPE_RECEIVE p packet) = Request p (request_of e (packet_data packet))"
| "broker_event_of e (ENET_EVENT_TYPE_DISCONNECT p) = Leave p"

fun reply_bytes :: "endian \<Rightarrow> reply \<Rightarrow> bytes" where
  "reply_bytes e (Key_for k n) = fst (construct_topic_response e Constructor_ctor k n Origin_server)"
| "reply_bytes e (Fanout_of k m) = fst (construct_fanout e Constructor_ctor k m Origin_server)"

definition on_wire :: "endian \<Rightarrow> (ENetPeer \<times> reply) list \<Rightarrow> (ENetPeer \<times> bytes) list" where
  "on_wire e rs = map (map_prod id (reply_bytes e)) rs"

definition session :: "bus_server \<Rightarrow> client_ptr \<Rightarrow> (ENetPeer \<times> u64 set) option" where
  "session s p = map_option (\<lambda>c. (cl_peer c, subscribed_topics (cl_data c))) (deref s p)"

definition sessions :: "bus_server \<Rightarrow> (ENetPeer \<times> u64 set) list" where
  "sessions s = List.map_filter (session s) (m_clients s)"

definition bus_abs :: "bus_server \<Rightarrow> broker \<Rightarrow> bool" where
  "bus_abs s b \<longleftrightarrow> net_inv s \<and> names_of (m_topic_map s) (b_names b) \<and> b_sessions b = sessions s"

section \<open>The server refines the broker\<close>

lemma sessions_eq:
  "net_inv s \<Longrightarrow> sessions s = map (\<lambda>p. the (session s p)) (m_clients s)"
  using map_filter_total [of "m_clients s" "session s"] deref_live [of s]
  by (simp add: sessions_def session_def o_def)

lemma session_simps [simp]:
  "session (log x s) = session s" "session (issue cs s) = session s"
  "session (s\<lparr>m_topic_map := tm\<rparr>) = session s" "session (s\<lparr>m_protocol_constructor := c\<rparr>) = session s"
  "session (s\<lparr>m_log := l\<rparr>) = session s" "session (s\<lparr>enet_calls := cs\<rparr>) = session s"
  "session (s\<lparr>m_next_client_id := n\<rparr>) = session s" "session (s\<lparr>peer_data := d\<rparr>) = session s"
  "session (s\<lparr>m_clients := ps\<rparr>) = session s"
  by (simp_all add: session_def fun_eq_iff) (simp_all add: deref_def split: option.split)

lemma sessions_simps [simp]:
  "sessions (log x s) = sessions s" "sessions (issue cs s) = sessions s"
  "sessions (s\<lparr>m_topic_map := tm\<rparr>) = sessions s" "sessions (s\<lparr>m_protocol_constructor := c\<rparr>) = sessions s"
  "sessions (s\<lparr>m_log := l\<rparr>) = sessions s" "sessions (s\<lparr>enet_calls := cs\<rparr>) = sessions s"
  "sessions (s\<lparr>m_next_client_id := n\<rparr>) = sessions s" "sessions (s\<lparr>peer_data := d\<rparr>) = sessions s"
  by (simp_all add: sessions_def)

lemma net_inv_derived [simp]:
  "net_inv (s\<lparr>m_topic_map := tm\<rparr>) = net_inv s" "net_inv (s\<lparr>m_protocol_constructor := c\<rparr>) = net_inv s"
  "net_inv (s\<lparr>m_log := l\<rparr>) = net_inv s" "net_inv (s\<lparr>enet_calls := cs\<rparr>) = net_inv s"
  by (simp_all add: net_inv_def)

lemma deref_derived [simp]:
  "deref (s\<lparr>m_topic_map := tm\<rparr>) p = deref s p" "deref (s\<lparr>m_protocol_constructor := c\<rparr>) p = deref s p"
  "deref (s\<lparr>m_log := l\<rparr>) p = deref s p" "deref (s\<lparr>enet_calls := cs\<rparr>) p = deref s p"
  by (simp_all add: deref_def split: option.split)

lemma deref_peer_inject:
  assumes "net_inv s" and "deref s p = Some c" and "deref s q = Some c'"
  shows "cl_id c' = cl_id c \<longleftrightarrow> cl_peer c' = cl_peer c"
  using assms unfolding net_inv_def deref_def
  by (auto split: option.splits) (metis option.inject)+

text \<open>The packets of a fan-out are the broker's replies to a publish request.\<close>

lemma fanout_sends:
  assumes inv: "net_inv s" and c: "deref s p = Some c"
    and b: "b = reply_bytes e (Fanout_of k m)"
  shows "sends (concat (map (send_calls s b) (filter (is_target s (cl_id c) k) (m_clients s)))) =
    on_wire e (map (\<lambda>(q, S). (q, Fanout_of k m))
      (filter (\<lambda>(q, S). q \<noteq> cl_peer c \<and> k \<in> S) (sessions s)))"
proof -
  have "sends (concat (map (send_calls s b) (filter (is_target s (cl_id c) k) ps))) =
    on_wire e (map (\<lambda>(q, S). (q, Fanout_of k m))
      (filter (\<lambda>(q, S). q \<noteq> cl_peer c \<and> k \<in> S) (map (\<lambda>p. the (session s p)) ps)))"
    if "set ps \<subseteq> set (m_clients s)" for ps
    using that
  proof (induction ps)
    case Nil
    then show ?case by (simp add: on_wire_def)
  next
    case (Cons q qs)
    then obtain oc where oc: "deref s q = Some oc"
      using deref_live [OF inv] by fastforce
    have "is_target s (cl_id c) k q \<longleftrightarrow> cl_peer oc \<noteq> cl_peer c \<and> k \<in> subscribed_topics (cl_data oc)"
      using deref_peer_inject [OF inv c oc] oc by (simp add: is_target_def)
    with Cons oc show ?case
      by (simp add: send_calls_def session_def on_wire_def b del: reply_bytes.simps)
  qed
  then show ?thesis by (simp add: sessions_eq [OF inv])
qed

text \<open>Changing the data of one client changes exactly its session.\<close>

lemma update_data_abs:
  assumes inv: "net_inv s" and c: "deref s p = Some c"
    and run: "update_data p (\<lambda>d. d\<lparr>subscribed_topics := f (subscribed_topics d)\<rparr>) s = (r, s')"
  shows "r = Inr ()" and "net_inv s'"
    and "sessions s' = map (\<lambda>(q, S). if q = cl_peer c then (q, f S) else (q, S)) (sessions s)"
    and "\<exists>c'. deref s' p = Some c' \<and> cl_id c' = cl_id c"
    and "enet_calls s' = enet_calls s" and "m_topic_map s' = m_topic_map s"
proof -
  from c obtain k where p: "p = Some k" "m_client_map s k = Some c"
    by (auto simp: deref_def split: option.splits)
  let ?c = "c\<lparr>cl_data := (cl_data c)\<lparr>subscribed_topics := f (subscribed_topics (cl_data c))\<rparr>\<rparr>"
  from run p have s': "s' = s\<lparr>m_client_map := (m_client_map s)(k \<mapsto> ?c)\<rparr>" and r: "r = Inr ()"
    by (simp_all add: update_data_def)
  show "r = Inr ()" by (rule r)
  show inv': "net_inv s'"
    using update_data_registry [OF run] inv by (rule same_registry_inv)
  have "session s' q = map_option (\<lambda>(q, S). if q = cl_peer c then (q, f S) else (q, S)) (session s q)" for q
  proof (cases "q = p")
    case True
    with p show ?thesis by (simp add: session_def deref_def s')
  next
    case False
    have "cl_peer c' \<noteq> cl_peer c" if "deref s q = Some c'" for c'
      using that False inv p unfolding net_inv_def deref_def
      by (metis (no_types, lifting) option.case_eq_if option.collapse option.distinct(1) option.inject)
    moreover have "deref s' q = deref s q"
      using False p by (auto simp: s' deref_def split: option.split)
    ultimately show ?thesis
      by (cases "deref s q") (auto simp: session_def)
  qed
  then have "session s' = (\<lambda>q. map_option (\<lambda>(q, S). if q = cl_peer c then (q, f S) else (q, S)) (session s q))"
    by (rule ext)
  moreover have "m_clients s' = m_clients s" by (simp add: s')
  ultimately show "sessions s' = map (\<lambda>(q, S). if q = cl_peer c then (q, f S) else (q, S)) (sessions s)"
    using sessions_eq [OF inv] sessions_eq [OF inv'] deref_live [OF inv]
    by (auto simp: session_def option.map_sel)
  show "\<exists>c'. deref s' p = Some c' \<and> cl_id c' = cl_id c"
    by (simp add: s' p deref_def)
  show "enet_calls s' = enet_calls s" and "m_topic_map s' = m_topic_map s"
    by (simp_all add: s')
qed

subsection \<open>One message\<close>

text \<open>
  \<open>refines_step\<close>: from a server state that represents a broker, the server reaches a state that
  represents the broker after the event, and has sent exactly the broker's replies.
\<close>

definition refines_step ::
    "endian \<Rightarrow> broker_event \<Rightarrow> broker \<Rightarrow> bus_server \<Rightarrow> (cpp_error + unit) \<times> bus_server \<Rightarrow> bool" where
  "refines_step e ev b s result \<longleftrightarrow>
     (case result of (r, s') \<Rightarrow>
        r = Inr () \<and> bus_abs s' (snd (broker_step ev b)) \<and>
        sends (enet_calls s') = sends (enet_calls s) @ on_wire e (fst (broker_step ev b)))"

lemma refines_step_log [simp]: "refines_step e ev b (log x s) = refines_step e ev b s"
  by (simp add: refines_step_def fun_eq_iff)

lemma bus_abs_log [simp]: "bus_abs (log x s) b = bus_abs s b"
  by (simp add: bus_abs_def)

lemma on_wire_Nil [simp]: "on_wire e [] = []"
  by (simp add: on_wire_def)

lemma on_topic_request_refines:
  assumes abs: "bus_abs s b" and c: "deref s p = Some c" and room: "length (b_names b) < 2 ^ 64 - 1"
  shows "refines_step e (Request (cl_peer c) (Resolve (payload_as_string msg))) b s (on_topic_request e p msg s)"
proof -
  let ?n = "payload_as_string msg"
  obtain k tm where g: "get_or_create ?n (m_topic_map s) = (k, tm)" by fastforce
  from abs have names: "names_of (m_topic_map s) (b_names b)" by (simp add: bus_abs_def)
  with room have "m_next_key (m_topic_map s) \<noteq> 0" by (simp add: names_of_room)
  with names g have tm: "names_of tm (register (b_names b) ?n)"
    and k: "abstract_key (register (b_names b) ?n) ?n = Some k"
    using names_of_get_or_create by blast+
  with abs c g show ?thesis
    by (simp add: on_topic_request_def refines_step_def bus_abs_def Client_send_live on_wire_def
        packet_factory_defs Let_def)
qed

lemma on_subscribe_refines:
  assumes abs: "bus_abs s b" and c: "deref s p = Some c"
  shows "refines_step e (Request (cl_peer c) (Subscribe (Header_topic_key e (Message_header msg)))) b s
    (on_subscribe e p msg s)"
proof -
  let ?k = "Header_topic_key e (Message_header msg)"
  obtain r s' where run: "update_data p (\<lambda>d. d\<lparr>subscribed_topics := insert ?k (subscribed_topics d)\<rparr>) s = (r, s')"
    by fastforce
  from abs have "net_inv s" by (simp add: bus_abs_def)
  note u = update_data_abs [OF this c run]
  from u(4) obtain c' where "deref s' p = Some c'" by blast
  with abs run u show ?thesis
    by (simp add: on_subscribe_def refines_step_def bus_abs_def change_subs_def)
qed

lemma on_unsubscribe_refines:
  assumes abs: "bus_abs s b" and c: "deref s p = Some c"
  shows "refines_step e (Request (cl_peer c) (Unsubscribe (Header_topic_key e (Message_header msg)))) b s
    (on_unsubscribe e p msg s)"
proof -
  let ?k = "Header_topic_key e (Message_header msg)"
  obtain r s' where run: "update_data p (\<lambda>d. d\<lparr>subscribed_topics := subscribed_topics d - {?k}\<rparr>) s = (r, s')"
    by fastforce
  from abs have "net_inv s" by (simp add: bus_abs_def)
  note u = update_data_abs [OF this c run]
  from u(4) obtain c' where "deref s' p = Some c'" by blast
  with abs run u show ?thesis
    by (simp add: on_unsubscribe_def refines_step_def bus_abs_def change_subs_def)
qed

lemma on_publish_refines:
  assumes abs: "bus_abs s b" and c: "deref s p = Some c"
  shows "refines_step e
    (Request (cl_peer c) (Publish (Header_topic_key e (Message_header msg)) (Message_payload msg))) b s
    (on_publish e p msg s)"
proof -
  let ?k = "Header_topic_key e (Message_header msg)" and ?m = "Message_payload msg"
  let ?b = "reply_bytes e (Fanout_of ?k ?m)"
  let ?s = "s\<lparr>m_protocol_constructor := (m_protocol_constructor s)\<lparr>m_buffer := ?b\<rparr>\<rparr>"
  from abs have inv: "net_inv ?s" and c': "deref ?s p = Some c" using c by (simp_all add: bus_abs_def)
  have "on_publish e p msg s = fanout_loop p ?k ?b (m_clients ?s) ?s"
    by (simp add: on_publish_def packet_factory_defs clients_def Let_def)
  also note fanout_loop_result [OF c' deref_live [OF inv]]
  finally show ?thesis
    using fanout_sends [OF inv c', of ?b e ?k ?m] abs
    by (simp add: refines_step_def bus_abs_def del: reply_bytes.simps)
qed

lemma bus_on_message_refines:
  assumes abs: "bus_abs s b" and c: "deref s p = Some c" and room: "length (b_names b) < 2 ^ 64 - 1"
  shows "refines_step e (Request (cl_peer c) (request_of e d)) b s (bus_on_message e p d s)"
proof (cases "Message_ctor e d")
  case (Inl err)
  then have short: "length d < sizeof_Header"
    by (cases "length d < sizeof_Header") (simp_all add: Message_ctor_long)
  then have "request_of e d = Ignored"
    by (simp add: request_of_def packet_view_def)
  with abs c short show ?thesis
    by (simp add: bus_on_message_short refines_step_def)
next
  case (Inr msg)
  let ?t = "Header_type (Message_header msg)"
  let ?s = "log (Received_message (cl_id c) (Message_to_string e msg)) s"
  have abs': "bus_abs ?s b" and c': "deref ?s p = Some c" using abs c by simp_all
  have req: "request_of e d =
      (if ?t = Type_topic_request then Resolve (payload_as_string msg)
       else if ?t = Type_subscribe then Subscribe (Header_topic_key e (Message_header msg))
       else if ?t = Type_unsubscribe then Unsubscribe (Header_topic_key e (Message_header msg))
       else if ?t = Type_publish then Publish (Header_topic_key e (Message_header msg)) (Message_payload msg)
       else Ignored)"
    by (simp add: request_of_def packet_view_def Inr payload_as_string_def Message_payload_def)
  show ?thesis
    using on_topic_request_refines [OF abs' c' room] on_subscribe_refines [OF abs' c']
      on_unsubscribe_refines [OF abs' c'] on_publish_refines [OF abs' c'] abs
    by (simp add: bus_on_message_long [OF Inr c] req Let_def) (simp add: refines_step_def)
qed

subsection \<open>One event, and whole runs\<close>

text \<open>Identifiers are handed out in increasing order until the counter wraps.\<close>

definition ids_below :: "('d, 'm) net_server_scheme \<Rightarrow> bool" where
  "ids_below s \<longleftrightarrow> (\<forall>k. m_client_map s k \<noteq> None \<longrightarrow> k < m_next_client_id s)"

lemma ids_below_registry: "\<lbrakk>same_registry s s'; ids_below s\<rbrakk> \<Longrightarrow> ids_below s'"
  unfolding ids_below_def same_registry_def by (metis option.map_disc_iff)

lemma connect_refines:
  assumes abs: "bus_abs s b" and free: "peer \<notin> set (connected_peers s)" and fresh: "ids_below s"
  shows "refines_step e (Join peer) b s (dispatch (bus_callbacks e) ClientData_ctor (ENET_EVENT_TYPE_CONNECT peer) s)"
proof -
  from abs have inv: "net_inv s" by (simp add: bus_abs_def)
  let ?k = "m_next_client_id s"
  obtain r s' where run: "create_client ClientData_ctor peer s = (r, s')" by fastforce
  moreover from fresh have "m_client_map s ?k = None" by (auto simp: ids_below_def)
  ultimately have r: "r = Inr (Some ?k)" and s': "s' = s\<lparr>m_next_client_id := ?k + 1,
      m_client_map := (m_client_map s)(?k \<mapsto> Client_ctor ClientData_ctor ?k peer (m_server s)),
      m_clients := m_clients s @ [Some ?k]\<rparr>"
    by (auto elim: create_client_cases)
  let ?s = "s'\<lparr>peer_data := (peer_data s')(peer := Some ?k)\<rparr>"
  note made = net_inv_connect [OF inv free run [unfolded r]]
  have "session ?s q = session s q" if "q \<in> set (m_clients s)" for q
    using that \<open>m_client_map s ?k = None\<close> deref_live [OF inv that]
    by (auto simp: s' session_def deref_def split: option.splits)
  moreover have "session ?s (Some ?k) = Some (peer, {})"
    by (simp add: s' session_def deref_def Client_ctor_def ClientData_ctor_def)
  moreover have "m_clients ?s = m_clients s @ [Some ?k]" by (simp add: s')
  moreover note sessions_eq [OF made(1)]
  ultimately have "sessions ?s = sessions s @ [(peer, {})]"
    by (simp only: sessions_eq [OF inv]) simp
  with abs made run r s' show ?thesis
    by (simp add: refines_step_def bus_abs_def bus_callbacks_def bus_on_connect_def)
qed

lemma disconnect_refines:
  assumes abs: "bus_abs s b" and conn: "peer \<in> set (connected_peers s)"
  shows "refines_step e (Leave peer) b s (dispatch (bus_callbacks e) ClientData_ctor (ENET_EVENT_TYPE_DISCONNECT peer) s)"
proof -
  from abs have inv: "net_inv s" by (simp add: bus_abs_def)
  obtain k c where k: "peer_data s peer = Some k" "m_client_map s k = Some c" "cl_peer c = peer" "cl_id c = k"
    using inv conn by (rule connected_ptr)
  let ?s = "log (Client_disconnected k) s"
  let ?t = "?s\<lparr>m_client_map := (m_client_map s)(k := None), m_clients := removeAll (Some k) (m_clients s)\<rparr>"
  have gone: "destroy_client (peer_data ?s peer) ?s = (Inr (), ?t)"
    using k by (simp add: destroy_client_def deref_def)
  have inv': "net_inv ?t"
    using net_inv_destroy(2) [of ?s peer "Inr ()" ?t] inv conn gone
    by (simp add: same_registry_peers [of s ?s])
  have same: "session ?t q = session s q" if "q \<in> set (removeAll (Some k) (m_clients s))" for q
    using that by (auto simp: session_def deref_def split: option.split)
  have other: "fst (the (session s q)) \<noteq> peer \<longleftrightarrow> q \<noteq> Some k" if "q \<in> set (m_clients s)" for q
  proof -
    obtain c' where c': "deref s q = Some c'" using deref_live [OF inv \<open>q \<in> _\<close>] by auto
    moreover have "deref s (Some k) = Some c" using k by (simp add: deref_def)
    ultimately have "cl_id c' = k \<longleftrightarrow> cl_peer c' = peer"
      using deref_peer_inject [OF inv, of "Some k" c q c'] k by simp
    moreover have "q = Some (cl_id c')"
      using c' inv by (auto simp: deref_def net_inv_def split: option.splits)
    ultimately show ?thesis using c' by (auto simp: session_def)
  qed
  have "sessions ?t = map (\<lambda>q. the (session s q)) (removeAll (Some k) (m_clients s))"
    using sessions_eq [OF inv'] same by simp
  also have "\<dots> = filter (\<lambda>(q, S). q \<noteq> peer) (sessions s)"
    using other by (auto simp: sessions_eq [OF inv] removeAll_filter_not_eq filter_map o_def case_prod_beta
        intro!: arg_cong [where f = "map _"] filter_cong)
  finally show ?thesis
    using abs inv' gone k
    by (simp add: refines_step_def bus_abs_def bus_callbacks_def bus_on_disconnect_def deref_def)
qed

lemma bus_abs_issue [simp]: "bus_abs (issue cs s) b = bus_abs s b"
  by (simp add: bus_abs_def)

lemma refines_step_destroy [simp]:
  "refines_step e ev b s (r, issue [Packet_destroy q] s') = refines_step e ev b s (r, s')"
  by (simp add: refines_step_def)

lemma refines_step_poll [simp]: "refines_step e ev b (poll_host s) = refines_step e ev b s"
  by (simp add: refines_step_def fun_eq_iff poll_host_def)

lemma poll_host_bus_simps [simp]:
  "bus_abs (poll_host s) b = bus_abs s b" "ids_below (poll_host t) = ids_below t"
  by (simp_all add: poll_host_def bus_abs_def ids_below_def)

lemma bus_step_refines:
  assumes abs: "bus_abs s b" and ok: "event_ok s event" and room: "length (b_names b) < 2 ^ 64 - 1"
    and fresh: "ids_below s"
  shows "refines_step e (broker_event_of e event) b s (bus_step e event s)"
proof (cases event)
  case ENET_EVENT_TYPE_NONE
  with abs show ?thesis by (simp add: loop_step_def refines_step_def) (simp add: poll_host_def)
next
  case (ENET_EVENT_TYPE_CONNECT peer)
  with abs ok fresh show ?thesis
    using connect_refines [of "poll_host s" b peer e] by (simp add: loop_step_def del: dispatch.simps)
next
  case (ENET_EVENT_TYPE_RECEIVE peer packet)
  let ?s = "poll_host s"
  from abs ok ENET_EVENT_TYPE_RECEIVE have "net_inv ?s" "peer \<in> set (connected_peers ?s)"
    by (simp_all add: bus_abs_def)
  then obtain k c where "peer_data ?s peer = Some k" "m_client_map ?s k = Some c" "cl_peer c = peer"
    by (rule connected_ptr)
  with abs room show ?thesis
    using bus_on_message_refines [of ?s b "peer_data ?s peer" c e "packet_data packet"] ENET_EVENT_TYPE_RECEIVE
    by (auto simp: loop_step_def bus_callbacks_def deref_def split: prod.splits)
next
  case (ENET_EVENT_TYPE_DISCONNECT peer)
  with abs ok show ?thesis
    using disconnect_refines [of "poll_host s" b peer e] by (simp add: loop_step_def del: dispatch.simps)
qed

fun broker_run :: "broker_event list \<Rightarrow> broker \<Rightarrow> (ENetPeer \<times> reply) list \<times> broker" where
  "broker_run [] b = ([], b)"
| "broker_run (ev # evs) b =
     (let (replies, b) = broker_step ev b;
          (more_replies, b) = broker_run evs b
      in (replies @ more_replies, b))"

lemma broker_step_names: "length (b_names (snd (broker_step ev b))) \<le> Suc (length (b_names b))"
  by (induction ev b rule: broker_step.induct) (simp_all add: Let_def register_def change_subs_def)

lemma unat_add_one: "unat w < 2 ^ 64 - 1 \<Longrightarrow> unat (w + 1) = Suc (unat w)" for w :: u64
  by (simp add: unat_word_ariths)

lemma create_client_ids:
  assumes run: "create_client d0 peer s = (r, s')" and below: "ids_below s"
    and room: "unat (m_next_client_id s) < 2 ^ 64 - 1"
  shows "ids_below s'"
proof -
  have up: "k \<le> m_next_client_id s \<Longrightarrow> k < m_next_client_id s + 1" for k
    using room by (simp add: word_less_nat_alt word_le_nat_alt unat_add_one)
  have "m_client_map s' k \<noteq> None \<Longrightarrow> k \<le> m_next_client_id s" for k
    using run below by (cases rule: create_client_cases) (auto simp: ids_below_def less_imp_le split: if_splits)
  moreover have "m_next_client_id s' = m_next_client_id s + 1"
    using run by (cases rule: create_client_cases) simp_all
  ultimately show ?thesis using up by (simp add: ids_below_def)
qed

lemma bus_step_ids:
  assumes below: "ids_below s" and room: "unat (m_next_client_id s) < 2 ^ 64 - 1"
    and step: "bus_step e event s = (r, s')"
  shows "ids_below s' \<and> unat (m_next_client_id s') \<le> Suc (unat (m_next_client_id s))"
proof (cases event)
  case ENET_EVENT_TYPE_NONE
  with below step show ?thesis by (auto simp: loop_step_def) (simp add: poll_host_def)
next
  case (ENET_EVENT_TYPE_CONNECT peer)
  let ?s = "poll_host s"
  obtain r1 s1 where run: "create_client ClientData_ctor peer ?s = (r1, s1)" by fastforce
  have next1: "m_next_client_id s1 = m_next_client_id s + 1"
    using run by (cases rule: create_client_cases) (simp_all add: poll_host_def)
  have below1: "ids_below s1"
    using below room by (intro create_client_ids [OF run]) (simp_all add: poll_host_def ids_below_def)
  have "same_registry (s1\<lparr>peer_data := (peer_data s1)(peer := p)\<rparr>) s' \<or> s' = s1" if "r1 = Inr p" for p
    using step run that ENET_EVENT_TYPE_CONNECT
    by (auto simp: loop_step_def bus_callbacks_def bus_on_connect_def Let_def split: option.splits)
  moreover have "s' = s1" if "r1 = Inl err" for err
    using step run that ENET_EVENT_TYPE_CONNECT by (simp add: loop_step_def)
  ultimately have "\<exists>d. same_registry (s1\<lparr>peer_data := d\<rparr>) s'"
    by (cases r1) (metis net_server.surjective net_server.update_convs(6) same_registry_refl)+
  then obtain d where "same_registry (s1\<lparr>peer_data := d\<rparr>) s'" ..
  moreover have "ids_below (s1\<lparr>peer_data := d\<rparr>)" using below1 by (simp add: ids_below_def)
  ultimately have "ids_below s'" and "m_next_client_id s' = m_next_client_id s1"
    by (auto intro: ids_below_registry) (simp add: same_registry_def)
  then show ?thesis using next1 room by (simp add: unat_add_one)
next
  case (ENET_EVENT_TYPE_RECEIVE peer packet)
  have "same_registry s s'"
    using step ENET_EVENT_TYPE_RECEIVE bus_on_message_registry [of e _ _ "poll_host s"]
    by (auto simp: loop_step_def bus_callbacks_def poll_host_def split: prod.splits)
  with below show ?thesis
    by (auto simp: ids_below_registry) (simp add: same_registry_def)
next
  case (ENET_EVENT_TYPE_DISCONNECT peer)
  then have "m_next_client_id s' = m_next_client_id s \<and> (\<forall>k. m_client_map s k = None \<longrightarrow> m_client_map s' k = None)"
    using step
    by (auto simp: loop_step_def bus_callbacks_def bus_on_disconnect_def destroy_client_def poll_host_def
        split: option.splits)
  with below show ?thesis by (auto simp: ids_below_def) (metis not_None_eq)
qed

text \<open>
  The server represents a broker and is ready for the events to come: they follow ENet's order, and
  neither the identifier counter nor the key counter can wrap before they are processed.
\<close>

definition ready :: "broker \<Rightarrow> ENetEvent list \<Rightarrow> bus_server \<Rightarrow> bool" where
  "ready b events s \<longleftrightarrow>
     bus_abs s b \<and> enet_protocol (set (connected_peers s)) events \<and> ids_below s \<and>
     unat (m_next_client_id s) + length events < 2 ^ 64 \<and> length (b_names b) + length events < 2 ^ 64"

lemma ready_poll_host [simp]: "ready b events (poll_host s) = ready b events s"
  unfolding ready_def poll_host_bus_simps by (simp add: poll_host_def)

lemma ready_step:
  assumes r: "ready b (event # events) s"
  obtains s1 where "bus_step e event s = (Inr (), s1)"
    and "ready (snd (broker_step (broker_event_of e event) b)) events s1"
    and "sends (enet_calls s1) = sends (enet_calls s) @ on_wire e (fst (broker_step (broker_event_of e event) b))"
proof -
  let ?ev = "broker_event_of e event"
  from r have inv: "net_inv s" by (simp add: ready_def bus_abs_def)
  from bus.protocol_guarded [OF inv, of "event # events"] r have ok: "event_ok s event"
    by (simp add: ready_def)
  have "refines_step e ?ev b s (bus_step e event s)"
    using r ok by (intro bus_step_refines) (simp_all add: ready_def)
  then obtain s1 where s1: "bus_step e event s = (Inr (), s1)" "bus_abs s1 (snd (broker_step ?ev b))"
    "sends (enet_calls s1) = sends (enet_calls s) @ on_wire e (fst (broker_step ?ev b))"
    by (cases "broker_step ?ev b") (auto simp: refines_step_def)
  have "set (connected_peers s1) = peers_after event (set (connected_peers s))"
    using bus.dispatch_ok [of "poll_host s" event e "Inr ()" s1] inv ok s1(1) by (simp add: loop_step_def)
  then have "enet_protocol (set (connected_peers s1)) events"
    using r by (cases event) (simp_all add: ready_def)
  moreover have "ids_below s1 \<and> unat (m_next_client_id s1) \<le> Suc (unat (m_next_client_id s))"
    using r by (intro bus_step_ids [OF _ _ s1(1)]) (simp_all add: ready_def)
  moreover have "length (b_names (snd (broker_step ?ev b))) \<le> Suc (length (b_names b))"
    by (rule broker_step_names)
  ultimately show ?thesis
    using r s1 by (intro that [of s1]) (simp_all add: ready_def)
qed

lemma ready_run:
  assumes "ready b (events @ later) s"
  shows "\<exists>s'. run_events (bus_step e) events s = (Inr (), s') \<and>
    ready (snd (broker_run (map (broker_event_of e) events) b)) later s' \<and>
    sends (enet_calls s') =
      sends (enet_calls s) @ on_wire e (fst (broker_run (map (broker_event_of e) events) b))"
  using assms
proof (induction events arbitrary: s b)
  case Nil
  then show ?case by simp
next
  case (Cons event events)
  then have "ready b (event # events @ later) s" by simp
  then obtain s1 where s1: "bus_step e event s = (Inr (), s1)"
    "ready (snd (broker_step (broker_event_of e event) b)) (events @ later) s1"
    "sends (enet_calls s1) = sends (enet_calls s) @ on_wire e (fst (broker_step (broker_event_of e event) b))"
    by (rule ready_step)
  with Cons.IH [OF s1(2)] show ?case
    by (auto simp: on_wire_def case_prod_beta)
qed

lemma bus_run_refines:
  assumes "bus_abs s b" and "enet_protocol (set (connected_peers s)) events" and "ids_below s"
    and "unat (m_next_client_id s) + length events < 2 ^ 64"
    and "length (b_names b) + length events < 2 ^ 64"
  shows "\<exists>s'. run_events (bus_step e) events s = (Inr (), s') \<and>
    bus_abs s' (snd (broker_run (map (broker_event_of e) events) b)) \<and>
    sends (enet_calls s') =
      sends (enet_calls s) @ on_wire e (fst (broker_run (map (broker_event_of e) events) b))"
  using ready_run [of b events "[]" s e] assms by (auto simp: ready_def)

lemma bus_process_run:
  "bus_process e events s =
     (case run_events (bus_step e) events s of
        (Inl err, s') \<Rightarrow> (Inl err, s')
      | (Inr _, s') \<Rightarrow> (Inr (), poll_host s'))"
  by (simp add: bus_process_def process_def bus_callbacks_def bus_on_process_def process_loop_run_events)

lemma poll_host_sends [simp]: "sends (enet_calls (poll_host s)) = sends (enet_calls s)" for s :: bus_server
  by (simp add: poll_host_def)

lemma ready_process:
  assumes "ready b (events @ later) s"
  shows "\<exists>s'. bus_process e events s = (Inr (), s') \<and>
    ready (snd (broker_run (map (broker_event_of e) events) b)) later s' \<and>
    sends (enet_calls s') =
      sends (enet_calls s) @ on_wire e (fst (broker_run (map (broker_event_of e) events) b))"
  using ready_run [OF assms, of e] by (auto simp: bus_process_run)

lemma broker_run_append:
  "broker_run (es @ fs) b =
     (let (out, b) = broker_run es b; (out', b) = broker_run fs b in (out @ out', b))"
  by (induction es arbitrary: b) (auto simp: Let_def case_prod_beta)

text \<open>Successive calls of \<^verbatim>\<open>process\<close>, each with the events of its turn.\<close>

lemma ready_iterations:
  assumes "ready b (concat (map events [0..<n])) s"
  shows "\<exists>s'. run_events (\<lambda>i. bus_process e (events i)) [0..<n] s = (Inr (), s') \<and>
    bus_abs s' (snd (broker_run (map (broker_event_of e) (concat (map events [0..<n]))) b)) \<and>
    sends (enet_calls s') = sends (enet_calls s) @
      on_wire e (fst (broker_run (map (broker_event_of e) (concat (map events [0..<n]))) b))"
proof -
  have "\<exists>s'. run_events (\<lambda>i. bus_process e (events i)) is s = (Inr (), s') \<and>
      ready (snd (broker_run (map (broker_event_of e) (concat (map events is))) b)) later s' \<and>
      sends (enet_calls s') = sends (enet_calls s) @
        on_wire e (fst (broker_run (map (broker_event_of e) (concat (map events is))) b))"
    if "ready b (concat (map events is) @ later) s" for "is" later s b
    using that
  proof (induction "is" arbitrary: s b)
    case Nil
    then show ?case by simp
  next
    case (Cons i "is")
    then have "ready b (events i @ concat (map events is) @ later) s" by simp
    from ready_process [OF this, of e] obtain s1 where s1: "bus_process e (events i) s = (Inr (), s1)"
      "ready (snd (broker_run (map (broker_event_of e) (events i)) b)) (concat (map events is) @ later) s1"
      "sends (enet_calls s1) = sends (enet_calls s) @
        on_wire e (fst (broker_run (map (broker_event_of e) (events i)) b))"
      by blast
    from Cons.IH [OF s1(2)] s1(1,3) show ?case
      by (auto simp: broker_run_append on_wire_def Let_def case_prod_beta)
  qed
  from this [of b "[0..<n]" "[]" s] assms show ?thesis
    by (auto simp: ready_def)
qed

section \<open>Start and reachable states\<close>

definition empty_broker :: broker where
  "empty_broker = \<lparr>b_names = [], b_sessions = []\<rparr>"

lemma bus_server_ctor_Inr:
  assumes "fst (bus_server_ctor quill port host lg) = Inr s"
  shows "0 \<le> port \<and> port \<le> uint16_max \<and> host = Some (m_server s) \<and>
    bus_abs s empty_broker \<and> ids_below s \<and> connected_peers s = [] \<and> m_next_client_id s = 1 \<and>
    enet_calls s = [Host_create (Some (m_address s)) 8 2] \<and> addr_port (m_address s) = word_of_int port"
  using assms names_of_ctor
  by (auto simp: bus_server_ctor_def Server_ctor_def Let_def net_server.defs bus_abs_def empty_broker_def
      net_inv_def ids_below_def connected_peers_def sessions_def split: if_splits option.splits prod.splits)

lemma bus_server_ctor_starts:
  assumes "0 \<le> port" and "port \<le> 65535"
  obtains s where "fst (bus_server_ctor quill port (Some h) lg) = Inr s"
  using assms by (auto simp: bus_server_ctor_def Server_ctor_def uint16_max_def Let_def case_prod_beta)

inductive bus_reachable :: "endian \<Rightarrow> bus_server \<Rightarrow> bool" for e where
  started: "fst (bus_server_ctor quill port host lg) = Inr s \<Longrightarrow> bus_reachable e s"
| processed: "\<lbrakk>bus_reachable e s; enet_protocol (set (connected_peers s)) events;
     bus_process e events s = (r, s')\<rbrakk> \<Longrightarrow> bus_reachable e s'"

lemma bus_reachable_inv: "bus_reachable e s \<Longrightarrow> net_inv s"
proof (induction rule: bus_reachable.induct)
  case (started quill port host lg s)
  then show ?case using bus_server_ctor_Inr by (auto simp: bus_abs_def)
next
  case (processed s events r s')
  then show ?case using bus.process_safe by (auto simp: bus_process_def)
qed

text \<open>The packets the loop received, in order.\<close>

fun received :: "ENetEvent list \<Rightarrow> nat list" where
  "received [] = []"
| "received (ENET_EVENT_TYPE_RECEIVE p packet # es) = packet_ptr packet # received es"
| "received (_ # es) = received es"

lemma Client_send_destroyed:
  "Client_send p b s = (r, s') \<Longrightarrow> destroyed (enet_calls s') = destroyed (enet_calls s)"
  by (auto simp: Client_send_def split: option.splits)

lemma fanout_loop_destroyed:
  "fanout_loop p k b ps s = (r, s') \<Longrightarrow> destroyed (enet_calls s') = destroyed (enet_calls s)"
proof (induction ps arbitrary: s)
  case Nil
  then show ?case by simp
next
  case (Cons q qs)
  then show ?case
    by (fastforce simp: Client_send_def split: option.splits if_splits)
qed

lemma bus_on_message_destroyed:
  "bus_on_message e p b s = (r, s') \<Longrightarrow> destroyed (enet_calls s') = destroyed (enet_calls s)"
  by (auto simp: bus_on_message_def branch_defs Let_def update_data_def
      split: option.splits if_splits sum.splits prod.splits
      dest!: fanout_loop_destroyed Client_send_destroyed)

lemma bus_step_destroyed:
  assumes "bus_step e event s = (r, s')"
  shows "destroyed (enet_calls s') = destroyed (enet_calls s) @ received [event]"
proof (cases event)
  case ENET_EVENT_TYPE_NONE
  with assms show ?thesis by (auto simp: loop_step_def poll_host_def)
next
  case (ENET_EVENT_TYPE_CONNECT peer)
  with assms show ?thesis
    by (auto simp: loop_step_def poll_host_def bus_callbacks_def bus_on_connect_def create_client_def Let_def
        split: option.splits if_splits)
next
  case (ENET_EVENT_TYPE_RECEIVE peer packet)
  with assms show ?thesis
    by (auto simp: loop_step_def poll_host_def bus_callbacks_def split: prod.splits
        dest!: bus_on_message_destroyed)
next
  case (ENET_EVENT_TYPE_DISCONNECT peer)
  with assms show ?thesis
    by (auto simp: loop_step_def poll_host_def bus_callbacks_def bus_on_disconnect_def destroy_client_def
        split: option.splits)
qed

lemma run_events_keeps:
  assumes step: "\<And>x s r s'. step x s = (r, s') \<Longrightarrow> f s' = f s" and "run_events step xs s = (r, s')"
  shows "f s' = f s"
  using assms(2)
proof (induction xs arbitrary: s)
  case (Cons x xs)
  obtain r1 s1 where s1: "step x s = (r1, s1)" by fastforce
  with Cons step [OF s1] show ?case by (cases r1) auto
qed simp

lemma bus_step_m_server:
  assumes "bus_step e event s = (r, s')"
  shows "m_server s' = m_server s"
proof (cases event)
  case (ENET_EVENT_TYPE_RECEIVE peer packet)
  have "same_registry s s'"
    using assms ENET_EVENT_TYPE_RECEIVE bus_on_message_registry [of e _ _ "poll_host s"]
    by (auto simp: loop_step_def bus_callbacks_def poll_host_def split: prod.splits)
  then show ?thesis by (simp add: same_registry_def)
qed (use assms in \<open>auto simp: loop_step_def poll_host_def bus_callbacks_def bus_on_connect_def
  bus_on_disconnect_def create_client_def destroy_client_def Let_def split: option.splits if_splits\<close>)

lemma bus_process_m_server: "bus_process e events s = (r, s') \<Longrightarrow> m_server s' = m_server s"
  using run_events_keeps [of "bus_step e" m_server events s, OF bus_step_m_server]
  by (auto simp: bus_process_run poll_host_def split: prod.splits sum.splits)

lemma received_append: "received (es @ fs) = received es @ received fs"
  by (induction es rule: received.induct) simp_all

lemma run_destroyed:
  "run_events (bus_step e) events s = (Inr (), s') \<Longrightarrow>
   destroyed (enet_calls s') = destroyed (enet_calls s) @ received events"
proof (induction events arbitrary: s)
  case Nil
  then show ?case by simp
next
  case (Cons event events)
  then obtain u s1 where s1: "bus_step e event s = (Inr u, s1)" "run_events (bus_step e) events s1 = (Inr (), s')"
    by (auto split: prod.splits sum.splits)
  with Cons.IH bus_step_destroyed [OF s1(1)] show ?case
    using received_append [of "[event]" events] by simp
qed

text \<open>The only event that can make a turn of the loop throw is a connection, and it does exactly when the next identifier is taken.\<close>

definition identifier_taken :: "bus_server \<Rightarrow> bool" where
  "identifier_taken s \<longleftrightarrow> m_client_map s (m_next_client_id s) \<noteq> None"

lemma bus_step_error_iff:
  assumes "net_inv s" and "event_ok s event"
  shows "fst (bus_step e event s) = Inl err \<longleftrightarrow>
    (\<exists>p. event = ENET_EVENT_TYPE_CONNECT p) \<and> identifier_taken s \<and> err = create_client_error (m_next_client_id s)"
proof (cases event)
  case ENET_EVENT_TYPE_NONE
  then show ?thesis by (simp add: loop_step_def)
next
  case (ENET_EVENT_TYPE_CONNECT peer)
  then show ?thesis
    by (auto simp: loop_step_def identifier_taken_def create_client_def poll_host_def issue_def bus_callbacks_def bus_on_connect_def
        deref_def Let_def)
next
  case (ENET_EVENT_TYPE_RECEIVE peer packet)
  from assms ENET_EVENT_TYPE_RECEIVE have live: "deref (poll_host s) (peer_data (poll_host s) peer) \<noteq> None"
    by (auto simp: deref_def poll_host_def elim: connected_ptr)
  show ?thesis
    using assms ENET_EVENT_TYPE_RECEIVE bus_on_message_returns [of "poll_host s", OF _ live, of e "packet_data packet"]
    by (auto simp: loop_step_def bus_callbacks_def split: prod.splits)
next
  case (ENET_EVENT_TYPE_DISCONNECT peer)
  from assms ENET_EVENT_TYPE_DISCONNECT obtain k c where "peer_data s peer = Some k" "m_client_map s k = Some c"
    by (auto elim: connected_ptr)
  with ENET_EVENT_TYPE_DISCONNECT show ?thesis
    by (simp add: loop_step_def bus_callbacks_def bus_on_disconnect_def deref_def destroy_client_def poll_host_def)
qed

lemma run_error_iff:
  "\<lbrakk>net_inv s; guarded_run (bus_step e) event_ok events s\<rbrakk> \<Longrightarrow>
   fst (run_events (bus_step e) events s) = Inl err \<longleftrightarrow>
     (\<exists>pre p post s1. events = pre @ ENET_EVENT_TYPE_CONNECT p # post \<and> run_events (bus_step e) pre s = (Inr (), s1) \<and>
        identifier_taken s1 \<and> err = create_client_error (m_next_client_id s1))"
proof (induction events arbitrary: s)
  case Nil
  then show ?case by simp
next
  case (Cons event events)
  obtain r1 s1 where step: "bus_step e event s = (r1, s1)" by fastforce
  from Cons.prems have ok: "event_ok s event" by simp
  note now = bus_step_error_iff [OF Cons.prems(1) ok, of e]
  show ?case
  proof (cases r1)
    case (Inl err1)
    with step now [of err1] obtain p where p: "event = ENET_EVENT_TYPE_CONNECT p" "identifier_taken s"
      "err1 = create_client_error (m_next_client_id s)" by auto
    have "run_events (bus_step e) [] s = (Inr (), s)" by simp
    with p step Inl show ?thesis by (fastforce simp: Cons_eq_append_conv)
  next
    case (Inr u)
    with step now have free: "\<not> ((\<exists>p. event = ENET_EVENT_TYPE_CONNECT p) \<and> identifier_taken s)" by auto
    have IH: "fst (run_events (bus_step e) events s1) = Inl err \<longleftrightarrow>
        (\<exists>pre p post s2. events = pre @ ENET_EVENT_TYPE_CONNECT p # post \<and> run_events (bus_step e) pre s1 = (Inr (), s2) \<and>
          identifier_taken s2 \<and> err = create_client_error (m_next_client_id s2))" (is "_ \<longleftrightarrow> ?later")
      using Cons Inr step bus.loop.step_inv [OF Cons.prems(1) ok step] by simp
    have "(\<exists>pre p post s2. event # events = pre @ ENET_EVENT_TYPE_CONNECT p # post \<and> run_events (bus_step e) pre s = (Inr (), s2) \<and>
          identifier_taken s2 \<and> err = create_client_error (m_next_client_id s2)) \<longleftrightarrow> ?later" (is "?now \<longleftrightarrow> _")
    proof
      assume ?now
      then obtain pre p post s2 where split: "event # events = pre @ ENET_EVENT_TYPE_CONNECT p # post"
        "run_events (bus_step e) pre s = (Inr (), s2)" "identifier_taken s2" "err = create_client_error (m_next_client_id s2)" by blast
      moreover from this free obtain pre' where "pre = event # pre'" by (cases pre) auto
      ultimately show ?later using step Inr by auto
    next
      assume ?later
      then obtain pre p post s2 where split: "events = pre @ ENET_EVENT_TYPE_CONNECT p # post"
        "run_events (bus_step e) pre s1 = (Inr (), s2)" "identifier_taken s2" "err = create_client_error (m_next_client_id s2)" by blast
      then show ?now using step Inr
        by (intro exI [of _ "event # pre"] exI [of _ p] exI [of _ post] exI [of _ s2]) simp
    qed
    with IH Inr step show ?thesis by simp
  qed
qed

section \<open>Properties\<close>

text \<open>A run used by the witnesses: two clients connect, the second subscribes to key 1, the first
  publishes to it.\<close>

definition example_events :: "ENetEvent list" where
  "example_events =
     [ENET_EVENT_TYPE_CONNECT 1, ENET_EVENT_TYPE_CONNECT 2,
      ENET_EVENT_TYPE_RECEIVE 2 \<lparr>packet_ptr = 10, packet_data = fst (construct_subscribe Little Constructor_ctor 1 Origin_client)\<rparr>,
      ENET_EVENT_TYPE_RECEIVE 1 \<lparr>packet_ptr = 11, packet_data = fst (construct_publish Little Constructor_ctor 1 [7] Origin_client)\<rparr>]"

definition example_server :: bus_server where
  "example_server = projr (fst (bus_server_ctor first_request 6767 (Some 0) logging_start))"

lemma example_server_started: "fst (bus_server_ctor first_request 6767 (Some 0) logging_start) = Inr example_server"
  by (simp add: example_server_def bus_server_ctor_def Server_ctor_def uint16_max_def Let_def split: prod.split)

lemmas example_start = bus_server_ctor_Inr [OF example_server_started]

lemma example_protocol: "enet_protocol (set (connected_peers example_server)) example_events"
  using example_start by (simp add: example_events_def)

lemma example_requests:
  "request_of Little (fst (construct_subscribe Little c 1 Origin_client)) = Subscribe 1"
  "request_of Little (fst (construct_publish Little c 1 [7] Origin_client)) = Publish 1 [7]"
  using packet_view_ctor [of Little Little Origin_client Type_subscribe 1 "[]"]
  by (simp_all add: request_of_def packet_factory_defs header_factory_defs enum_defs)

lemma example_broker:
  "broker_run (map (broker_event_of Little) example_events) empty_broker =
     ([(2, Fanout_of 1 [7])], \<lparr>b_names = [], b_sessions = [(1, {}), (2, {1})]\<rparr>)"
  by (simp add: example_events_def empty_broker_def example_requests change_subs_def del: construct_simp)

lemma example_served:
  "\<exists>s'. bus_process Little example_events example_server = (Inr (), s') \<and>
     sends (enet_calls s') = [(2, reply_bytes Little (Fanout_of 1 [7]))]"
  using bus_run_refines [of example_server empty_broker example_events Little] example_start
    example_protocol example_broker
  by (auto simp: bus_process_run poll_host_def example_events_def empty_broker_def on_wire_def
      simp del: construct_simp reply_bytes.simps)

text \<open>C8: The server implements the pub/sub broker: over any sequence of events in ENet's documented
  order, \<^verbatim>\<open>process\<close> returns, the state still represents the broker, and the packets handed to ENet
  are exactly the broker's replies in order, in wire format. The bounds say that neither the
  identifier counter nor the key counter wraps during the run.\<close>

theorem server_refines_broker:
  assumes "bus_abs s b" and "enet_protocol (set (connected_peers s)) events" and "ids_below s"
    and "unat (m_next_client_id s) + length events < 2 ^ 64"
    and "length (b_names b) + length events < 2 ^ 64"
  shows "\<exists>s'. bus_process e events s = (Inr (), s') \<and>
    bus_abs s' (snd (broker_run (map (broker_event_of e) events) b)) \<and>
    sends (enet_calls s') =
      sends (enet_calls s) @ on_wire e (fst (broker_run (map (broker_event_of e) events) b))"
  using bus_run_refines [OF assms, of e] by (auto simp: bus_process_run poll_host_def)

theorem server_refines_broker_witness:
  "\<exists>s'. bus_process Little example_events example_server = (Inr (), s') \<and>
     bus_abs s' \<lparr>b_names = [], b_sessions = [(1, {}), (2, {1})]\<rparr> \<and>
     sends (enet_calls s') = [(2, reply_bytes Little (Fanout_of 1 [7]))]"
  using server_refines_broker [of example_server empty_broker example_events Little] example_start
    example_protocol example_broker
  by (simp add: example_events_def empty_broker_def on_wire_def del: construct_simp reply_bytes.simps)

text \<open>C13: Memory safety of the event loop: in every reachable state, any further events in ENet's
  documented order are processed without dereferencing a null or dangling client pointer, and the
  client table, the pointer vector and the peers' back pointers stay consistent.\<close>

theorem server_memory_safe:
  assumes "bus_reachable e s" and "enet_protocol (set (connected_peers s)) events"
    and "bus_process e events s = (r, s')"
  shows "r \<noteq> Inl Undefined_behaviour \<and> net_inv s' \<and> bus_reachable e s'"
  using bus.process_safe [OF bus_reachable_inv [OF assms(1)] assms(2), of e r s']
    bus_reachable.processed [OF assms] assms(3)
  by (simp add: bus_process_def)

theorem server_memory_safe_witness:
  "net_inv (snd (bus_process Little example_events example_server))"
  using server_memory_safe [OF bus_reachable.started [OF example_server_started] example_protocol, of Little]
  by (cases "bus_process Little example_events example_server") simp

text \<open>C15: When \<^verbatim>\<open>process\<close> throws: exactly when one of the events is a connection for which, after the events before it were processed, the next
  identifier belongs to a connected client; the exception is then the documented one with this identifier. In particular no
  packet a client sends makes the server throw, whatever its bytes.\<close>

theorem server_only_error:
  assumes inv: "net_inv s" and events: "enet_protocol (set (connected_peers s)) events"
  shows "fst (bus_process e events s) = Inl err \<longleftrightarrow>
    (\<exists>pre p post s1. events = pre @ ENET_EVENT_TYPE_CONNECT p # post \<and> bus_process e pre s = (Inr (), s1) \<and>
      m_client_map s1 (m_next_client_id s1) \<noteq> None \<and>
      err = Runtime_error (''Failed to create client with ID: '' @ to_string_u64 (m_next_client_id s1)))"
proof -
  have same: "identifier_taken (poll_host z) = identifier_taken z" "m_next_client_id (poll_host z) = m_next_client_id z" for z
    by (simp_all add: identifier_taken_def poll_host_def issue_def)
  have "fst (bus_process e events s) = Inl err \<longleftrightarrow> fst (run_events (bus_step e) events s) = Inl err"
    by (simp add: bus_process_run split: prod.split sum.split)
  also have "\<dots> \<longleftrightarrow> (\<exists>pre p post s1. events = pre @ ENET_EVENT_TYPE_CONNECT p # post \<and> run_events (bus_step e) pre s = (Inr (), s1) \<and>
      identifier_taken s1 \<and> err = create_client_error (m_next_client_id s1))"
    by (rule run_error_iff [OF inv bus.protocol_guarded [OF inv events]])
  also have "\<dots> \<longleftrightarrow> (\<exists>pre p post s1. events = pre @ ENET_EVENT_TYPE_CONNECT p # post \<and> bus_process e pre s = (Inr (), s1) \<and>
      identifier_taken s1 \<and> err = create_client_error (m_next_client_id s1))"
    (is "?run \<longleftrightarrow> ?process")
  proof
    assume ?run
    then obtain pre p post s1 where "events = pre @ ENET_EVENT_TYPE_CONNECT p # post" "run_events (bus_step e) pre s = (Inr (), s1)"
      "identifier_taken s1" "err = create_client_error (m_next_client_id s1)" by blast
    then show ?process
      by (intro exI [of _ pre] exI [of _ p] exI [of _ post] exI [of _ "poll_host s1"]) (simp add: bus_process_run same)
  next
    assume ?process
    then obtain pre p post s1 where "events = pre @ ENET_EVENT_TYPE_CONNECT p # post" "bus_process e pre s = (Inr (), s1)"
      "identifier_taken s1" "err = create_client_error (m_next_client_id s1)" by blast
    moreover from this(2) obtain s0 where "run_events (bus_step e) pre s = (Inr (), s0)" "s1 = poll_host s0"
      by (auto simp: bus_process_run split: prod.splits sum.splits)
    ultimately show ?run using same by auto
  qed
  finally show ?thesis by (simp add: identifier_taken_def create_client_error_def)
qed

text \<open>Two servers at the end of the counter: on one the first identifier is still in use when the counter has wrapped, on the other it is free.\<close>

definition wrapped_server :: "bool \<Rightarrow> bus_server" where
  "wrapped_server used = example_server
     \<lparr>m_client_map := (if used then [1 \<mapsto> \<lparr>cl_id = 1, cl_peer = 4, cl_server = 0, cl_data = ClientData_ctor\<rparr>] else Map.empty),
      m_clients := (if used then [Some 1] else []), m_next_client_id := 1,
      peer_data := (\<lambda>_. None)(4 := Some 1)\<rparr>"

lemma wrapped_server_simps:
  "net_inv (wrapped_server used)" "connected_peers (wrapped_server used) = (if used then [4] else [])"
  "m_client_map (wrapped_server used) 1 \<noteq> None \<longleftrightarrow> used" "m_next_client_id (wrapped_server used) = 1"
  using example_start
  by (auto simp: wrapped_server_def net_inv_def connected_peers_def deref_def List.map_filter_def)

theorem server_only_error_witness:
  "fst (bus_process Little [ENET_EVENT_TYPE_CONNECT 5] (wrapped_server True)) =
     Inl (Runtime_error (''Failed to create client with ID: '' @ to_string_u64 1)) \<and>
   (\<forall>err. fst (bus_process Little [ENET_EVENT_TYPE_CONNECT 5] (wrapped_server False)) \<noteq> Inl err)"
proof -
  let ?ev = "ENET_EVENT_TYPE_CONNECT 5"
  have p: "enet_protocol (set (connected_peers (wrapped_server used))) [?ev]" for used by (simp add: wrapped_server_simps)
  have none: "bus_process Little [] (wrapped_server used) = (Inr (), poll_host (wrapped_server used))" for used
    by (simp add: bus_process_run)
  have same: "m_client_map (poll_host z) = m_client_map z" "m_next_client_id (poll_host z) = m_next_client_id z" for z :: bus_server
    by (simp_all add: poll_host_def issue_def)
  show ?thesis
    using server_only_error [OF wrapped_server_simps(1) p [of True], of Little]
      server_only_error [OF wrapped_server_simps(1) p [of False], of Little]
    by (auto simp: Cons_eq_append_conv none same wrapped_server_simps(4) wrapped_server_simps(3) [of True, simplified]
        wrapped_server_simps(3) [of False, simplified])
qed

text \<open>Every packet ENet hands to the server is destroyed exactly once, in the order of arrival,
  and the server destroys no other packet.\<close>

lemma server_destroys_packets:
  assumes "bus_process e events s = (Inr (), s')"
  shows "destroyed (enet_calls s') = destroyed (enet_calls s) @ received events"
proof -
  obtain s1 where "run_events (bus_step e) events s = (Inr (), s1)" and "s' = poll_host s1"
    using assms by (auto simp: bus_process_run split: prod.splits sum.splits)
  then show ?thesis using run_destroyed by (simp add: poll_host_def)
qed

text \<open>C14: The publish branch: the payload goes, unchanged and under the same key, to exactly the
  connected clients that are subscribed to the key and are not the sender, once each and in
  connection order; apart from the ENet calls, the log and the packet buffer nothing changes.\<close>

theorem publish_fanout:
  assumes "net_inv s" and "deref s p = Some c"
    and "Message_ctor e d = Inr msg" and "Header_type (Message_header msg) = Type_publish"
  defines "k \<equiv> Header_topic_key e (Message_header msg)"
  defines "targets \<equiv> filter (\<lambda>(q, S). q \<noteq> cl_peer c \<and> k \<in> S) (sessions s)"
  shows "\<exists>s'. bus_on_message e p d s = (Inr (), s') \<and>
    sends (enet_calls s') = sends (enet_calls s) @
      map (\<lambda>(q, S). (q, fst (construct_fanout e Constructor_ctor k (Message_payload msg) Origin_server))) targets \<and>
    s' = s\<lparr>enet_calls := enet_calls s', m_log := m_log s', m_protocol_constructor := m_protocol_constructor s'\<rparr>"
proof -
  let ?b = "reply_bytes e (Fanout_of k (Message_payload msg))"
  let ?s1 = "log (Received_message (cl_id c) (Message_to_string e msg)) s"
  let ?s = "?s1\<lparr>m_protocol_constructor := (m_protocol_constructor s)\<lparr>m_buffer := ?b\<rparr>\<rparr>"
  have inv: "net_inv ?s" and c: "deref ?s p = Some c" using assms(1,2) by simp_all
  have "bus_on_message e p d s = on_publish e p msg ?s1"
    using assms(4) by (simp add: bus_on_message_long [OF assms(3,2)] Let_def enum_defs)
  also have "\<dots> = fanout_loop p k ?b (m_clients ?s) ?s"
    by (simp add: on_publish_def packet_factory_defs clients_def Let_def k_def)
  also note fanout_loop_result [OF c deref_live [OF inv]]
  finally show ?thesis
    using fanout_sends [OF inv c, of ?b e k "Message_payload msg"]
    by (simp add: on_wire_def o_def case_prod_beta targets_def log_def)
qed

text \<open>A server with three connected clients, two of them subscribed to key 1.\<close>

definition three_clients :: bus_server where
  "three_clients = example_server
     \<lparr>m_client_map := [1 \<mapsto> \<lparr>cl_id = 1, cl_peer = 4, cl_server = 0, cl_data = \<lparr>subscribed_topics = {1}\<rparr>\<rparr>,
        2 \<mapsto> \<lparr>cl_id = 2, cl_peer = 5, cl_server = 0, cl_data = \<lparr>subscribed_topics = {1, 9}\<rparr>\<rparr>,
        3 \<mapsto> \<lparr>cl_id = 3, cl_peer = 6, cl_server = 0, cl_data = \<lparr>subscribed_topics = {}\<rparr>\<rparr>],
      m_clients := [Some 1, Some 2, Some 3], m_next_client_id := 4,
      peer_data := (\<lambda>_. None)(4 := Some 1, 5 := Some 2, 6 := Some 3)\<rparr>"

lemma three_clients_inv: "net_inv three_clients"
  using example_start by (auto simp: three_clients_def net_inv_def)

theorem publish_fanout_witness:
  "\<exists>s'. bus_on_message Big (Some 1) (fst (construct_publish Big Constructor_ctor 1 [42] Origin_client)) three_clients = (Inr (), s') \<and>
     sends (enet_calls s') = [(5, fst (construct_fanout Big Constructor_ctor 1 [42] Origin_server))]"
proof -
  let ?msg = "\<lparr>m_header = Header_publish Big 1 Origin_client, m_payload = [42], m_topic = []\<rparr>"
  have p: "Message_ctor Big (fst (construct_publish Big Constructor_ctor 1 [42] Origin_client)) = Inr ?msg"
    by (simp add: packet_factory_defs)
  have t: "Header_type (Message_header ?msg) = Type_publish"
    by (simp add: Message_header_def header_factory_defs)
  have c: "deref three_clients (Some 1) = Some \<lparr>cl_id = 1, cl_peer = 4, cl_server = 0, cl_data = \<lparr>subscribed_topics = {1}\<rparr>\<rparr>"
    by (simp add: three_clients_def deref_def)
  have k: "Header_topic_key Big (Message_header ?msg) = 1"
    by (simp add: Message_header_def header_factory_defs)
  have "sessions three_clients = [(4, {1}), (5, {1, 9}), (6, {})]"
    by (simp add: sessions_def session_def deref_def three_clients_def)
  moreover have "sends (enet_calls three_clients) = []"
    using example_start by (simp add: three_clients_def)
  ultimately show ?thesis
    using publish_fanout [OF three_clients_inv c p t] unfolding k
    by (auto simp: Message_payload_def simp del: construct_simp)
qed

lemma show_nat_16: "show_nat 16 = ''16''"
  by (simp add: show_nat.simps digit_char_def char_of_def bit_0)

text \<open>C30: A packet shorter than the header, and a packet whose type the server does not handle, change
  nothing but the log: no reply, no subscription, no topic. The log gets the documented warning.\<close>

theorem malformed_and_unhandled_ignored:
  assumes "deref s p = Some c"
    and "length d < 16 \<or> (\<exists>msg. Message_ctor e d = Inr msg \<and>
      Header_type (Message_header msg) \<notin> {Type_topic_request, Type_subscribe, Type_unsubscribe, Type_publish})"
  shows "\<exists>entry. bus_on_message e p d s = (Inr (), s\<lparr>m_log := m_log s @ entry\<rparr>) \<and>
    entry \<noteq> [] \<and> log_level (last entry) = Warning \<and> (length d < 16 \<longrightarrow>
      map log_text entry = [''Ignoring malformed packet from client '' @ to_string_u64 (cl_id c) @
        '': expected at least 16 bytes, got '' @ show_nat (length d)])"
proof (cases "length d < 16")
  case True
  with assms(1) show ?thesis
    by (intro exI [where x = "[Ignoring_malformed (cl_id c) 16 (length d)]"])
      (simp add: bus_on_message_short sizeof_Header_def log_def show_nat_16)
next
  case False
  with assms(2) obtain msg where msg: "Message_ctor e d = Inr msg"
    and t: "Header_type (Message_header msg) \<notin> {Type_topic_request, Type_subscribe, Type_unsubscribe, Type_publish}"
    by blast
  with False assms(1) show ?thesis
    by (intro exI [where x = "[Received_message (cl_id c) (Message_to_string e msg),
          Unhandled_type (to_string_Type (Header_type (Message_header msg)))]"])
      (simp add: bus_on_message_long [OF msg] log_def Let_def)
qed

theorem malformed_and_unhandled_ignored_witness:
  "\<exists>entry. bus_on_message Little (Some 1) [1, 2, 3] three_clients =
     (Inr (), three_clients\<lparr>m_log := m_log three_clients @ entry\<rparr>) \<and>
     map log_text entry = [''Ignoring malformed packet from client 1: expected at least 16 bytes, got 3'']"
proof -
  have c: "deref three_clients (Some 1) = Some \<lparr>cl_id = 1, cl_peer = 4, cl_server = 0, cl_data = \<lparr>subscribed_topics = {1}\<rparr>\<rparr>"
    by (simp add: three_clients_def deref_def)
  show ?thesis
    using malformed_and_unhandled_ignored [OF c, of "[1, 2, 3]" Little]
    by (auto simp: to_string_u64_def show_nat.simps digit_char_def char_of_def bit_0)
qed

text \<open>C31: Starting a server succeeds exactly for a port between 0 and 65535 on which ENet creates a host. It then has no clients and no topics, and ENet
  was asked once, for the whole port number on any interface. Every other port is refused with the documented message, and a failure of
  ENet is reported as such; nothing else is thrown.\<close>

theorem server_start:
  "((\<exists>s. fst (bus_server_ctor quill port host lg) = Inr s) \<longleftrightarrow> 0 \<le> port \<and> port \<le> 65535 \<and> host \<noteq> None) \<and>
   (\<forall>s. fst (bus_server_ctor quill port host lg) = Inr s \<longrightarrow>
      bus_abs s empty_broker \<and> uint (addr_port (m_address s)) = port \<and> addr_host (m_address s) = Some ENET_HOST_ANY \<and>
      host = Some (m_server s) \<and> enet_calls s = [Host_create (Some (m_address s)) 8 2]) \<and>
   (\<forall>err. fst (bus_server_ctor quill port host lg) = Inl err \<longleftrightarrow>
      (port < 0 \<or> 65535 < port) \<and> err = Out_of_range (''Server port must be between 0 and 65535: '' @ to_string_int port) \<or>
      0 \<le> port \<and> port \<le> 65535 \<and> host = None \<and> err = Runtime_error ''Failed to create ENet server'')"
proof -
  have max: "to_string_int uint16_max = ''65535''"
    by (simp add: to_string_int_def uint16_max_def show_nat.simps digit_char_def char_of_def bit_0)
  have "uint (addr_port (m_address s)) = port" if "fst (bus_server_ctor quill port host lg) = Inr s" for s
    using bus_server_ctor_Inr [OF that] by (simp add: uint16_max_def uint_word_of_int_eq take_bit_int_eq_self)
  moreover have "addr_host (m_address s) = Some ENET_HOST_ANY" if "fst (bus_server_ctor quill port host lg) = Inr s" for s
    using that by (auto simp: bus_server_ctor_def Server_ctor_def Let_def net_server.defs split: if_splits option.splits prod.splits)
  moreover have "(\<exists>s. fst (bus_server_ctor quill port host lg) = Inr s) \<longleftrightarrow> 0 \<le> port \<and> port \<le> 65535 \<and> host \<noteq> None"
    using bus_server_ctor_Inr [of quill port host lg]
    by (auto simp: uint16_max_def elim!: bus_server_ctor_starts [of port quill _ lg])
  moreover have "fst (bus_server_ctor quill port host lg) = Inl err \<longleftrightarrow>
      (port < 0 \<or> 65535 < port) \<and> err = Out_of_range (''Server port must be between 0 and 65535: '' @ to_string_int port) \<or>
      0 \<le> port \<and> port \<le> 65535 \<and> host = None \<and> err = Runtime_error ''Failed to create ENet server''" for err
    using max by (auto simp: bus_server_ctor_def Server_ctor_def uint16_max_def Let_def split: option.splits prod.splits)
  ultimately show ?thesis using bus_server_ctor_Inr [of quill port host lg] by (intro conjI allI impI) blast+
qed

theorem server_start_witness:
  "(\<forall>s. fst (bus_server_ctor first_request 70000 (Some 0) logging_start) \<noteq> Inr s) \<and>
   (\<exists>s. fst (bus_server_ctor first_request 6767 (Some 0) logging_start) = Inr s \<and> uint (addr_port (m_address s)) = 6767)"
  using server_start [of first_request 70000 "Some 0" logging_start] server_start [of first_request 6767 "Some 0" logging_start]
  by auto

end
