(* ===== verification/Net_Client.thy ===== *)
theory Net_Client
  imports ENet_Boundary Cpp_Strings
begin

text \<open>
  The low-level client, \<^verbatim>\<open>include/spraybus/networking/client/client.hpp\<close>: the RAII wrapper
  \<^verbatim>\<open>Packet\<close> and the connection \<^verbatim>\<open>Client\<close>.

  A wrapper holds a packet pointer, null as \<open>None\<close>. Its special member functions are value-level
  definitions that return the ENet calls they make. \<open>wrapper_step\<close> lifts them to a store of
  wrappers at addresses, where self-assignment and aliasing are visible; the interface
  \<open>safe_machine\<close> of the prelude is interpreted on it with unique ownership as the invariant.

  The result of every ENet call is an argument: the host or null, the peer or null, and for
  \<^verbatim>\<open>enet_host_service\<close> the reported event, \<open>None\<close> when it returns zero or an error. The buffer
  \<^verbatim>\<open>m_event\<close> is read only right after a call that wrote it, so it is no part of the state. The
  calls a member function makes are returned next to its result.
\<close>

section \<open>The packet wrapper\<close>

record Packet =
  m_packet :: "ENetPacket option"

definition Packet_ctor :: "ENetPacket option \<Rightarrow> Packet" where
  "Packet_ctor packet = \<lparr>m_packet = packet\<rparr>"

definition Packet_default :: Packet where
  "Packet_default = \<lparr>m_packet = None\<rparr>"

definition enet_packet_destroy :: "ENetPacket option \<Rightarrow> enet_call list" where
  "enet_packet_destroy p = (case p of None \<Rightarrow> [] | Some q \<Rightarrow> [Packet_destroy (packet_ptr q)])"

text \<open>The move constructor: the new wrapper and what is left of the old one.\<close>

definition Packet_move :: "Packet \<Rightarrow> Packet \<times> Packet" where
  "Packet_move other = (\<lparr>m_packet = m_packet other\<rparr>, other\<lparr>m_packet := None\<rparr>)"

text \<open>
  The body of the move assignment for two different objects: both objects afterwards and the calls.
\<close>

definition Packet_move_assign :: "Packet \<Rightarrow> Packet \<Rightarrow> Packet \<times> Packet \<times> enet_call list" where
  "Packet_move_assign this other =
     (this\<lparr>m_packet := m_packet other\<rparr>, other\<lparr>m_packet := None\<rparr>, enet_packet_destroy (m_packet this))"

definition Packet_dtor :: "Packet \<Rightarrow> enet_call list" where
  "Packet_dtor packet = enet_packet_destroy (m_packet packet)"

definition Packet_data :: "Packet \<Rightarrow> cpp_error + bytes" where
  "Packet_data packet =
     (case m_packet packet of None \<Rightarrow> Inl Undefined_behaviour | Some q \<Rightarrow> Inr (packet_data q))"

section \<open>The connection\<close>

record net_client =
  mc_client :: ENetHost
  mc_address :: ENetAddress
  mc_peer :: ENetPeer

text \<open>What ENet answers while a client is constructed.\<close>

record connect_results =
  res_host :: "ENetHost option"                \<comment> \<open>\<^verbatim>\<open>enet_host_create\<close>\<close>
  res_address :: "string \<Rightarrow> u32 option"        \<comment> \<open>\<^verbatim>\<open>enet_address_set_host\<close>, \<open>None\<close> on failure\<close>
  res_peer :: "ENetPeer option"                \<comment> \<open>\<^verbatim>\<open>enet_host_connect\<close>\<close>
  res_event :: "ENetEvent option"              \<comment> \<open>\<^verbatim>\<open>enet_host_service\<close>\<close>

fun is_connect :: "ENetEvent option \<Rightarrow> bool" where
  "is_connect (Some (ENET_EVENT_TYPE_CONNECT _)) = True"
| "is_connect _ = False"

text \<open>
  The constructor. The result of the name lookup is not checked, and a throwing constructor does
  not run the destructor, so the ENet host stays.
\<close>

definition net_client_ctor ::
    "connect_results \<Rightarrow> string \<Rightarrow> u16 \<Rightarrow> (cpp_error + net_client) \<times> enet_call list" where
  "net_client_ctor res host port =
     (let calls = [Host_create None 1 2]
      in case res_host res of
           None \<Rightarrow> (Inl (Runtime_error ''An error occurred while trying to create an ENet client host.''), calls)
         | Some client \<Rightarrow>
             (let calls = calls @ [Address_set_host (c_str host)];
                  address = \<lparr>addr_host = res_address res (c_str host), addr_port = port\<rparr>;
                  calls = calls @ [Host_connect client address 2]
              in case res_peer res of
                   None \<Rightarrow> (Inl (Runtime_error ''No available peers for initiating an ENet connection.''), calls)
                 | Some peer \<Rightarrow>
                     (let calls = calls @ [Host_service client 5000]
                      in if \<not> is_connect (res_event res) then
                           (Inl (Runtime_error ''Connection to localhost:6767 failed.''), calls @ [Peer_reset peer])
                         else
                           (Inr \<lparr>mc_client = client, mc_address = address, mc_peer = peer\<rparr>, calls))))"

text \<open>The loop of the destructor; \<open>events\<close> as for the loop of the server.\<close>

fun net_client_drain :: "ENetHost \<Rightarrow> ENetEvent list \<Rightarrow> enet_call list" where
  "net_client_drain client [] = [Host_service client 3000]"
| "net_client_drain client (event # events) =
     Host_service client 3000 #
     (case event of
        ENET_EVENT_TYPE_DISCONNECT _ \<Rightarrow> []
      | ENET_EVENT_TYPE_RECEIVE _ packet \<Rightarrow>
          Packet_destroy (packet_ptr packet) # net_client_drain client events
      | _ \<Rightarrow> net_client_drain client events)"

definition net_client_dtor :: "net_client \<Rightarrow> ENetEvent list \<Rightarrow> enet_call list" where
  "net_client_dtor c events =
     [Peer_disconnect (mc_peer c)] @ net_client_drain (mc_client c) events @ [Host_destroy (mc_client c)]"

text \<open>
  \<^verbatim>\<open>process\<close>: the output packet is assigned from a temporary wrapper, which is destroyed at the end
  of the statement.
\<close>

definition net_client_process ::
    "net_client \<Rightarrow> ENetEvent option \<Rightarrow> Packet \<Rightarrow> (cpp_error + bool) \<times> Packet \<times> enet_call list" where
  "net_client_process c event packet =
     (let calls = [Host_service (mc_client c) 0]
      in case event of
           Some (ENET_EVENT_TYPE_RECEIVE _ q) \<Rightarrow>
             (let temporary = Packet_ctor (Some q);
                  (packet, temporary, freed) = Packet_move_assign packet temporary
              in (Inr True, packet, calls @ freed @ Packet_dtor temporary))
         | Some (ENET_EVENT_TYPE_DISCONNECT _) \<Rightarrow> (Inl (Runtime_error ''Disconnected from server.''), packet, calls)
         | _ \<Rightarrow> (Inr False, packet, calls))"

definition net_client_recv ::
    "net_client \<Rightarrow> u32 \<Rightarrow> ENetEvent option \<Rightarrow> (cpp_error + Packet) \<times> enet_call list" where
  "net_client_recv c timeout_ms event =
     (let calls = [Host_service (mc_client c) (unat timeout_ms)]
      in case event of
           Some (ENET_EVENT_TYPE_RECEIVE _ q) \<Rightarrow> (Inr (Packet_ctor (Some q)), calls)
         | Some (ENET_EVENT_TYPE_DISCONNECT _) \<Rightarrow> (Inl (Runtime_error ''Disconnected from server.''), calls)
         | _ \<Rightarrow> (Inl (Runtime_error ''Timeout while waiting for packet.''), calls))"

definition recv_default_timeout :: u32 where
  "recv_default_timeout = 1000"

definition net_client_send :: "net_client \<Rightarrow> bytes \<Rightarrow> enet_call list" where
  "net_client_send c data =
     [Packet_create data ENET_PACKET_FLAG_RELIABLE, Peer_send (mc_peer c) 0 data, Host_flush (mc_client c)]"

section \<open>Ownership of received packets\<close>

text \<open>
  A program that uses wrappers: it takes packets from ENet into fresh wrappers, moves them around
  and destroys wrappers. \<open>taken\<close> lists the packets taken so far. The store makes \<^verbatim>\<open>this != &other\<close>
  of the move assignment a comparison of addresses.
\<close>

datatype wrapper_op =
    Take nat ENetPacket
  | Make_empty nat
  | Move_construct nat nat
  | Move_assign nat nat
  | Destruct nat

record wrapper_store =
  wrappers :: "nat \<rightharpoonup> Packet"
  taken :: "nat list"
  wrapper_calls :: "enet_call list"

definition empty_store :: wrapper_store where
  "empty_store = \<lparr>wrappers = Map.empty, taken = [], wrapper_calls = []\<rparr>"

fun wrapper_step :: "wrapper_op \<Rightarrow> wrapper_store \<Rightarrow> (cpp_error + unit) \<times> wrapper_store" where
  "wrapper_step (Take a q) h =
     (Inr (), h\<lparr>wrappers := (wrappers h)(a \<mapsto> Packet_ctor (Some q)), taken := taken h @ [packet_ptr q]\<rparr>)"
| "wrapper_step (Make_empty a) h = (Inr (), h\<lparr>wrappers := (wrappers h)(a \<mapsto> Packet_default)\<rparr>)"
| "wrapper_step (Move_construct a b) h =
     (case wrappers h b of
        None \<Rightarrow> (Inl Undefined_behaviour, h)
      | Some other \<Rightarrow>
          (let (this, other) = Packet_move other
           in (Inr (), h\<lparr>wrappers := (wrappers h)(b \<mapsto> other, a \<mapsto> this)\<rparr>)))"
| "wrapper_step (Move_assign a b) h =
     (case (wrappers h a, wrappers h b) of
        (Some this, Some other) \<Rightarrow>
          (if a \<noteq> b then
             (let (this, other, calls) = Packet_move_assign this other
              in (Inr (), h\<lparr>wrappers := (wrappers h)(a \<mapsto> this, b \<mapsto> other),
                            wrapper_calls := wrapper_calls h @ calls\<rparr>))
           else (Inr (), h))
      | _ \<Rightarrow> (Inl Undefined_behaviour, h))"
| "wrapper_step (Destruct a) h =
     (case wrappers h a of
        None \<Rightarrow> (Inl Undefined_behaviour, h)
      | Some packet \<Rightarrow>
          (Inr (), h\<lparr>wrappers := (wrappers h)(a := None),
                     wrapper_calls := wrapper_calls h @ Packet_dtor packet\<rparr>))"

text \<open>
  The guard: objects are constructed where none lives and used only while they live, which the
  language's scoping gives, and ENet reports every packet once.
\<close>

fun wrapper_guard :: "wrapper_store \<Rightarrow> wrapper_op \<Rightarrow> bool" where
  "wrapper_guard h (Take a q) = (wrappers h a = None \<and> packet_ptr q \<notin> set (taken h))"
| "wrapper_guard h (Make_empty a) = (wrappers h a = None)"
| "wrapper_guard h (Move_construct a b) = (wrappers h a = None \<and> wrappers h b \<noteq> None)"
| "wrapper_guard h (Move_assign a b) = (wrappers h a \<noteq> None \<and> wrappers h b \<noteq> None)"
| "wrapper_guard h (Destruct a) = (wrappers h a \<noteq> None)"

text \<open>The packet the wrapper at an address owns, if any.\<close>

definition owns :: "wrapper_store \<Rightarrow> nat \<Rightarrow> nat option" where
  "owns h a = map_option packet_ptr (Option.bind (wrappers h a) m_packet)"

definition uniquely :: "(nat \<rightharpoonup> nat) \<Rightarrow> nat list \<Rightarrow> nat list \<Rightarrow> bool" where
  "uniquely owner freed all \<longleftrightarrow>
     distinct freed \<and> distinct all \<and> set all = set freed \<union> ran owner \<and> set freed \<inter> ran owner = {} \<and>
     inj_on owner (dom owner)"

definition ownership :: "wrapper_store \<Rightarrow> bool" where
  "ownership h \<longleftrightarrow> uniquely (owns h) (destroyed (wrapper_calls h)) (taken h)"

lemmas packet_defs =
  Packet_ctor_def Packet_default_def Packet_move_def Packet_move_assign_def Packet_dtor_def
  enet_packet_destroy_def

text \<open>The effect of each operation on the owner function, from which the invariant follows.\<close>

lemma destroyed_enet_packet_destroy [simp]:
  "destroyed (enet_packet_destroy p) = (case p of None \<Rightarrow> [] | Some q \<Rightarrow> [packet_ptr q])"
  by (simp add: enet_packet_destroy_def split: option.split)

definition release :: "nat option \<Rightarrow> nat list" where
  "release p = (case p of None \<Rightarrow> [] | Some q \<Rightarrow> [q])"

lemma wrapper_step_owns:
  assumes "wrapper_guard h op" and "wrapper_step op h = (r, h')"
  shows "r = Inr () \<and>
    (case op of
       Take a q \<Rightarrow> owns h a = None \<and> owns h' = (owns h)(a \<mapsto> packet_ptr q) \<and>
         destroyed (wrapper_calls h') = destroyed (wrapper_calls h) \<and> taken h' = taken h @ [packet_ptr q]
     | Make_empty a \<Rightarrow> owns h' = owns h \<and>
         destroyed (wrapper_calls h') = destroyed (wrapper_calls h) \<and> taken h' = taken h
     | Move_construct a b \<Rightarrow> owns h a = None \<and> owns h' = (owns h)(b := None, a := owns h b) \<and>
         destroyed (wrapper_calls h') = destroyed (wrapper_calls h) \<and> taken h' = taken h
     | Move_assign a b \<Rightarrow> taken h' = taken h \<and>
         (if a = b then h' = h
          else owns h' = (owns h)(a := owns h b, b := None) \<and>
            destroyed (wrapper_calls h') = destroyed (wrapper_calls h) @ release (owns h a))
     | Destruct a \<Rightarrow> taken h' = taken h \<and> owns h' = (owns h)(a := None) \<and>
         destroyed (wrapper_calls h') = destroyed (wrapper_calls h) @ release (owns h a))"
  using assms
  by (cases op) (auto simp: owns_def release_def packet_defs fun_eq_iff Let_def split: option.splits)

lemma inj_owner_iff:
  "inj_on owner (dom owner) \<longleftrightarrow> (\<forall>a b p. owner a = Some p \<longrightarrow> owner b = Some p \<longrightarrow> a = b)"
  unfolding inj_on_def dom_def by auto

lemma uniquely_take:
  assumes "uniquely owner freed all" and a: "owner a = None" and p: "p \<notin> set all"
  shows "uniquely (owner(a \<mapsto> p)) freed (all @ [p])"
proof -
  have "p \<notin> ran owner" using assms by (auto simp: uniquely_def)
  then have "inj_on (owner(a \<mapsto> p)) (dom (owner(a \<mapsto> p)))"
    using assms(1) unfolding uniquely_def inj_owner_iff by (auto simp: ran_def)
  with assms show ?thesis
    by (auto simp: uniquely_def ran_map_upd)
qed

lemma uniquely_move:
  assumes "uniquely owner freed all" and "owner a = None"
  shows "uniquely (owner(b := None, a := owner b)) freed all"
proof -
  have "ran (owner(b := None, a := owner b)) = ran owner"
  proof (intro subset_antisym subsetI)
    fix p
    assume "p \<in> ran owner"
    then obtain c where c: "owner c = Some p" by (auto simp: ran_def)
    with assms(2) have "(owner(b := None, a := owner b)) (if c = b then a else c) = Some p" by auto
    then show "p \<in> ran (owner(b := None, a := owner b))" by (rule ranI)
  qed (auto simp: ran_def split: if_splits)
  moreover have "inj_on (owner(b := None, a := owner b)) (dom (owner(b := None, a := owner b)))"
    using assms unfolding uniquely_def inj_owner_iff by (auto split: if_splits)
  ultimately show ?thesis
    using assms(1) by (simp add: uniquely_def)
qed

lemma uniquely_drop:
  assumes "uniquely owner freed all"
  shows "uniquely (owner(a := None)) (freed @ release (owner a)) all"
proof (cases "owner a")
  case None
  then have "owner(a := None) = owner" by auto
  with None assms show ?thesis by (simp add: release_def)
next
  case (Some p)
  have inj: "owner b = Some p \<longleftrightarrow> b = a" for b
    using assms Some unfolding uniquely_def inj_owner_iff by blast
  have "ran (owner(a := None)) = ran owner - {p}"
    by (auto simp: ran_def) (metis inj, metis Some option.inject)
  moreover have "p \<in> ran owner" using Some by (rule ranI)
  moreover have "inj_on (owner(a := None)) (dom (owner(a := None)))"
    using assms unfolding uniquely_def inj_owner_iff by simp
  ultimately show ?thesis
    using assms Some by (auto simp: uniquely_def release_def)
qed

lemma uniquely_assign:
  assumes "uniquely owner freed all" and "a \<noteq> b"
  shows "uniquely (owner(a := owner b, b := None)) (freed @ release (owner a)) all"
  using uniquely_move [OF uniquely_drop [OF assms(1), of a], of a b] assms(2)
  by (simp add: fun_upd_twist)

lemma ownership_step:
  assumes "ownership h" and g: "wrapper_guard h op" and "wrapper_step op h = (r, h')"
  shows "ownership h'"
  using wrapper_step_owns [OF g assms(3)] assms(1) g unfolding ownership_def
  by (cases op) (auto intro: uniquely_take uniquely_move uniquely_drop uniquely_assign split: if_splits)

interpretation packets: safe_machine wrapper_step wrapper_guard ownership
proof
  fix h h' op r
  assume "ownership h" and "wrapper_guard h op" and "wrapper_step op h = (r, h')"
  then show "ownership h'" by (rule ownership_step)
next
  fix h op
  assume "wrapper_guard h op"
  then show "fst (wrapper_step op h) \<noteq> Inl Undefined_behaviour"
    using wrapper_step_owns [of h op] by (cases "wrapper_step op h") auto
qed

lemma ownership_empty: "ownership empty_store"
  by (simp add: ownership_def empty_store_def owns_def [abs_def] uniquely_def)

lemma ownership_empty_heap:
  "\<lbrakk>ownership h; wrappers h = Map.empty\<rbrakk> \<Longrightarrow>
   distinct (taken h) \<and> distinct (destroyed (wrapper_calls h)) \<and>
   set (destroyed (wrapper_calls h)) = set (taken h)"
  by (simp add: ownership_def owns_def [abs_def] uniquely_def)

text \<open>C27: Unique ownership of received packets: a program that constructs, moves, assigns (also to
  itself) and destroys wrappers never has two wrappers for one packet, never destroys a packet
  twice and never keeps a wrapper for a destroyed packet; once all its wrappers are gone, every packet
  it took has been destroyed exactly once.\<close>

theorem packets_destroyed_once:
  assumes "guarded_run wrapper_step wrapper_guard ops empty_store"
    and "run_events wrapper_step ops empty_store = (r, h)"
  shows "r \<noteq> Inl Undefined_behaviour \<and> ownership h \<and>
    (wrappers h = Map.empty \<longrightarrow>
       distinct (taken h) \<and> distinct (destroyed (wrapper_calls h)) \<and>
       set (destroyed (wrapper_calls h)) = set (taken h))"
proof -
  have inv: "ownership h"
    using packets.run_inv [OF ownership_empty assms] .
  have "r \<noteq> Inl Undefined_behaviour"
    using packets.run_defined [OF ownership_empty assms(1)] assms(2) by simp
  with inv show ?thesis
    by (simp add: ownership_empty_heap)
qed

definition wrapper_example :: "wrapper_op list" where
  "wrapper_example =
     [Make_empty 0, Take 1 \<lparr>packet_ptr = 7, packet_data = []\<rparr>, Move_assign 0 1, Destruct 1,
      Take 1 \<lparr>packet_ptr = 8, packet_data = []\<rparr>, Move_assign 0 1, Move_assign 0 0, Destruct 1,
      Move_construct 2 0, Destruct 0, Destruct 2]"

theorem packets_destroyed_once_witness:
  "run_events wrapper_step wrapper_example empty_store =
     (Inr (), \<lparr>wrappers = Map.empty, taken = [7, 8], wrapper_calls = [Packet_destroy 7, Packet_destroy 8]\<rparr>) \<and>
   ownership \<lparr>wrappers = Map.empty, taken = [7, 8], wrapper_calls = [Packet_destroy 7, Packet_destroy 8]\<rparr>"
proof -
  have g: "guarded_run wrapper_step wrapper_guard wrapper_example empty_store"
    by (simp add: wrapper_example_def empty_store_def packet_defs)
  have r: "run_events wrapper_step wrapper_example empty_store =
     (Inr (), \<lparr>wrappers = Map.empty, taken = [7, 8], wrapper_calls = [Packet_destroy 7, Packet_destroy 8]\<rparr>)"
    by (simp add: wrapper_example_def empty_store_def packet_defs fun_eq_iff)
  show ?thesis
    using r packets_destroyed_once [OF g r] by simp
qed

section \<open>Connecting and disconnecting\<close>

text \<open>The packets of the receive events up to the first disconnect event.\<close>

fun pending :: "ENetEvent list \<Rightarrow> nat list" where
  "pending [] = []"
| "pending (ENET_EVENT_TYPE_DISCONNECT _ # _) = []"
| "pending (ENET_EVENT_TYPE_RECEIVE _ q # events) = packet_ptr q # pending events"
| "pending (_ # events) = pending events"

lemma drain_calls [simp]:
  "destroyed (net_client_drain h events) = pending events"
  "destroyed_hosts (net_client_drain h events) = []"
  "sends (net_client_drain h events) = []"
  by (induction events rule: pending.induct) simp_all

lemma dtor_calls [simp]:
  "destroyed (net_client_dtor c events) = pending events"
  "sends (net_client_dtor c events) = []"
  by (simp_all add: net_client_dtor_def)

lemma send_calls [simp]:
  "sends (net_client_send c d) = [(mc_peer c, d)]"
  "destroyed (net_client_send c d) = []"
  by (simp_all add: net_client_send_def)

lemma ctor_calls [simp]:
  "sends (snd (net_client_ctor res host port)) = []"
  "destroyed (snd (net_client_ctor res host port)) = []"
  "destroyed_hosts (snd (net_client_ctor res host port)) = []"
  by (simp_all add: net_client_ctor_def Let_def split: option.split)

lemma recv_calls [simp]:
  "snd (net_client_recv c timeout event) = [Host_service (mc_client c) (unat timeout)]"
  by (simp add: net_client_recv_def Let_def split: option.split ENetEvent.split)

lemma net_client_ctor_Inr_iff:
  "fst (net_client_ctor res host port) = Inr c \<longleftrightarrow>
     res_host res = Some (mc_client c) \<and> res_peer res = Some (mc_peer c) \<and> is_connect (res_event res) \<and>
     mc_address c = \<lparr>addr_host = res_address res (c_str host), addr_port = port\<rparr>"
  by (cases c) (auto simp: net_client_ctor_def Let_def split: option.split)

text \<open>A constructor that throws has created a host in every case but the first and destroys it in
  none; the message of a failed handshake names \<^verbatim>\<open>localhost:6767\<close> whatever host and port were asked
  for.\<close>

lemma failed_connect:
  assumes "net_client_ctor res host port = (Inl err, calls)"
  shows "destroyed_hosts calls = [] \<and>
    err = Runtime_error
      (if res_host res = None then ''An error occurred while trying to create an ENet client host.''
       else if res_peer res = None then ''No available peers for initiating an ENet connection.''
       else ''Connection to localhost:6767 failed.'')"
  using assms ctor_calls(3) [of res host port]
  by (auto simp: net_client_ctor_def Let_def split: option.splits if_splits)

text \<open>The destructor first asks the peer to disconnect, destroys every packet that arrives before
  the disconnect event exactly once, stops there, sends nothing, and destroys the host once, last.\<close>

lemma disconnect_releases:
  "hd (net_client_dtor c events) = Peer_disconnect (mc_peer c) \<and>
   destroyed (net_client_dtor c events) = pending events \<and>
   sends (net_client_dtor c events) = [] \<and>
   destroyed_hosts (net_client_dtor c events) = [mc_client c] \<and>
   last (net_client_dtor c events) = Host_destroy (mc_client c)"
  by (simp add: net_client_dtor_def)

end
