(* ===== verification/Bus_Client.thy ===== *)
theory Bus_Client
  imports Net_Client Protocol
begin

text \<open>
  The high-level client, \<^verbatim>\<open>include/spraybus/client/client.hpp\<close> and \<^verbatim>\<open>src/spraybus/client/client.cpp\<close>:
  topic resolution with a local cache, publishing, subscribing and polling for fanout messages.

  Topics are resolved over a temporary connection; \<open>topic_lookup\<close> collects what ENet answers on it.
  Locals are destroyed in the reverse order of their declaration, also when an exception leaves the
  function: the received packet first, the temporary client last. As on the server, the list of
  ENet calls is part of the state. The caller's callback of \<^verbatim>\<open>process\<close> is a function on the state
  it captures.
\<close>

section \<open>Model\<close>

record FanoutMessage =
  fm_topic_key :: u64
  fm_topic :: string
  fm_payload :: bytes

record bus_client =
  c_client :: net_client
  c_host :: string
  c_port :: u16
  c_protocol_constructor :: Constructor
  c_topic_map :: "string \<rightharpoonup> u64"
  c_inverse_topic_map :: "u64 \<rightharpoonup> string"
  c_calls :: "enet_call list"

record topic_lookup =
  tl_connect :: connect_results
  tl_recv :: "ENetEvent option"
  tl_drain :: "ENetEvent list"

definition emit :: "enet_call list \<Rightarrow> bus_client \<Rightarrow> bus_client" where
  "emit calls s = s\<lparr>c_calls := c_calls s @ calls\<rparr>"

definition bus_client_ctor :: "connect_results \<Rightarrow> string \<Rightarrow> u16 \<Rightarrow> (cpp_error + bus_client) \<times> enet_call list" where
  "bus_client_ctor res host port =
     (case net_client_ctor res host port of
        (Inl err, calls) \<Rightarrow> (Inl err, calls)
      | (Inr c, calls) \<Rightarrow>
          (Inr \<lparr>c_client = c, c_host = host, c_port = port, c_protocol_constructor = Constructor_ctor,
             c_topic_map = Map.empty, c_inverse_topic_map = Map.empty, c_calls = calls\<rparr>, calls))"

text \<open>\<^verbatim>\<open>get_topic_key\<close> from the construction of \<^verbatim>\<open>response\<close> on.\<close>

definition read_response :: "endian \<Rightarrow> Packet \<Rightarrow> bus_client \<Rightarrow> (cpp_error + u64) \<times> bus_client" where
  "read_response e packet s =
     (case Packet_data packet of
        Inl err \<Rightarrow> (Inl err, s)
      | Inr d \<Rightarrow>
          (case Message_ctor e d of
             Inl err \<Rightarrow> (Inl err, s)
           | Inr response \<Rightarrow>
               (if Header_type (Message_header response) = Type_topic_response then
                  (let topic_name = payload_as_string response;
                       topic_key = Header_topic_key e (Message_header response);
                       s = s\<lparr>c_topic_map := (c_topic_map s)(topic_name \<mapsto> topic_key)\<rparr>;
                       s = s\<lparr>c_inverse_topic_map := (c_inverse_topic_map s)(topic_key \<mapsto> topic_name)\<rparr>
                   in (Inr topic_key, s))
                else
                  (Inl (Runtime_error (''Unexpected response type: '' @
                     to_string_Type (Header_type (Message_header response)))), s))))"

definition get_topic_key :: "endian \<Rightarrow> topic_lookup \<Rightarrow> string \<Rightarrow> bus_client \<Rightarrow> (cpp_error + u64) \<times> bus_client" where
  "get_topic_key e net topic s =
     (case c_topic_map s topic of
        Some topic_key \<Rightarrow> (Inr topic_key, s)
      | None \<Rightarrow>
          (let (msg, builder) = construct_topic_request e (c_protocol_constructor s) topic Origin_client;
               s = s\<lparr>c_protocol_constructor := builder\<rparr>
           in case net_client_ctor (tl_connect net) (c_host s) (c_port s) of
                (Inl err, calls) \<Rightarrow> (Inl err, emit calls s)
              | (Inr temporary_client, calls) \<Rightarrow>
                  (let s = emit (calls @ net_client_send temporary_client msg) s
                   in case net_client_recv temporary_client recv_default_timeout (tl_recv net) of
                        (Inl err, calls) \<Rightarrow>
                          (Inl err, emit (calls @ net_client_dtor temporary_client (tl_drain net)) s)
                      | (Inr packet, calls) \<Rightarrow>
                          (case read_response e packet (emit calls s) of
                             (r, s) \<Rightarrow>
                               (r, emit (Packet_dtor packet @ net_client_dtor temporary_client (tl_drain net)) s)))))"

text \<open>The four overloads of \<^verbatim>\<open>publish\<close>.\<close>

definition publish_key :: "endian \<Rightarrow> u64 \<Rightarrow> bytes \<Rightarrow> bus_client \<Rightarrow> bus_client" where
  "publish_key e topic_key payload s =
     (let (msg, builder) = construct_publish e (c_protocol_constructor s) topic_key payload Origin_client;
          s = s\<lparr>c_protocol_constructor := builder\<rparr>
      in emit (net_client_send (c_client s) msg) s)"

definition publish :: "endian \<Rightarrow> topic_lookup \<Rightarrow> string \<Rightarrow> bytes \<Rightarrow> bus_client \<Rightarrow> (cpp_error + unit) \<times> bus_client" where
  "publish e net topic payload s =
     (case get_topic_key e net topic s of
        (Inl err, s) \<Rightarrow> (Inl err, s)
      | (Inr topic_key, s) \<Rightarrow>
          (let (msg, builder) = construct_publish e (c_protocol_constructor s) topic_key payload Origin_client;
               s = s\<lparr>c_protocol_constructor := builder\<rparr>
           in (Inr (), emit (net_client_send (c_client s) msg) s)))"

definition publish_string ::
    "endian \<Rightarrow> topic_lookup \<Rightarrow> string \<Rightarrow> string \<Rightarrow> bus_client \<Rightarrow> (cpp_error + unit) \<times> bus_client" where
  "publish_string e net topic payload s = publish e net topic (bytes_of_string payload) s"

definition publish_key_string :: "endian \<Rightarrow> u64 \<Rightarrow> string \<Rightarrow> bus_client \<Rightarrow> bus_client" where
  "publish_key_string e topic_key payload s = publish_key e topic_key (bytes_of_string payload) s"

definition subscribe :: "endian \<Rightarrow> topic_lookup \<Rightarrow> string \<Rightarrow> bus_client \<Rightarrow> (cpp_error + unit) \<times> bus_client" where
  "subscribe e net topic s =
     (case get_topic_key e net topic s of
        (Inl err, s) \<Rightarrow> (Inl err, s)
      | (Inr topic_key, s) \<Rightarrow>
          (let (msg, builder) = construct_subscribe e (c_protocol_constructor s) topic_key Origin_client;
               s = s\<lparr>c_protocol_constructor := builder\<rparr>
           in (Inr (), emit (net_client_send (c_client s) msg) s)))"

text \<open>\<^verbatim>\<open>process\<close> after a packet was received, up to the destruction of the packet.\<close>

definition deliver ::
    "endian \<Rightarrow> (Message \<Rightarrow> 'a \<Rightarrow> (cpp_error + unit) \<times> 'a) \<Rightarrow> Packet \<Rightarrow> bus_client \<Rightarrow> 'a \<Rightarrow> (cpp_error + unit) \<times> 'a" where
  "deliver e lambda packet s captured =
     (case Packet_data packet of
        Inl err \<Rightarrow> (Inl err, captured)
      | Inr d \<Rightarrow>
          (case Message_ctor e d of
             Inl err \<Rightarrow> (Inl err, captured)
           | Inr msg \<Rightarrow>
               (if Header_type (Message_header msg) = Type_fanout then
                  (let topic_name =
                         (case c_inverse_topic_map s (Header_topic_key e (Message_header msg)) of
                            None \<Rightarrow> ''unknown''
                          | Some name \<Rightarrow> name)
                   in lambda (set_topic topic_name msg) captured)
                else (Inr (), captured))))"

definition client_process ::
    "endian \<Rightarrow> ENetEvent option \<Rightarrow> (Message \<Rightarrow> 'a \<Rightarrow> (cpp_error + unit) \<times> 'a) \<Rightarrow> bus_client \<Rightarrow> 'a \<Rightarrow>
     (cpp_error + unit) \<times> bus_client \<times> 'a" where
  "client_process e event lambda s captured =
     (case net_client_process (c_client s) event Packet_default of
        (Inl err, packet, calls) \<Rightarrow> (Inl err, emit (calls @ Packet_dtor packet) s, captured)
      | (Inr False, packet, calls) \<Rightarrow> (Inr (), emit (calls @ Packet_dtor packet) s, captured)
      | (Inr True, packet, calls) \<Rightarrow>
          (case deliver e lambda packet s captured of
             (r, captured) \<Rightarrow> (r, emit (calls @ Packet_dtor packet) s, captured)))"

definition FanoutMessage_of :: "endian \<Rightarrow> Message \<Rightarrow> FanoutMessage" where
  "FanoutMessage_of e message =
     \<lparr>fm_topic_key = Header_topic_key e (Message_header message), fm_topic = Message_topic message,
      fm_payload = Message_payload message\<rparr>"

definition poll :: "endian \<Rightarrow> ENetEvent option \<Rightarrow> bus_client \<Rightarrow> (cpp_error + FanoutMessage option) \<times> bus_client" where
  "poll e event s =
     (case client_process e event (\<lambda>message _. (Inr (), Some (FanoutMessage_of e message))) s None of
        (Inl err, s, _) \<Rightarrow> (Inl err, s)
      | (Inr _, s, fanout) \<Rightarrow> (Inr fanout, s))"

text \<open>The implicit destructor: of the members only the connection has an effect.\<close>

definition bus_client_dtor :: "ENetEvent list \<Rightarrow> bus_client \<Rightarrow> bus_client" where
  "bus_client_dtor events s = emit (net_client_dtor (c_client s) events) s"

section \<open>What the operations do\<close>

lemma emit_simps [simp]:
  "emit cs (emit ds s) = emit (ds @ cs) s"
  "c_calls (emit cs s) = c_calls s @ cs"
  "c_client (emit cs s) = c_client s"
  "c_host (emit cs s) = c_host s"
  "c_port (emit cs s) = c_port s"
  "c_protocol_constructor (emit cs s) = c_protocol_constructor s"
  "c_topic_map (emit cs s) = c_topic_map s"
  "c_inverse_topic_map (emit cs s) = c_inverse_topic_map s"
  "emit [] s = s"
  by (simp_all add: emit_def)

text \<open>The answer that a lookup gets: the name and key of a topic response, or the exception.\<close>

definition lookup_answer :: "endian \<Rightarrow> topic_lookup \<Rightarrow> cpp_error + string \<times> u64" where
  "lookup_answer e net =
     (case tl_recv net of
        Some (ENET_EVENT_TYPE_RECEIVE _ q) \<Rightarrow>
          (case packet_view e (packet_data q) of
             Inl err \<Rightarrow> Inl err
           | Inr (t, _, k, p) \<Rightarrow>
               (if t = Type_topic_response then Inr (string_of_bytes p, k)
                else Inl (Runtime_error (''Unexpected response type: '' @ to_string_Type t))))
      | Some (ENET_EVENT_TYPE_DISCONNECT _) \<Rightarrow> Inl (Runtime_error ''Disconnected from server.'')
      | _ \<Rightarrow> Inl (Runtime_error ''Timeout while waiting for packet.''))"

fun received_packet :: "ENetEvent option \<Rightarrow> nat list" where
  "received_packet (Some (ENET_EVENT_TYPE_RECEIVE _ q)) = [packet_ptr q]"
| "received_packet _ = []"

text \<open>The calls a lookup makes on its temporary connection.\<close>

definition lookup_calls :: "endian \<Rightarrow> topic_lookup \<Rightarrow> string \<Rightarrow> net_client \<Rightarrow> enet_call list" where
  "lookup_calls e net topic tmp =
     net_client_send tmp (fst (construct_topic_request e Constructor_ctor topic Origin_client)) @
     [Host_service (mc_client tmp) 1000] @ map Packet_destroy (received_packet (tl_recv net)) @
     net_client_dtor tmp (tl_drain net)"

definition learn :: "string \<times> u64 \<Rightarrow> bus_client \<Rightarrow> bus_client" where
  "learn nk s = s\<lparr>c_topic_map := (c_topic_map s)(fst nk \<mapsto> snd nk),
                  c_inverse_topic_map := (c_inverse_topic_map s)(snd nk \<mapsto> fst nk)\<rparr>"

lemma learn_simps [simp]:
  "c_topic_map (learn nk s) = (c_topic_map s)(fst nk \<mapsto> snd nk)"
  "c_inverse_topic_map (learn nk s) = (c_inverse_topic_map s)(snd nk \<mapsto> fst nk)"
  "c_client (learn nk s) = c_client s"
  "c_calls (learn nk s) = c_calls s"
  "c_host (learn nk s) = c_host s"
  "c_port (learn nk s) = c_port s"
  by (simp_all add: learn_def)

lemmas lookup_defs =
  lookup_answer_def lookup_calls_def read_response_def Packet_data_def Packet_ctor_def Packet_dtor_def
  enet_packet_destroy_def packet_view_def recv_default_timeout_def learn_def emit_def
  payload_as_string_def Message_payload_def

text \<open>The complete behaviour of \<^verbatim>\<open>get_topic_key\<close> on a topic that is not cached.\<close>

lemma get_topic_key_uncached:
  assumes "c_topic_map s topic = None"
  shows "get_topic_key e net topic s =
    (let (req, builder) = construct_topic_request e (c_protocol_constructor s) topic Origin_client;
         s1 = s\<lparr>c_protocol_constructor := builder\<rparr>
     in case net_client_ctor (tl_connect net) (c_host s) (c_port s) of
          (Inl err, calls) \<Rightarrow> (Inl err, emit calls s1)
        | (Inr tmp, calls) \<Rightarrow>
            (case lookup_answer e net of
               Inl err \<Rightarrow> (Inl err, emit (calls @ lookup_calls e net topic tmp) s1)
             | Inr nk \<Rightarrow> (Inr (snd nk), emit (calls @ lookup_calls e net topic tmp) (learn nk s1))))"
proof (cases "net_client_ctor (tl_connect net) (c_host s) (c_port s)")
  case (Pair r calls)
  show ?thesis
  proof (cases r)
    case (Inl err)
    with Pair assms show ?thesis
      by (simp add: get_topic_key_def Let_def packet_factory_defs)
  next
    case (Inr tmp)
    note c = Pair [unfolded this]
    show ?thesis
    proof (cases "\<exists>p q. tl_recv net = Some (ENET_EVENT_TYPE_RECEIVE p q)")
      case True
      then obtain p q where q: "tl_recv net = Some (ENET_EVENT_TYPE_RECEIVE p q)" by blast
      show ?thesis
        using assms c q
        by (cases "Message_ctor e (packet_data q)")
          (simp_all add: get_topic_key_def Let_def packet_factory_defs net_client_recv_def lookup_defs)
    next
      case False
      then show ?thesis
        using assms c
        by (cases "tl_recv net"; cases "the (tl_recv net)")
          (simp_all add: get_topic_key_def Let_def packet_factory_defs net_client_recv_def lookup_defs)
    qed
  qed
qed

text \<open>The result of polling, read off the event.\<close>

definition poll_answer :: "endian \<Rightarrow> (u64 \<rightharpoonup> string) \<Rightarrow> ENetEvent option \<Rightarrow> cpp_error + FanoutMessage option" where
  "poll_answer e names event =
     (case event of
        Some (ENET_EVENT_TYPE_RECEIVE _ q) \<Rightarrow>
          (case packet_view e (packet_data q) of
             Inl err \<Rightarrow> Inl err
           | Inr (t, _, k, p) \<Rightarrow>
               Inr (if t = Type_fanout
                    then Some \<lparr>fm_topic_key = k, fm_topic = (case names k of None \<Rightarrow> ''unknown'' | Some n \<Rightarrow> n),
                               fm_payload = p\<rparr>
                    else None))
      | Some (ENET_EVENT_TYPE_DISCONNECT _) \<Rightarrow> Inl (Runtime_error ''Disconnected from server.'')
      | _ \<Rightarrow> Inr None)"

lemma poll_result:
  "poll e event s =
     (poll_answer e (c_inverse_topic_map s) event,
      emit (Host_service (mc_client (c_client s)) 0 # map Packet_destroy (received_packet event)) s)"
  by (auto simp: poll_def client_process_def net_client_process_def Let_def Packet_move_assign_def
      Packet_ctor_def Packet_default_def Packet_dtor_def enet_packet_destroy_def deliver_def Packet_data_def
      poll_answer_def packet_view_def FanoutMessage_of_def set_topic_def accessor_defs
      split: option.split ENetEvent.split sum.split)

lemma get_topic_key_cached:
  "c_topic_map s topic = Some k \<Longrightarrow> get_topic_key e net topic s = (Inr k, s)"
  by (simp add: get_topic_key_def)

lemma get_topic_key_connection [simp]:
  "get_topic_key e net topic s = (r, s') \<Longrightarrow>
   c_client s' = c_client s \<and> c_host s' = c_host s \<and> c_port s' = c_port s"
  by (cases "c_topic_map s topic")
    (auto simp: get_topic_key_cached get_topic_key_uncached Let_def packet_factory_defs
      split: prod.splits sum.splits)

lemma lookup_calls_simps [simp]:
  "sends (lookup_calls e net topic tmp) =
     [(mc_peer tmp, fst (construct_topic_request e Constructor_ctor topic Origin_client))]"
  "destroyed (lookup_calls e net topic tmp) = received_packet (tl_recv net) @ pending (tl_drain net)"
  "destroyed_hosts (lookup_calls e net topic tmp) = [mc_client tmp]"
  by (cases "tl_recv net" rule: received_packet.cases;
      simp add: lookup_calls_def net_client_send_def net_client_dtor_def)+

section \<open>Properties\<close>

text \<open>An ENet that accepts the connection and answers with the given packet.\<close>

definition example_connect :: connect_results where
  "example_connect = \<lparr>res_host = Some 20, res_address = (\<lambda>_. Some 0), res_peer = Some 30,
     res_event = Some (ENET_EVENT_TYPE_CONNECT 30)\<rparr>"

definition example_net :: "bytes \<Rightarrow> topic_lookup" where
  "example_net d = \<lparr>tl_connect = example_connect,
     tl_recv = Some (ENET_EVENT_TYPE_RECEIVE 30 \<lparr>packet_ptr = 77, packet_data = d\<rparr>), tl_drain = []\<rparr>"

definition example_client :: bus_client where
  "example_client = projr (fst (bus_client_ctor example_connect ''localhost'' 6767))"

lemma example_connected:
  "net_client_ctor example_connect h p =
     (Inr \<lparr>mc_client = 20, mc_address = \<lparr>addr_host = Some 0, addr_port = p\<rparr>, mc_peer = 30\<rparr>,
      [Host_create None 1 2, Address_set_host (c_str h),
       Host_connect 20 \<lparr>addr_host = Some 0, addr_port = p\<rparr> 2, Host_service 20 5000])"
  by (simp add: net_client_ctor_def example_connect_def Let_def)

lemma example_client_simps [simp]:
  "c_topic_map example_client = Map.empty"
  "c_inverse_topic_map example_client = Map.empty"
  "mc_peer (c_client example_client) = 30"
  "mc_client (c_client example_client) = 20"
  by (simp_all add: example_client_def bus_client_ctor_def example_connected)

lemma packet_view_response [simp]:
  "packet_view e' (fst (construct_topic_response e c k n Origin_server)) =
     Inr (Type_topic_response, Origin_server, k, bytes_of_string n)"
  by (simp add: packet_factory_defs header_factory_defs)

lemma packet_view_fanout [simp]:
  "packet_view e' (fst (construct_fanout e c k p Origin_server)) = Inr (Type_fanout, Origin_server, k, p)"
  by (simp add: packet_factory_defs header_factory_defs)

lemma get_topic_key_fails:
  assumes "get_topic_key e net topic s = (Inl err, s')"
  shows "c_topic_map s' = c_topic_map s \<and> c_inverse_topic_map s' = c_inverse_topic_map s"
proof (cases "c_topic_map s topic")
  case None
  with assms show ?thesis
    by (auto simp: get_topic_key_uncached Let_def packet_factory_defs split: prod.splits sum.splits)
qed (use assms in \<open>simp add: get_topic_key_cached\<close>)

text \<open>C28: Resolving a topic succeeds exactly when it is cached, or when the temporary connection comes up
  and the first packet within a second is a topic response; the key is that of the cache or of the response.
  Every failure is an exception that leaves both caches as they were.\<close>

theorem get_topic_key_outcome:
  assumes "get_topic_key e net topic s = (r, s')"
  shows "(r = Inr k \<longleftrightarrow>
      c_topic_map s topic = Some k \<or>
      c_topic_map s topic = None \<and> isl (fst (net_client_ctor (tl_connect net) (c_host s) (c_port s))) = False \<and>
        (\<exists>name. lookup_answer e net = Inr (name, k))) \<and>
    (isl r \<longrightarrow> c_topic_map s' = c_topic_map s \<and> c_inverse_topic_map s' = c_inverse_topic_map s)"
proof (cases "c_topic_map s topic")
  case None
  with assms show ?thesis
    by (auto simp: get_topic_key_uncached Let_def packet_factory_defs
        split: prod.splits sum.splits)
next
  case (Some k')
  with assms show ?thesis
    by (auto simp: get_topic_key_cached)
qed

theorem get_topic_key_outcome_witness:
  "fst (get_topic_key Little (example_net (fst (construct_topic_response Little Constructor_ctor 5 ''a'' Origin_server))) ''a'' example_client)
     = Inr 5"
proof -
  let ?net = "example_net (fst (construct_topic_response Little Constructor_ctor 5 ''a'' Origin_server))"
  obtain r s' where r: "get_topic_key Little ?net ''a'' example_client = (r, s')" by fastforce
  show ?thesis
    using get_topic_key_outcome [OF r, of 5] r
    by (simp add: example_net_def example_connected lookup_answer_def del: construct_simp)
qed

text \<open>A lookup that reaches the server sends exactly one packet, the topic request, and sends it over
  the temporary connection; it destroys every packet it received exactly once and then the temporary host,
  whether it returns or throws. A cached topic makes no ENet call at all.\<close>

lemma get_topic_key_resources:
  "\<exists>calls. c_calls (snd (get_topic_key e net topic s)) = c_calls s @ calls \<and>
    (case c_topic_map s topic of
       Some _ \<Rightarrow> calls = []
     | None \<Rightarrow>
         (case fst (net_client_ctor (tl_connect net) (c_host s) (c_port s)) of
            Inl _ \<Rightarrow> sends calls = [] \<and> destroyed calls = [] \<and> destroyed_hosts calls = []
          | Inr tmp \<Rightarrow>
              sends calls = [(mc_peer tmp, fst (construct_topic_request e Constructor_ctor topic Origin_client))] \<and>
              destroyed calls = received_packet (tl_recv net) @ pending (tl_drain net) \<and>
              destroyed_hosts calls = [mc_client tmp] \<and> last calls = Host_destroy (mc_client tmp)))"
proof (cases "c_topic_map s topic")
  case None
  obtain x calls where c: "net_client_ctor (tl_connect net) (c_host s) (c_port s) = (x, calls)" by fastforce
  note quiet = ctor_calls [of "tl_connect net" "c_host s" "c_port s", unfolded c]
  have l: "last (lookup_calls e net topic tmp) = Host_destroy (mc_client tmp)"
    and n: "lookup_calls e net topic tmp \<noteq> []" for tmp
    by (simp_all add: lookup_calls_def net_client_dtor_def)
  have "\<exists>tail. c_calls (snd (get_topic_key e net topic s)) = c_calls s @ calls @ tail \<and>
      tail = (case x of Inl _ \<Rightarrow> [] | Inr tmp \<Rightarrow> lookup_calls e net topic tmp)"
    using None c
    by (auto simp: get_topic_key_uncached Let_def packet_factory_defs split: sum.splits)
  with None c quiet l n show ?thesis
    by (cases x) (auto simp: packet_factory_defs)
next
  case (Some k')
  then show ?thesis
    by (simp add: get_topic_key_cached)
qed

text \<open>
  Publishing and subscribing as the caller sees them: resolve, then hand ENet one packet for the
  server.
\<close>

lemma publish_after_lookup:
  "publish e net topic payload s =
     (case get_topic_key e net topic s of
        (Inl err, s1) \<Rightarrow> (Inl err, s1)
      | (Inr k, s1) \<Rightarrow> (Inr (), publish_key e k payload s1))"
  by (simp add: publish_def publish_key_def Let_def split: prod.splits sum.splits)

lemma publish_key_calls [simp]:
  "sends (c_calls (publish_key e k payload s)) = sends (c_calls s) @
     [(mc_peer (c_client s), fst (construct_publish e Constructor_ctor k payload Origin_client))]"
  "c_topic_map (publish_key e k payload s) = c_topic_map s"
  "c_inverse_topic_map (publish_key e k payload s) = c_inverse_topic_map s"
  by (simp_all add: publish_key_def packet_factory_defs)

text \<open>A topic is resolved once: after a lookup whose response names the requested topic, every
  further lookup, over whatever network, returns the same key without a call to ENet, so that publishing
  and subscribing to the topic send exactly their own packet, to the server the client is connected to.\<close>

lemma resolved_topic_is_cached:
  assumes "get_topic_key e net topic s = (Inr k, s')"
    and "c_topic_map s topic = None \<longrightarrow> lookup_answer e net = Inr (topic, k)"
  shows "get_topic_key e net' topic s' = (Inr k, s') \<and>
    (\<exists>s''. publish e net' topic payload s' = (Inr (), s'') \<and>
      sends (c_calls s'') = sends (c_calls s') @
        [(mc_peer (c_client s), fst (construct_publish e Constructor_ctor k payload Origin_client))]) \<and>
    (\<exists>s''. subscribe e net' topic s' = (Inr (), s'') \<and>
      sends (c_calls s'') = sends (c_calls s') @
        [(mc_peer (c_client s), fst (construct_subscribe e Constructor_ctor k Origin_client))])"
proof -
  have "c_topic_map s' topic = Some k"
    using assms
    by (cases "c_topic_map s topic")
      (auto simp: get_topic_key_cached get_topic_key_uncached Let_def packet_factory_defs
        split: prod.splits sum.splits)
  then have again: "get_topic_key e n topic s' = (Inr k, s')" for n
    by (rule get_topic_key_cached)
  have "c_client s' = c_client s"
    using assms(1) by simp
  with again show ?thesis
    by (simp add: publish_after_lookup subscribe_def Let_def packet_factory_defs)
qed

text \<open>C29: Polling returns a message exactly when a fanout packet arrived, with the packet's key and payload
  and the cached name of the key or \<open>unknown\<close>; other packet types and an idle network give none; a disconnect
  and a packet shorter than a header raise exceptions. In every case one event is read, the received packet is
  destroyed exactly once, nothing is sent, and the caches stay.\<close>

theorem poll_outcome:
  "\<exists>calls. poll e event s = (poll_answer e (c_inverse_topic_map s) event, emit calls s) \<and>
     destroyed calls = received_packet event \<and> sends calls = [] \<and>
     (fst (poll e event s) = Inr (Some m) \<longleftrightarrow>
       (\<exists>p q org. event = Some (ENET_EVENT_TYPE_RECEIVE p q) \<and>
         packet_view e (packet_data q) = Inr (Type_fanout, org, fm_topic_key m, fm_payload m) \<and>
         fm_topic m = (case c_inverse_topic_map s (fm_topic_key m) of None \<Rightarrow> ''unknown'' | Some n \<Rightarrow> n)))"
proof -
  let ?calls = "Host_service (mc_client (c_client s)) 0 # map Packet_destroy (received_packet event)"
  have "destroyed ?calls = received_packet event \<and> sends ?calls = []"
    by (cases event rule: received_packet.cases) simp_all
  moreover have "poll_answer e (c_inverse_topic_map s) event = Inr (Some m) \<longleftrightarrow>
       (\<exists>p q org. event = Some (ENET_EVENT_TYPE_RECEIVE p q) \<and>
         packet_view e (packet_data q) = Inr (Type_fanout, org, fm_topic_key m, fm_payload m) \<and>
         fm_topic m = (case c_inverse_topic_map s (fm_topic_key m) of None \<Rightarrow> ''unknown'' | Some n \<Rightarrow> n))"
    by (cases m) (auto simp: poll_answer_def split: option.split ENetEvent.split sum.split)
  ultimately show ?thesis
    unfolding poll_result by auto
qed

end
