(* ===== verification/Process_Support.thy ===== *)
theory Process_Support
  imports ENet_Boundary Cpp_Strings
begin

text \<open>
  What the programs share around the client and the server: environment variables
  (\<^verbatim>\<open>include/spraybus/common/env.hpp\<close>), the run loop that a SIGINT ends
  (\<^verbatim>\<open>include/spraybus/common/interrupts.hpp\<close>) and the initialisation of ENet
  (\<^verbatim>\<open>src/spraybus/networking/networking.cpp\<close>).

  The environment is a map from names to values. The run loop may go on for ever, so it is a
  partial function into \<open>option\<close>: \<open>None\<close> is the run that does not return. When the signal arrives
  is an argument: \<open>sigint i\<close> says that the handler has run by the time the flag is read for the \<open>i\<close>-th
  time. The flag is part of the process state: the code never sets it again.
\<close>

section \<open>Environment variables\<close>

definition get_env_or :: "(string \<rightharpoonup> string) \<Rightarrow> string \<Rightarrow> string \<Rightarrow> string" where
  "get_env_or getenv name default_value =
     (case getenv (c_str name) of Some v \<Rightarrow> v | None \<Rightarrow> default_value)"

definition get_env_or_throw :: "(string \<rightharpoonup> string) \<Rightarrow> string \<Rightarrow> cpp_error + string" where
  "get_env_or_throw getenv name =
     (case getenv (c_str name) of
        Some v \<Rightarrow> Inr v
      | None \<Rightarrow> Inl (Runtime_error (''Missing required environment variable: '' @ name)))"

section \<open>Initialising ENet\<close>

text \<open>\<open>result\<close> is what \<^verbatim>\<open>enet_initialize\<close> returns.\<close>

definition init :: "int \<Rightarrow> (cpp_error + unit) \<times> enet_call list" where
  "init result =
     (if result \<noteq> 0 then (Inl (Runtime_error ''Failed to initialize ENet''), [Enet_initialize])
      else (Inr (), [Enet_initialize, Atexit_deinitialize]))"

section \<open>The run loop\<close>

definition sigint_handler :: "bool \<Rightarrow> bool" where
  "sigint_handler should_run = False"

text \<open>
  The flag as the \<open>i\<close>-th test of the loop reads it, and the loop from its \<open>i\<close>-th test on. The
  callback gets the number of the iteration, so that what it reads from outside can differ between
  iterations; it may throw.
\<close>

definition read_flag :: "(nat \<Rightarrow> bool) \<Rightarrow> nat \<Rightarrow> bool \<Rightarrow> bool" where
  "read_flag sigint i should_run = (if sigint i then sigint_handler should_run else should_run)"

partial_function (option) run_loop ::
    "(nat \<Rightarrow> bool) \<Rightarrow> (nat \<Rightarrow> 's \<Rightarrow> (cpp_error + unit) \<times> 's) \<Rightarrow> nat \<Rightarrow> bool \<Rightarrow> 's \<Rightarrow>
     ((cpp_error + unit) \<times> bool \<times> 's) option" where
  "run_loop sigint lambda i should_run s =
     (if read_flag sigint i should_run then
        (case lambda i s of
           (Inl err, s) \<Rightarrow> Some (Inl err, True, s)
         | (Inr _, s) \<Rightarrow> run_loop sigint lambda (Suc i) True s)
      else Some (Inr (), False, s))"

definition run_forever ::
    "(nat \<Rightarrow> bool) \<Rightarrow> (nat \<Rightarrow> 's \<Rightarrow> (cpp_error + unit) \<times> 's) \<Rightarrow> bool \<Rightarrow> 's \<Rightarrow>
     ((cpp_error + unit) \<times> bool \<times> 's) option" where
  "run_forever sigint lambda should_run s = run_loop sigint lambda 0 should_run s"

text \<open>The overload without a callback, which sleeps.\<close>

definition run_forever_sleeping :: "(nat \<Rightarrow> bool) \<Rightarrow> bool \<Rightarrow> ((cpp_error + unit) \<times> bool \<times> unit) option" where
  "run_forever_sleeping sigint should_run = run_loop sigint (\<lambda>_ s. (Inr (), s)) 0 should_run ()"

declare run_loop.simps [code]

lemma run_loop_step:
  "run_loop sigint lambda i True s =
     (if sigint i then Some (Inr (), False, s)
      else case lambda i s of
             (Inl err, s) \<Rightarrow> Some (Inl err, True, s)
           | (Inr _, s) \<Rightarrow> run_loop sigint lambda (Suc i) True s)"
  by (subst run_loop.simps) (simp add: read_flag_def sigint_handler_def)

lemma run_loop_stopped [simp]: "run_loop sigint lambda i False s = Some (Inr (), False, s)"
  by (subst run_loop.simps) (simp add: read_flag_def sigint_handler_def)

text \<open>Iterations that neither throw nor are interrupted can be skipped.\<close>

lemma run_loop_skip:
  "\<lbrakk>\<And>j. \<lbrakk>i \<le> j; j < i + n\<rbrakk> \<Longrightarrow> \<not> sigint j; run_events lambda [i..<i + n] s = (Inr (), s')\<rbrakk> \<Longrightarrow>
   run_loop sigint lambda i True s = run_loop sigint lambda (i + n) True s'"
proof (induction n arbitrary: i s)
  case (Suc n)
  have "[i..<i + Suc n] = i # [Suc i..<Suc i + n]" by (simp add: upt_rec)
  with Suc.prems(2) obtain s1 where s1: "lambda i s = (Inr (), s1)"
    and rest: "run_events lambda [Suc i..<Suc i + n] s1 = (Inr (), s')"
    by (auto split: prod.splits sum.splits)
  have "run_loop sigint lambda i True s = run_loop sigint lambda (Suc i) True s1"
    using Suc.prems(1) [of i] s1 by (subst run_loop_step) simp
  also have "\<dots> = run_loop sigint lambda (Suc i + n) True s'"
    using Suc.prems(1) rest by (intro Suc.IH) auto
  finally show ?case by simp
qed simp

lemma run_events_upt_Suc:
  "i \<le> n \<Longrightarrow> run_events lambda [i..<Suc n] s =
     (case run_events lambda [i..<n] s of (Inl err, s) \<Rightarrow> (Inl err, s) | (Inr _, s) \<Rightarrow>
        (case lambda n s of (Inl err, s) \<Rightarrow> (Inl err, s) | (Inr _, s) \<Rightarrow> (Inr (), s)))"
  by (simp add: run_events_append upt_Suc_append split: prod.split sum.split)

text \<open>How a run that returns came to its end.\<close>

definition ends_at :: "(nat \<Rightarrow> bool) \<Rightarrow> (nat \<Rightarrow> 's \<Rightarrow> (cpp_error + unit) \<times> 's) \<Rightarrow> 's \<Rightarrow> nat \<Rightarrow>
    (cpp_error + unit) \<times> bool \<times> 's \<Rightarrow> bool" where
  "ends_at sigint lambda s n result \<longleftrightarrow>
     (\<forall>m < n. \<not> sigint m) \<and>
     (\<exists>s1. run_events lambda [0..<n] s = (Inr (), s1) \<and>
        (if sigint n then result = (Inr (), False, s1)
         else \<exists>err s2. lambda n s1 = (Inl err, s2) \<and> result = (Inl err, True, s2)))"

lemma ends_at_returns:
  assumes "ends_at sigint lambda s n result"
  shows "run_forever sigint lambda True s = Some result"
proof -
  from assms obtain s1 where quiet: "\<And>m. m < n \<Longrightarrow> \<not> sigint m"
    and run: "run_events lambda [0..<0 + n] s = (Inr (), s1)"
    and last: "if sigint n then result = (Inr (), False, s1)
         else \<exists>err s2. lambda n s1 = (Inl err, s2) \<and> result = (Inl err, True, s2)"
    by (auto simp: ends_at_def)
  have "run_forever sigint lambda True s = run_loop sigint lambda n True s1"
    using run_loop_skip [OF _ run] quiet by (simp add: run_forever_def)
  with last show ?thesis
    by (subst (asm) run_loop_step) (auto split: if_splits)
qed

lemma run_loop_ends:
  "run_loop sigint lambda i b s = Some result \<Longrightarrow>
   b \<longrightarrow> (\<forall>m < i. \<not> sigint m) \<longrightarrow> run_events lambda [0..<i] s0 = (Inr (), s) \<longrightarrow>
   (\<exists>n. ends_at sigint lambda s0 n result)"
proof (erule run_loop.raw_induct [rotated], intro impI)
  fix loop sigint lambda i b s result
  assume IH: "\<And>sigint lambda i b s result. loop sigint lambda i b s = Some result \<Longrightarrow>
      b \<longrightarrow> (\<forall>m < i. \<not> sigint m) \<longrightarrow> run_events lambda [0..<i] s0 = (Inr (), s) \<longrightarrow>
      (\<exists>n. ends_at sigint lambda s0 n result)"
    and loop: "(if read_flag sigint i b then
        (case lambda i s of
           (Inl err, s) \<Rightarrow> Some (Inl err, True, s)
         | (Inr _, s) \<Rightarrow> loop sigint lambda (Suc i) True s)
      else Some (Inr (), False, s)) = Some result"
    and b: "b" and quiet: "\<forall>m < i. \<not> sigint m" and run: "run_events lambda [0..<i] s0 = (Inr (), s)"
  obtain x s1 where l: "lambda i s = (x, s1)" by fastforce
  consider "sigint i" | err where "\<not> sigint i" "x = Inl err" | "\<not> sigint i" "x = Inr ()"
    by (cases x) auto
  then show "\<exists>n. ends_at sigint lambda s0 n result"
  proof cases
    case 3
    have "run_events lambda [0..<Suc i] s0 = (Inr (), s1)"
      using run l 3 by (simp add: run_events_upt_Suc del: upt_Suc)
    moreover have "loop sigint lambda (Suc i) True s1 = Some result"
      using loop b l 3 by (simp add: read_flag_def)
    ultimately show ?thesis
      using IH quiet 3 by (metis less_SucE)
  qed (use loop b l quiet run in \<open>auto simp: ends_at_def read_flag_def sigint_handler_def\<close>)
qed

lemma run_forever_Some_iff:
  "run_forever sigint lambda True s = Some result \<longleftrightarrow> (\<exists>n. ends_at sigint lambda s n result)"
  using ends_at_returns [of sigint lambda s _ result] run_loop_ends [of sigint lambda 0 True s result s]
  by (auto simp: run_forever_def)

text \<open>The loop is stopped by the first iteration that finds the signal or throws.\<close>

definition stops :: "(nat \<Rightarrow> bool) \<Rightarrow> (nat \<Rightarrow> 's \<Rightarrow> (cpp_error + unit) \<times> 's) \<Rightarrow> 's \<Rightarrow> nat \<Rightarrow> bool" where
  "stops sigint lambda s n \<longleftrightarrow> sigint n \<or> isl (fst (run_events lambda [0..<Suc n] s))"

lemma first_stop_ends:
  assumes "stops sigint lambda s n"
  shows "\<exists>n result. ends_at sigint lambda s n result"
proof -
  define n0 where "n0 = (LEAST n. stops sigint lambda s n)"
  have stop: "stops sigint lambda s n0"
    unfolding n0_def using assms by (rule LeastI)
  have before: "\<not> stops sigint lambda s m" if "m < n0" for m
    using not_less_Least that unfolding n0_def by blast
  then have quiet: "\<forall>m < n0. \<not> sigint m" by (auto simp: stops_def)
  have "\<not> isl (fst (run_events lambda [0..<n0] s))"
    using before by (cases n0) (auto simp: stops_def simp del: upt_Suc)
  then obtain s1 where s1: "run_events lambda [0..<n0] s = (Inr (), s1)"
    by (cases "run_events lambda [0..<n0] s"; cases "fst (run_events lambda [0..<n0] s)") auto
  obtain x s2 where l: "lambda n0 s1 = (x, s2)" by fastforce
  show ?thesis
  proof (cases "sigint n0")
    case True
    with quiet s1 have "ends_at sigint lambda s n0 (Inr (), False, s1)" by (simp add: ends_at_def)
    then show ?thesis by blast
  next
    case False
    with stop s1 l have "isl x"
      by (auto simp: stops_def run_events_upt_Suc simp del: upt_Suc split: sum.splits)
    with False quiet s1 l have "ends_at sigint lambda s n0 (Inl (projl x), True, s2)"
      by (auto simp: ends_at_def isl_def)
    then show ?thesis by blast
  qed
qed

lemma ends_at_stops: "ends_at sigint lambda s n result \<Longrightarrow> stops sigint lambda s n"
  by (auto simp: ends_at_def stops_def run_events_upt_Suc simp del: upt_Suc split: if_splits)

section \<open>Properties\<close>

text \<open>C35: The loop runs for ever exactly when no signal ever arrives and no callback ever throws; in
  particular a delivered SIGINT always ends it.\<close>

theorem run_forever_diverges_iff:
  "run_forever sigint lambda True s = None \<longleftrightarrow>
     (\<forall>n. \<not> sigint n \<and> \<not> isl (fst (run_events lambda [0..<n] s)))"
proof -
  have "run_forever sigint lambda True s = None \<longleftrightarrow> (\<forall>n. \<not> stops sigint lambda s n)"
    using first_stop_ends [of sigint lambda s] ends_at_stops [of sigint lambda s]
      run_forever_Some_iff [of sigint lambda s]
    by (metis option.exhaust option.distinct(1))
  also have "\<dots> \<longleftrightarrow> (\<forall>n. \<not> sigint n) \<and> (\<forall>n. \<not> isl (fst (run_events lambda [0..<Suc n] s)))"
    by (auto simp: stops_def simp del: upt_Suc)
  also have "(\<forall>n. \<not> isl (fst (run_events lambda [0..<Suc n] s))) \<longleftrightarrow>
      (\<forall>n. \<not> isl (fst (run_events lambda [0..<n] s)))"
    (is "?succ \<longleftrightarrow> ?all")
  proof
    assume ?succ
    show ?all
    proof
      fix n
      show "\<not> isl (fst (run_events lambda [0..<n] s))"
        using \<open>?succ\<close> by (cases n) (auto simp del: upt_Suc)
    qed
  qed (simp del: upt_Suc)
  finally show ?thesis by blast
qed

text \<open>The interrupt flag is never set again: once a SIGINT has ended one run loop, every later run loop
  of the process returns at once without calling its callback.\<close>

lemma interrupted_for_good:
  assumes "run_forever sigint lambda True s = Some (Inr (), flag, s')"
  shows "run_forever sigint' lambda' flag t = Some (Inr (), False, t) \<and>
    run_forever_sleeping sigint' flag = Some (Inr (), False, ())"
proof -
  from assms have "flag = False"
    by (auto simp: run_forever_Some_iff ends_at_def split: if_splits)
  then show ?thesis by (simp add: run_forever_def run_forever_sleeping_def)
qed

end
