(* ===== verification/Cli.thy ===== *)
theory Cli
  imports Bus_Client Process_Support
begin

text \<open>
  The command line client, \<^verbatim>\<open>drivers/cli.cpp\<close>: parsing of the port, of the options and of the
  message, the two commands and \<^verbatim>\<open>main\<close> with its exception handler. \<open>cli_net\<close> collects what ENet
  and the signal handler do during a run, \<open>cli_world\<close> what the program prints and asks of ENet. A run
  of \<^verbatim>\<open>sub\<close> may last for ever, so the result of \<^verbatim>\<open>run\<close> is an option.

  The remaining arguments are a list instead of an index into \<^verbatim>\<open>argv\<close>; the message loop keeps its
  index.
\<close>

section \<open>Model\<close>

record Options =
  opt_host :: string
  opt_port :: u16
  opt_command :: string
  opt_args :: "string list"

definition Options_default :: Options where
  "Options_default = \<lparr>opt_host = ''localhost'', opt_port = 6767, opt_command = '''', opt_args = []\<rparr>"

definition newline :: string where
  "newline = [CHR 0x0A]"

definition print_usage :: "string \<Rightarrow> string" where
  "print_usage out =
     out @ ''Usage:'' @ newline @
     ''  cli [--host HOST] [--port PORT] pub <topic> <message>'' @ newline @
     ''  cli [--host HOST] [--port PORT] sub <topic>'' @ newline"

definition parse_port :: "string \<Rightarrow> cpp_error + u16" where
  "parse_port value =
     (case stoi value of
        Inl err \<Rightarrow> Inl err
      | Inr (port, parsed) \<Rightarrow>
          (if parsed \<noteq> length value \<or> port < 0 \<or> port > 65535 then
             Inl (Out_of_range ''Port must be between 0 and 65535'')
           else Inr (word_of_int port)))"

text \<open>The loop of \<^verbatim>\<open>join_message\<close> from index \<open>i\<close> on.\<close>

function join_loop :: "string list \<Rightarrow> nat \<Rightarrow> string \<Rightarrow> string" where
  "join_loop args i message =
     (if i < length args then
        (let message = (if message \<noteq> [] then message @ '' '' else message);
             message = message @ args ! i
         in join_loop args (Suc i) message)
      else message)"
  by pat_completeness auto
termination
  by (relation "measure (\<lambda>(args, i, message). length args - i)") auto

declare join_loop.simps [simp del]

definition join_message :: "string list \<Rightarrow> nat \<Rightarrow> string" where
  "join_message args first_arg = join_loop args first_arg []"

text \<open>
  The first loop of \<^verbatim>\<open>parse_options\<close>. It ends with \<open>Help\<close>, where the function returns at once, or
  with the flags \<^verbatim>\<open>host_from_args\<close> and \<^verbatim>\<open>port_from_args\<close> and the arguments after the command.
\<close>

datatype parsed = Help Options | Parsed Options bool bool "string list"

definition is_help :: "string \<Rightarrow> bool" where
  "is_help arg \<longleftrightarrow> arg = ''--help'' \<or> arg = ''-h''"

definition is_host :: "string \<Rightarrow> bool" where
  "is_host arg \<longleftrightarrow> arg = ''--host'' \<or> arg = ''-H''"

definition is_host_eq :: "string \<Rightarrow> bool" where
  "is_host_eq arg \<longleftrightarrow> starts_with arg ''--host=''"

definition is_port :: "string \<Rightarrow> bool" where
  "is_port arg \<longleftrightarrow> arg = ''--port'' \<or> arg = ''-p''"

definition is_port_eq :: "string \<Rightarrow> bool" where
  "is_port_eq arg \<longleftrightarrow> starts_with arg ''--port=''"

fun parse_flags :: "string list \<Rightarrow> Options \<Rightarrow> bool \<Rightarrow> bool \<Rightarrow> cpp_error + parsed" where
  "parse_flags [] options host_from_args port_from_args =
     Inr (Parsed options host_from_args port_from_args [])"
| "parse_flags (arg # others) options host_from_args port_from_args =
     (if is_help arg then Inr (Help (options\<lparr>opt_command := ''help''\<rparr>))
      else if is_host arg then
        (case others of
           [] \<Rightarrow> Inl (Invalid_argument ''--host requires a value'')
         | v # others \<Rightarrow> parse_flags others (options\<lparr>opt_host := v\<rparr>) True port_from_args)
      else if is_host_eq arg then
        parse_flags others (options\<lparr>opt_host := drop 7 arg\<rparr>) True port_from_args
      else if is_port arg then
        (case others of
           [] \<Rightarrow> Inl (Invalid_argument ''--port requires a value'')
         | v # others \<Rightarrow>
             (case parse_port v of
                Inl err \<Rightarrow> Inl err
              | Inr port \<Rightarrow> parse_flags others (options\<lparr>opt_port := port\<rparr>) host_from_args True))
      else if is_port_eq arg then
        (case parse_port (drop 7 arg) of
           Inl err \<Rightarrow> Inl err
         | Inr port \<Rightarrow> parse_flags others (options\<lparr>opt_port := port\<rparr>) host_from_args True)
      else Inr (Parsed (options\<lparr>opt_command := arg\<rparr>) host_from_args port_from_args others))"

definition parse_options :: "(string \<rightharpoonup> string) \<Rightarrow> string list \<Rightarrow> cpp_error + Options" where
  "parse_options getenv argv =
     (case parse_flags (drop 1 argv) Options_default False False of
        Inl err \<Rightarrow> Inl err
      | Inr (Help options) \<Rightarrow> Inr options
      | Inr (Parsed options host_from_args port_from_args rest) \<Rightarrow>
          (let options = options\<lparr>opt_args := opt_args options @ rest\<rparr>
           in if opt_command options = [] then Inl (Invalid_argument ''missing command'')
              else
                (let options =
                       (if \<not> host_from_args
                        then options\<lparr>opt_host := get_env_or getenv ''SPRAYBUS_HOST'' (opt_host options)\<rparr>
                        else options)
                 in if \<not> port_from_args then
                      (case parse_port (get_env_or getenv ''SPRAYBUS_PORT'' ''6767'') of
                         Inl err \<Rightarrow> Inl err
                       | Inr port \<Rightarrow> Inr (options\<lparr>opt_port := port\<rparr>))
                    else Inr options)))"

record cli_net =
  cn_init :: int                          \<comment> \<open>\<^verbatim>\<open>enet_initialize\<close>\<close>
  cn_connect :: connect_results
  cn_lookup :: topic_lookup
  cn_events :: "nat \<Rightarrow> ENetEvent option"   \<comment> \<open>the event of each turn of the run loop\<close>
  cn_sigint :: "nat \<Rightarrow> bool"
  cn_drain :: "ENetEvent list"

record cli_world =
  w_stdout :: string
  w_stderr :: string
  w_calls :: "enet_call list"

text \<open>One turn of the loop of \<^verbatim>\<open>sub\<close>, over the client and the standard output.\<close>

definition sub_iteration ::
    "endian \<Rightarrow> (nat \<Rightarrow> ENetEvent option) \<Rightarrow> nat \<Rightarrow> bus_client \<times> string \<Rightarrow> (cpp_error + unit) \<times> bus_client \<times> string" where
  "sub_iteration e events i = (\<lambda>(client, out).
     client_process e (events i) (\<lambda>msg out. (Inr (), out @ payload_as_string msg @ newline)) client out)"

definition run_command ::
    "endian \<Rightarrow> cli_net \<Rightarrow> Options \<Rightarrow> bus_client \<Rightarrow> string \<Rightarrow> ((cpp_error + int) \<times> bus_client \<times> string) option" where
  "run_command e net options client out =
     (if opt_command options = ''pub'' then
        (if length (opt_args options) < 2 then
           Some (Inl (Invalid_argument ''pub requires <topic> and <message>''), client, out)
         else
           (case publish_string e (cn_lookup net) (opt_args options ! 0) (join_message (opt_args options) 1) client of
              (Inl err, client) \<Rightarrow> Some (Inl err, client, out)
            | (Inr _, client) \<Rightarrow> Some (Inr 0, client, out)))
      else if opt_command options = ''sub'' then
        (if length (opt_args options) \<noteq> 1 then
           Some (Inl (Invalid_argument ''sub requires exactly one <topic>''), client, out)
         else
           (case subscribe e (cn_lookup net) (opt_args options ! 0) client of
              (Inl err, client) \<Rightarrow> Some (Inl err, client, out)
            | (Inr _, client) \<Rightarrow>
                (case run_forever (cn_sigint net) (sub_iteration e (cn_events net)) True (client, out) of
                   None \<Rightarrow> None
                 | Some (Inl err, _, client, out) \<Rightarrow> Some (Inl err, client, out)
                 | Some (Inr _, _, client, out) \<Rightarrow> Some (Inr 0, client, out))))
      else Some (Inl (Invalid_argument (''unknown command: '' @ opt_command options)), client, out))"

definition cli_run ::
    "endian \<Rightarrow> (string \<rightharpoonup> string) \<Rightarrow> cli_net \<Rightarrow> string list \<Rightarrow> cli_world \<Rightarrow> ((cpp_error + int) \<times> cli_world) option" where
  "cli_run e getenv net argv w =
     (case parse_options getenv argv of
        Inl err \<Rightarrow> Some (Inl err, w)
      | Inr options \<Rightarrow>
          (if opt_command options = ''help'' then Some (Inr 0, w\<lparr>w_stdout := print_usage (w_stdout w)\<rparr>)
           else
             (case init (cn_init net) of
                (Inl err, calls) \<Rightarrow> Some (Inl err, w\<lparr>w_calls := w_calls w @ calls\<rparr>)
              | (Inr _, calls) \<Rightarrow>
                  (let w = w\<lparr>w_calls := w_calls w @ calls\<rparr>
                   in case bus_client_ctor (cn_connect net) (opt_host options) (opt_port options) of
                        (Inl err, calls) \<Rightarrow> Some (Inl err, w\<lparr>w_calls := w_calls w @ calls\<rparr>)
                      | (Inr client, _) \<Rightarrow>
                          (case run_command e net options client (w_stdout w) of
                             None \<Rightarrow> None
                           | Some (r, client, out) \<Rightarrow>
                               Some (r, w\<lparr>w_stdout := out,
                                 w_calls := w_calls w @ c_calls (bus_client_dtor (cn_drain net) client)\<rparr>))))))"

fun what :: "cpp_error \<Rightarrow> string option" where
  "what (Runtime_error m) = Some m"
| "what (Out_of_range m) = Some m"
| "what (Invalid_argument m) = Some m"
| "what Undefined_behaviour = None"

definition cli_main ::
    "endian \<Rightarrow> (string \<rightharpoonup> string) \<Rightarrow> cli_net \<Rightarrow> string list \<Rightarrow> cli_world \<Rightarrow> ((cpp_error + int) \<times> cli_world) option" where
  "cli_main e getenv net argv w =
     (case cli_run e getenv net argv w of
        Some (Inl error, w) \<Rightarrow>
          (case what error of
             Some m \<Rightarrow>
               Some (Inr 1, w\<lparr>w_stderr := print_usage (w_stderr w @ ''error: '' @ m @ newline)\<rparr>)
           | None \<Rightarrow> Some (Inl error, w))
      | r \<Rightarrow> r)"

section \<open>Ports and messages\<close>

lemma parse_port_Inr_iff: "parse_port v = Inr p \<longleftrightarrow> stoi v = Inr (uint p, length v)"
proof
  assume "parse_port v = Inr p"
  then obtain port where "stoi v = Inr (port, length v)" and "0 \<le> port" and "port \<le> 65535"
    and "p = word_of_int port"
    by (auto simp: parse_port_def split: sum.splits if_splits)
  then show "stoi v = Inr (uint p, length v)"
    by (simp add: uint_word_of_int_eq take_bit_int_eq_self)
next
  assume "stoi v = Inr (uint p, length v)"
  moreover have "uint p < 2 ^ LENGTH(16)" by (rule uint_lt2p)
  ultimately show "parse_port v = Inr p"
    by (simp add: parse_port_def)
qed

lemma parse_port_show [simp]: "parse_port (show_nat (unat (p :: u16))) = Inr p"
proof -
  have "uint p < 2 ^ LENGTH(16)" by (rule uint_lt2p)
  then have "int (unat p) \<le> int_max"
    by (simp add: int_max_def)
  then show ?thesis
    by (simp add: parse_port_Inr_iff stoi_show_nat)
qed

lemma join_loop_nonempty:
  "message \<noteq> [] \<Longrightarrow> join_loop args i message = message @ concat (map (\<lambda>a. CHR '' '' # a) (drop i args))"
proof (induction args i message rule: join_loop.induct)
  case (1 args i message)
  then show ?case
    by (subst join_loop.simps) (auto simp: Cons_nth_drop_Suc [symmetric])
qed

lemma join_loop_empty:
  "join_loop args i [] =
     (case dropWhile (\<lambda>a. a = []) (drop i args) of
        [] \<Rightarrow> [] | a # as \<Rightarrow> a @ concat (map (\<lambda>a. CHR '' '' # a) as))"
proof (induction "length args - i" arbitrary: i)
  case 0
  then show ?case by (subst join_loop.simps) simp
next
  case (Suc n)
  then have i: "drop i args = args ! i # drop (Suc i) args" by (simp add: Cons_nth_drop_Suc)
  from Suc.hyps(2) have less: "i < length args" by simp
  from Suc have "join_loop args (Suc i) [] = (case dropWhile (\<lambda>a. a = []) (drop (Suc i) args) of
        [] \<Rightarrow> [] | a # as \<Rightarrow> a @ concat (map (\<lambda>a. CHR '' '' # a) as))" by simp
  with less show ?case
    by (subst join_loop.simps) (auto simp: i join_loop_nonempty)
qed

section \<open>Option lines\<close>

datatype flag_style = Long | Short | Joined

datatype flag = Host flag_style string | Port flag_style u16

fun render :: "flag \<Rightarrow> string list" where
  "render (Host Long v) = [''--host'', v]"
| "render (Host Short v) = [''-H'', v]"
| "render (Host Joined v) = [''--host='' @ v]"
| "render (Port Long p) = [''--port'', show_nat (unat p)]"
| "render (Port Short p) = [''-p'', show_nat (unat p)]"
| "render (Port Joined p) = [''--port='' @ show_nat (unat p)]"

fun last_host :: "flag list \<Rightarrow> string option \<Rightarrow> string option" where
  "last_host [] h = h"
| "last_host (Host _ v # fs) h = last_host fs (Some v)"
| "last_host (Port _ _ # fs) h = last_host fs h"

fun last_port :: "flag list \<Rightarrow> u16 option \<Rightarrow> u16 option" where
  "last_port [] p = p"
| "last_port (Host _ _ # fs) p = last_port fs p"
| "last_port (Port _ q # fs) p = last_port fs (Some q)"

text \<open>An argument that \<^verbatim>\<open>parse_options\<close> takes for the command.\<close>

definition is_command :: "string \<Rightarrow> bool" where
  "is_command arg \<longleftrightarrow> arg \<noteq> [] \<and> \<not> is_help arg \<and> \<not> is_host arg \<and> \<not> is_host_eq arg \<and> \<not> is_port arg \<and> \<not> is_port_eq arg"

lemmas flag_defs = is_help_def is_host_def is_host_eq_def is_port_def is_port_eq_def starts_with_def

lemma parse_flag:
  "parse_flags (render f @ args) options h p =
     (case f of
        Host _ v \<Rightarrow> parse_flags args (options\<lparr>opt_host := v\<rparr>) True p
      | Port _ q \<Rightarrow> parse_flags args (options\<lparr>opt_port := q\<rparr>) h True)"
  by (cases f rule: render.cases) (simp_all add: flag_defs)

lemma parse_flags_render:
  "parse_flags (concat (map render fs) @ args) options h p =
     parse_flags args
       (options\<lparr>opt_host := (case last_host fs None of None \<Rightarrow> opt_host options | Some v \<Rightarrow> v),
                opt_port := (case last_port fs None of None \<Rightarrow> opt_port options | Some q \<Rightarrow> q)\<rparr>)
       (h \<or> last_host fs None \<noteq> None) (p \<or> last_port fs None \<noteq> None)"
proof (induction fs arbitrary: options h p)
  case (Cons f fs)
  have lh: "last_host fs x = (case last_host fs None of None \<Rightarrow> x | Some v \<Rightarrow> Some v)" for x
    by (induction fs x rule: last_host.induct) (auto split: option.split)
  have lp: "last_port fs x = (case last_port fs None of None \<Rightarrow> x | Some v \<Rightarrow> Some v)" for x
    by (induction fs x rule: last_port.induct) (auto split: option.split)
  show ?case
    using lh [of "Some _"] lp [of "Some _"]
    by (cases f) (auto simp: parse_flag Cons.IH split: option.split)
qed simp

section \<open>The commands\<close>

text \<open>What one turn of the loop of \<^verbatim>\<open>sub\<close> prints.\<close>

definition printed :: "FanoutMessage option \<Rightarrow> string" where
  "printed m = (case m of None \<Rightarrow> [] | Some m \<Rightarrow> string_of_bytes (fm_payload m) @ newline)"

lemma sub_iteration_result:
  "sub_iteration e events i (client, out) =
     (let client' = emit (Host_service (mc_client (c_client client)) 0 #
            map Packet_destroy (received_packet (events i))) client
      in case poll_answer e (c_inverse_topic_map client) (events i) of
           Inl err \<Rightarrow> (Inl err, client', out)
         | Inr m \<Rightarrow> (Inr (), client', out @ printed m))"
  by (auto simp: sub_iteration_def client_process_def net_client_process_def Let_def Packet_move_assign_def
      Packet_ctor_def Packet_default_def Packet_dtor_def enet_packet_destroy_def deliver_def Packet_data_def
      poll_answer_def packet_view_def set_topic_def accessor_defs printed_def payload_as_string_def
      split: option.split ENetEvent.split sum.split)

lemma sub_iterations:
  assumes "\<And>i. i < n \<Longrightarrow> poll_answer e (c_inverse_topic_map client) (events i) = Inr (ms i)"
  shows "\<exists>calls. run_events (sub_iteration e events) [0..<n] (client, out) =
      (Inr (), emit calls client, out @ concat (map (\<lambda>i. printed (ms i)) [0..<n])) \<and>
    sends calls = [] \<and> destroyed calls = concat (map (\<lambda>i. received_packet (events i)) [0..<n])"
  using assms
proof (induction n)
  case 0
  then show ?case by (intro exI [where x = "[]"]) simp
next
  case (Suc n)
  then obtain calls where calls: "run_events (sub_iteration e events) [0..<n] (client, out) =
      (Inr (), emit calls client, out @ concat (map (\<lambda>i. printed (ms i)) [0..<n]))"
    and quiet: "sends calls = []" "destroyed calls = concat (map (\<lambda>i. received_packet (events i)) [0..<n])"
    by auto
  have r: "sends (map Packet_destroy (received_packet (events n))) = []"
    "destroyed (map Packet_destroy (received_packet (events n))) = received_packet (events n)"
    by (cases "events n" rule: received_packet.cases; simp)+
  show ?case
    using calls quiet r Suc.prems [of n]
    by (intro exI [where x = "calls @ Host_service (mc_client (c_client client)) 0 #
          map Packet_destroy (received_packet (events n))"])
      (simp add: run_events_append sub_iteration_result)
qed

text \<open>No exception of the client marks undefined behaviour: a received packet is never null.\<close>

lemma packet_view_defined: "packet_view e d \<noteq> Inl Undefined_behaviour"
  by (cases "length d < sizeof_Header") (simp_all add: packet_view_def Message_ctor_long not_less)

lemma lookup_answer_defined: "lookup_answer e net \<noteq> Inl Undefined_behaviour"
  using packet_view_defined
  by (auto simp: lookup_answer_def split: option.split ENetEvent.split sum.split)

lemma poll_answer_defined: "poll_answer e names event \<noteq> Inl Undefined_behaviour"
  using packet_view_defined
  by (auto simp: poll_answer_def split: option.split ENetEvent.split sum.split)

lemma net_client_ctor_defined: "fst (net_client_ctor res host port) \<noteq> Inl Undefined_behaviour"
  by (simp add: net_client_ctor_def Let_def split: option.split)

lemma get_topic_key_defined: "fst (get_topic_key e net topic s) \<noteq> Inl Undefined_behaviour"
proof (cases "c_topic_map s topic")
  case None
  then show ?thesis
    using net_client_ctor_defined [of "tl_connect net" "c_host s" "c_port s"] lookup_answer_defined [of e net]
    by (auto simp: get_topic_key_uncached Let_def packet_factory_defs split: prod.splits sum.splits)
qed (simp add: get_topic_key_cached)

lemma parse_port_defined: "parse_port v \<noteq> Inl Undefined_behaviour"
  by (auto simp: parse_port_def stoi_def Let_def split: prod.splits sum.splits if_splits)

lemma parse_port_Inl: "parse_port v = Inl err \<Longrightarrow> err \<noteq> Undefined_behaviour"
  using parse_port_defined [of v] by auto

lemma parse_flags_defined: "parse_flags args options h p \<noteq> Inl Undefined_behaviour"
proof (induction args options h p rule: parse_flags.induct)
  case (2 arg others options h p)
  note joined = 2(4)
  show ?case
  proof (cases "is_help arg \<or> is_host arg \<or> is_host_eq arg")
    case True
    then consider "is_help arg" | "\<not> is_help arg" "is_host arg"
      | "\<not> is_help arg" "\<not> is_host arg" "is_host_eq arg" by blast
    then show ?thesis using 2(1,2) by cases (simp_all split: list.split)
  next
    case False
    then consider "is_port arg" | "\<not> is_port arg" "is_port_eq arg" | "\<not> is_port arg" "\<not> is_port_eq arg"
      by blast
    then show ?thesis
    proof cases
      case 1
      with False 2(3) show ?thesis
        by (cases others; cases "parse_port (hd others)") (auto dest: parse_port_Inl)
    next
      case 2
      with False joined show ?thesis
        by (cases "parse_port (drop 7 arg)") (auto dest: parse_port_Inl)
    qed (use False in simp)
  qed
qed simp

lemma parse_options_defined: "parse_options getenv argv \<noteq> Inl Undefined_behaviour"
proof (cases "parse_flags (drop 1 argv) Options_default False False")
  case (Inl err)
  with parse_flags_defined [of "drop 1 argv" Options_default False False] show ?thesis
    by (simp add: parse_options_def)
next
  case (Inr res)
  show ?thesis
  proof (cases res)
    case (Parsed options h p rest)
    show ?thesis
      unfolding parse_options_def Inr Parsed Let_def
      by (auto split: sum.split dest: parse_port_Inl)
  next
    case (Help options)
    show ?thesis unfolding parse_options_def Inr Help by simp
  qed
qed

lemma run_command_defined: "run_command e net options client out \<noteq> Some (Inl Undefined_behaviour, s)"
proof
  assume r: "run_command e net options client out = Some (Inl Undefined_behaviour, s)"
  let ?t = "opt_args options ! 0"
  have k: "fst (get_topic_key e (cn_lookup net) ?t client) \<noteq> Inl Undefined_behaviour"
    by (rule get_topic_key_defined)
  have loop: "run_forever (cn_sigint net) (sub_iteration e (cn_events net)) True (c, out)
      \<noteq> Some (Inl Undefined_behaviour, x)" for c x
    using poll_answer_defined
    by (auto simp: run_forever_Some_iff ends_at_def sub_iteration_result Let_def split: sum.splits)
  show False
    using r k loop
    by (auto simp: run_command_def publish_string_def publish_after_lookup subscribe_def Let_def
        split: if_splits prod.splits sum.splits option.splits)
qed

section \<open>The reasons to fail\<close>

text \<open>
  What can go wrong in a run, in terms of the arguments and of what ENet and the server do, without the client and the streams:
  the key of the topic cannot be had (no temporary connection, or no proper answer), a turn of \<^verbatim>\<open>sub\<close> before the first
  SIGINT meets a disconnection or a short packet, the command or its arguments are wrong, and what happens before a command runs.
\<close>

inductive topic_fails :: "endian \<Rightarrow> topic_lookup \<Rightarrow> string \<Rightarrow> u16 \<Rightarrow> cpp_error \<Rightarrow> bool" for e net host port where
  no_temporary: "fst (net_client_ctor (tl_connect net) host port) = Inl err \<Longrightarrow> topic_fails e net host port err"
| no_answer: "\<lbrakk>fst (net_client_ctor (tl_connect net) host port) = Inr tmp; lookup_answer e net = Inl err\<rbrakk> \<Longrightarrow>
    topic_fails e net host port err"

inductive command_fails :: "endian \<Rightarrow> cli_net \<Rightarrow> Options \<Rightarrow> cpp_error \<Rightarrow> bool" for e net options where
  unknown: "opt_command options \<notin> {''pub'', ''sub''} \<Longrightarrow>
    command_fails e net options (Invalid_argument (''unknown command: '' @ opt_command options))"
| pub_arguments: "\<lbrakk>opt_command options = ''pub''; length (opt_args options) < 2\<rbrakk> \<Longrightarrow>
    command_fails e net options (Invalid_argument ''pub requires <topic> and <message>'')"
| sub_arguments: "\<lbrakk>opt_command options = ''sub''; length (opt_args options) \<noteq> 1\<rbrakk> \<Longrightarrow>
    command_fails e net options (Invalid_argument ''sub requires exactly one <topic>'')"
| pub_topic: "\<lbrakk>opt_command options = ''pub''; 2 \<le> length (opt_args options);
    topic_fails e (cn_lookup net) (opt_host options) (opt_port options) err\<rbrakk> \<Longrightarrow> command_fails e net options err"
| sub_topic: "\<lbrakk>opt_command options = ''sub''; length (opt_args options) = 1;
    topic_fails e (cn_lookup net) (opt_host options) (opt_port options) err\<rbrakk> \<Longrightarrow> command_fails e net options err"
| stream: "\<lbrakk>opt_command options = ''sub''; length (opt_args options) = 1;
    \<nexists>err. topic_fails e (cn_lookup net) (opt_host options) (opt_port options) err;
    \<forall>i \<le> n. \<not> cn_sigint net i; \<forall>i < n. \<exists>m. poll_answer e Map.empty (cn_events net i) = Inr m;
    poll_answer e Map.empty (cn_events net n) = Inl err\<rbrakk> \<Longrightarrow> command_fails e net options err"

inductive cli_fails :: "endian \<Rightarrow> (string \<rightharpoonup> string) \<Rightarrow> cli_net \<Rightarrow> string list \<Rightarrow> cpp_error \<Rightarrow> bool" for e getenv net argv where
  options: "parse_options getenv argv = Inl err \<Longrightarrow> cli_fails e getenv net argv err"
| no_enet: "\<lbrakk>parse_options getenv argv = Inr options; opt_command options \<noteq> ''help''; cn_init net \<noteq> 0\<rbrakk> \<Longrightarrow>
    cli_fails e getenv net argv (Runtime_error ''Failed to initialize ENet'')"
| no_connection: "\<lbrakk>parse_options getenv argv = Inr options; opt_command options \<noteq> ''help''; cn_init net = 0;
    fst (net_client_ctor (cn_connect net) (opt_host options) (opt_port options)) = Inl err\<rbrakk> \<Longrightarrow> cli_fails e getenv net argv err"
| command: "\<lbrakk>parse_options getenv argv = Inr options; opt_command options \<noteq> ''help''; cn_init net = 0;
    fst (net_client_ctor (cn_connect net) (opt_host options) (opt_port options)) = Inr c; command_fails e net options err\<rbrakk> \<Longrightarrow>
    cli_fails e getenv net argv err"

lemma topic_key_error_iff:
  assumes "c_topic_map s = Map.empty"
  shows "fst (get_topic_key e net topic s) = Inl err \<longleftrightarrow> topic_fails e net (c_host s) (c_port s) err"
  using assms
  by (auto simp: topic_fails.simps get_topic_key_uncached Let_def packet_factory_defs split: prod.splits sum.splits)

lemma poll_error_names: "poll_answer e names event = Inl err \<longleftrightarrow> poll_answer e Map.empty event = Inl err"
  by (auto simp: poll_answer_def split: option.splits ENetEvent.splits sum.splits)

lemma poll_ok_names: "(\<exists>m. poll_answer e names event = Inr m) \<longleftrightarrow> (\<exists>m. poll_answer e Map.empty event = Inr m)"
  using poll_error_names [of e names event] by (metis sum.exhaust sum.distinct(1))

lemma sub_iterations_ok_iff:
  "(\<exists>s. run_events (sub_iteration e events) [0..<n] (client, out) = (Inr (), s)) \<longleftrightarrow>
   (\<forall>i < n. \<exists>m. poll_answer e Map.empty (events i) = Inr m)"
proof
  assume "\<exists>s. run_events (sub_iteration e events) [0..<n] (client, out) = (Inr (), s)"
  then show "\<forall>i < n. \<exists>m. poll_answer e Map.empty (events i) = Inr m"
  proof (induction n)
    case (Suc n)
    then obtain client' out' where "run_events (sub_iteration e events) [0..<n] (client, out) = (Inr (), client', out')"
      and "\<exists>s. sub_iteration e events n (client', out') = (Inr (), s)"
      by (auto simp: run_events_upt_Suc simp del: upt_Suc split: prod.splits sum.splits)
    with Suc.IH poll_ok_names [of e "c_inverse_topic_map client'" "events n"] show ?case
      by (auto simp: sub_iteration_result Let_def less_Suc_eq split: sum.splits)
  qed simp
next
  assume "\<forall>i < n. \<exists>m. poll_answer e Map.empty (events i) = Inr m"
  then have "\<forall>i < n. \<exists>m. poll_answer e (c_inverse_topic_map client) (events i) = Inr m"
    using poll_ok_names [of e "c_inverse_topic_map client"] by blast
  then obtain ms where "\<forall>i < n. poll_answer e (c_inverse_topic_map client) (events i) = Inr (ms i)" by metis
  with sub_iterations [of n e client events ms out] show "\<exists>s. run_events (sub_iteration e events) [0..<n] (client, out) = (Inr (), s)"
    by blast
qed

lemma sub_loop_error_iff:
  "(\<exists>x. run_forever sigint (sub_iteration e events) True (client, out) = Some (Inl err, x)) \<longleftrightarrow>
   (\<exists>n. (\<forall>i \<le> n. \<not> sigint i) \<and> (\<forall>i < n. \<exists>m. poll_answer e Map.empty (events i) = Inr m) \<and>
     poll_answer e Map.empty (events n) = Inl err)"
proof -
  have step: "(\<exists>x. sub_iteration e events n s = (Inl err, x)) \<longleftrightarrow> poll_answer e Map.empty (events n) = Inl err" for n s
    using poll_error_names [of e "c_inverse_topic_map (fst s)" "events n" err]
    by (cases s) (auto simp: sub_iteration_result Let_def split: sum.splits)
  have "(\<exists>x. ends_at sigint (sub_iteration e events) (client, out) n (Inl err, x)) \<longleftrightarrow>
      (\<forall>i \<le> n. \<not> sigint i) \<and> (\<exists>s. run_events (sub_iteration e events) [0..<n] (client, out) = (Inr (), s) \<and>
        (\<exists>x. sub_iteration e events n s = (Inl err, x)))" for n
    by (cases "sigint n") (auto simp: ends_at_def le_less intro: exI [of _ True])
  then show ?thesis
    unfolding sub_iterations_ok_iff [of e events _ client out, symmetric] step run_forever_Some_iff by blast
qed

lemma run_command_error_iff:
  assumes "c_topic_map client = Map.empty" "c_host client = opt_host options" "c_port client = opt_port options"
  shows "(\<exists>s. run_command e net options client out = Some (Inl err, s)) \<longleftrightarrow> command_fails e net options err"
proof -
  let ?topic = "opt_args options ! 0"
  obtain r client' where key: "get_topic_key e (cn_lookup net) ?topic client = (r, client')" by fastforce
  note fails = topic_key_error_iff [OF assms(1), of e "cn_lookup net" ?topic, unfolded key fst_conv assms(2,3)]
  note loop = sub_loop_error_iff [of "cn_sigint net" e "cn_events net" _ out err]
  consider (pub) "opt_command options = ''pub''" | (sub) "opt_command options = ''sub''"
    | (other) "opt_command options \<notin> {''pub'', ''sub''}" by blast
  then show ?thesis
  proof cases
    case pub
    then show ?thesis
      by (cases r) (auto simp: command_fails.simps run_command_def publish_string_def publish_after_lookup key fails [symmetric])
  next
    case sub
    show ?thesis
    proof (cases r)
      case (Inl err')
      with sub show ?thesis
        by (auto simp: command_fails.simps run_command_def subscribe_def key fails [symmetric])
    next
      case (Inr k)
      obtain c where c: "subscribe e (cn_lookup net) ?topic client = (Inr (), c)"
        using Inr by (simp add: subscribe_def key case_prod_beta Let_def)
      have "(\<exists>s. run_command e net options client out = Some (Inl err, s)) \<longleftrightarrow>
          (if length (opt_args options) = 1
           then \<exists>x. run_forever (cn_sigint net) (sub_iteration e (cn_events net)) True (c, out) = Some (Inl err, x)
           else err = Invalid_argument ''sub requires exactly one <topic>'')"
        using sub c by (auto simp: run_command_def split: option.splits prod.splits sum.splits)
      also have "\<dots> \<longleftrightarrow> command_fails e net options err"
        unfolding loop using sub Inr fails by (auto simp: command_fails.simps)
      finally show ?thesis .
    qed
  next
    case other
    then show ?thesis by (auto simp: command_fails.simps run_command_def)
  qed
qed

lemma cli_run_error_iff: "(\<exists>w'. cli_run e getenv net argv w = Some (Inl err, w')) \<longleftrightarrow> cli_fails e getenv net argv err"
proof (cases "parse_options getenv argv")
  case (Inl err')
  then show ?thesis by (auto simp: cli_fails.simps cli_run_def)
next
  case (Inr options)
  obtain r calls where ctor: "net_client_ctor (cn_connect net) (opt_host options) (opt_port options) = (r, calls)" by fastforce
  show ?thesis
  proof (cases "opt_command options = ''help'' \<or> cn_init net \<noteq> 0 \<or> isl r")
    case True
    with Inr ctor show ?thesis
      by (cases r) (auto simp: cli_fails.simps cli_run_def init_def bus_client_ctor_def)
  next
    case False
    then obtain c where c: "r = Inr c" by (cases r) auto
    let ?client = "\<lparr>c_client = c, c_host = opt_host options, c_port = opt_port options, c_protocol_constructor = Constructor_ctor,
        c_topic_map = Map.empty, c_inverse_topic_map = Map.empty, c_calls = calls\<rparr>"
    have "(\<exists>w'. cli_run e getenv net argv w = Some (Inl err, w')) \<longleftrightarrow>
        (\<exists>s. run_command e net options ?client (w_stdout w) = Some (Inl err, s))"
      using Inr False ctor c by (auto simp: cli_run_def init_def bus_client_ctor_def Let_def split: option.splits)
    also have "\<dots> \<longleftrightarrow> cli_fails e getenv net argv err"
      using run_command_error_iff [of ?client options e net "w_stdout w" err] Inr False ctor c by (auto simp: cli_fails.simps)
    finally show ?thesis .
  qed
qed

section \<open>Properties\<close>

text \<open>Decimal numerals as port arguments: every number up to 65535 is accepted with its value, every larger
  one is refused with an exception, whether it fits into an \<^verbatim>\<open>int\<close> or not; none wraps around to a
  16-bit port.\<close>

lemma parse_port_numerals:
  "parse_port (show_nat n) =
     (if n \<le> 65535 then Inr (word_of_nat n)
      else if int n \<le> int_max then Inl (Out_of_range ''Port must be between 0 and 65535'')
      else Inl (Out_of_range ''stoi''))"
proof (cases "int n \<le> int_max")
  case True
  then show ?thesis
    by (auto simp: parse_port_def stoi_show_nat)
next
  case False
  then have "stoi (show_nat n) = Inl (Out_of_range ''stoi'')"
    by (intro stoi_show_nat_big) simp
  with False show ?thesis
    by (simp add: parse_port_def int_max_def)
qed

text \<open>The message of \<^verbatim>\<open>pub\<close> is the remaining arguments joined by single spaces, except that empty
  arguments before the first non-empty one are dropped together with their separators.\<close>

lemma join_message_result:
  "join_message args i =
     (case dropWhile (\<lambda>a. a = []) (drop i args) of
        [] \<Rightarrow> [] | a # as \<Rightarrow> a @ concat (map (\<lambda>a. CHR '' '' # a) as))"
  by (simp add: join_message_def join_loop_empty)

text \<open>Option lines: with any sequence of host and port flags in any of their three spellings before the
  command, the last flag of each kind wins, a missing flag falls back to the environment variable and then to the
  default, and the command and all arguments after it are taken verbatim. A malformed port variable is an error
  only when no port flag is given.\<close>

lemma parse_options_precedence:
  assumes "is_command cmd"
  shows "parse_options getenv (prog # concat (map render flags) @ cmd # rest) =
    map_sum id
      (\<lambda>port. \<lparr>opt_host = (case last_host flags None of
                   Some v \<Rightarrow> v | None \<Rightarrow> get_env_or getenv ''SPRAYBUS_HOST'' ''localhost''),
          opt_port = port, opt_command = cmd, opt_args = rest\<rparr>)
      (case last_port flags None of
         Some p \<Rightarrow> Inr p
       | None \<Rightarrow> parse_port (get_env_or getenv ''SPRAYBUS_PORT'' ''6767''))"
proof -
  have cmd: "parse_flags (cmd # rest) options h p = Inr (Parsed (options\<lparr>opt_command := cmd\<rparr>) h p rest)"
    for options h p
    using assms by (simp add: is_command_def)
  have args: "drop 1 (prog # concat (map render flags) @ cmd # rest) = concat (map render flags) @ cmd # rest"
    by simp
  have "cmd \<noteq> []" using assms by (simp add: is_command_def)
  then show ?thesis
    unfolding parse_options_def args parse_flags_render cmd
    by (cases "last_host flags None"; cases "last_port flags None")
      (auto simp: Let_def Options_default_def split: sum.split)
qed

text \<open>Help before the command prints the usage text and exits with 0: nothing is read from the environment,
  so a malformed variable does no harm, and ENet is not touched.\<close>

lemma help_needs_no_network:
  assumes "h = ''--help'' \<or> h = ''-h''"
  shows "cli_main e getenv net (prog # concat (map render flags) @ h # rest) w =
    Some (Inr 0, w\<lparr>w_stdout := print_usage (w_stdout w)\<rparr>)"
proof -
  have "is_help h" using assms by (simp add: is_help_def)
  then have "parse_flags (h # rest) options x y = Inr (Help (options\<lparr>opt_command := ''help''\<rparr>))" for options x y
    by simp
  then have "\<exists>options. parse_options getenv (prog # concat (map render flags) @ h # rest) = Inr options \<and>
      opt_command options = ''help''"
    by (simp add: parse_options_def parse_flags_render)
  then show ?thesis
    by (auto simp: cli_main_def cli_run_def)
qed

text \<open>A server that knows the topic \<open>t\<close> under key 5 and sends two messages for it, then SIGINT.\<close>

definition example_cli_net :: cli_net where
  "example_cli_net =
     \<lparr>cn_init = 0, cn_connect = example_connect,
      cn_lookup = example_net (fst (construct_topic_response Little Constructor_ctor 5 ''t'' Origin_server)),
      cn_events = (\<lambda>i. if i = 1 then None else
        Some (ENET_EVENT_TYPE_RECEIVE 30 \<lparr>packet_ptr = i,
          packet_data = fst (construct_fanout Little Constructor_ctor 5 (bytes_of_string (if i = 0 then ''a'' else ''b'')) Origin_server)\<rparr>)),
      cn_sigint = (\<lambda>i. i = 3), cn_drain = []\<rparr>"

definition empty_world :: cli_world where
  "empty_world = \<lparr>w_stdout = [], w_stderr = [], w_calls = []\<rparr>"

lemma cli_run_defined: "cli_run e getenv net argv w \<noteq> Some (Inl Undefined_behaviour, w')"
  using parse_options_defined [of getenv argv] run_command_defined [of e net] net_client_ctor_defined [of "cn_connect net"]
  by (auto simp: cli_run_def init_def bus_client_ctor_def Let_def split: sum.splits prod.splits option.splits if_splits)
    (metis fst_conv)

lemma cli_run_streams:
  "cli_run e getenv net argv w = Some (r, w') \<Longrightarrow> w_stderr w' = w_stderr w \<and> (\<forall>n. r = Inr n \<longrightarrow> n = 0)"
  by (auto simp: cli_run_def run_command_def Let_def split: sum.splits prod.splits option.splits if_splits)

lemma cli_run_None:
  assumes "cli_run e getenv net argv w = None"
  shows "(\<exists>options. parse_options getenv argv = Inr options \<and> opt_command options = ''sub'') \<and> (\<forall>i. \<not> cn_sigint net i)"
proof -
  obtain options client out where sub: "parse_options getenv argv = Inr options" "opt_command options = ''sub''"
    and loop: "run_forever (cn_sigint net) (sub_iteration e (cn_events net)) True (client, out) = None"
    using assms by (auto simp: cli_run_def run_command_def Let_def split: sum.splits prod.splits option.splits if_splits)
  have "\<not> stops (cn_sigint net) (sub_iteration e (cn_events net)) (client, out) i" for i
    using loop first_stop_ends run_forever_Some_iff by (metis option.distinct(1))
  with sub show ?thesis by (auto simp: stops_def)
qed

text \<open>C32: The exit code of the command line client. When there is a reason to fail (wrong options or arguments, an unknown command, ENet not
  starting, no connection, no key for the topic, a disconnection or short packet while \<^verbatim>\<open>sub\<close> listens), the program prints
  the message of exactly this error and the usage text to the error stream and ends with 1. When there is none, it ends with 0 and the
  error stream is left alone, or it is a \<^verbatim>\<open>sub\<close> that is never interrupted and runs for ever. No run reads a null packet.\<close>

theorem cli_exit_code:
  "(\<forall>err. cli_fails e getenv net argv err \<longrightarrow>
      (\<exists>m w'. what err = Some m \<and> cli_main e getenv net argv w = Some (Inr 1, w') \<and>
        w_stderr w' = print_usage (w_stderr w @ ''error: '' @ m @ newline))) \<and>
   ((\<nexists>err. cli_fails e getenv net argv err) \<longrightarrow>
      (case cli_main e getenv net argv w of
         Some (r, w') \<Rightarrow> r = Inr 0 \<and> w_stderr w' = w_stderr w
       | None \<Rightarrow> (\<exists>options. parse_options getenv argv = Inr options \<and> opt_command options = ''sub'') \<and> (\<forall>i. \<not> cn_sigint net i)))"
proof (intro conjI allI impI)
  fix err
  assume "cli_fails e getenv net argv err"
  then obtain w' where w': "cli_run e getenv net argv w = Some (Inl err, w')"
    using cli_run_error_iff [of e getenv net argv w err] by blast
  moreover have "\<exists>m. what err = Some m" using w' cli_run_defined [of e getenv net argv w w'] by (cases err) auto
  ultimately show "\<exists>m w'. what err = Some m \<and> cli_main e getenv net argv w = Some (Inr 1, w') \<and>
      w_stderr w' = print_usage (w_stderr w @ ''error: '' @ m @ newline)"
    using cli_run_streams [OF w'] by (auto simp: cli_main_def)
next
  assume "\<nexists>err. cli_fails e getenv net argv err"
  then have ok: "cli_run e getenv net argv w \<noteq> Some (Inl err, w')" for err w'
    using cli_run_error_iff [of e getenv net argv w] by blast
  then have "cli_main e getenv net argv w = cli_run e getenv net argv w"
    by (auto simp: cli_main_def split: option.split sum.split)
  moreover have "\<exists>n. r = Inr n" if "cli_run e getenv net argv w = Some (r, w')" for r w'
    using ok that by (cases r) auto
  ultimately show "case cli_main e getenv net argv w of
      Some (r, w') \<Rightarrow> r = Inr 0 \<and> w_stderr w' = w_stderr w
    | None \<Rightarrow> (\<exists>options. parse_options getenv argv = Inr options \<and> opt_command options = ''sub'') \<and> (\<forall>i. \<not> cn_sigint net i)"
    using cli_run_None [of e getenv net argv w] cli_run_streams [of e getenv net argv w]
    by (fastforce split: option.split)
qed

text \<open>A missing argument of \<^verbatim>\<open>--port\<close> is reported; a request for help is no failure.\<close>

theorem cli_exit_code_witness:
  "(\<exists>w'. cli_main Little Map.empty example_cli_net [''cli'', ''--port''] empty_world = Some (Inr 1, w') \<and>
      w_stderr w' = print_usage (''error: --port requires a value'' @ newline)) \<and>
   (\<exists>w'. cli_main Little Map.empty example_cli_net [''cli'', ''-h''] empty_world = Some (Inr 0, w') \<and> w_stderr w' = [])"
proof
  have "cli_fails Little Map.empty example_cli_net [''cli'', ''--port''] (Invalid_argument ''--port requires a value'')"
    by (rule cli_fails.options) (simp add: parse_options_def flag_defs)
  then show "\<exists>w'. cli_main Little Map.empty example_cli_net [''cli'', ''--port''] empty_world = Some (Inr 1, w') \<and>
      w_stderr w' = print_usage (''error: --port requires a value'' @ newline)"
    using cli_exit_code [of Little Map.empty example_cli_net "[''cli'', ''--port'']" empty_world, THEN conjunct1, rule_format]
    by (fastforce simp: empty_world_def)
next
  have usage: "parse_options Map.empty [''cli'', ''-h''] = Inr (Options_default\<lparr>opt_command := ''help''\<rparr>)"
    by (simp add: parse_options_def flag_defs)
  then have "\<nexists>err. cli_fails Little Map.empty example_cli_net [''cli'', ''-h''] err" by (auto simp: cli_fails.simps)
  then show "\<exists>w'. cli_main Little Map.empty example_cli_net [''cli'', ''-h''] empty_world = Some (Inr 0, w') \<and> w_stderr w' = []"
    using cli_exit_code [of Little Map.empty example_cli_net "[''cli'', ''-h'']" empty_world] usage
    by (auto simp: empty_world_def split: option.splits)
qed

text \<open>C34: \<^verbatim>\<open>sub\<close> prints exactly the payloads of the fanout messages that arrive before the interrupt, one per
  line and in the order of arrival; it ends with 0 when SIGINT arrives, and destroys every received packet
  once.\<close>

theorem sub_prints:
  assumes "opt_command options = ''sub''" and "opt_args options = [topic]"
    and "subscribe e (cn_lookup net) topic client = (Inr (), client')"
    and "\<forall>i < n. \<not> cn_sigint net i" and "cn_sigint net n"
    and "\<forall>i < n. poll_answer e (c_inverse_topic_map client') (cn_events net i) = Inr (ms i)"
  shows "\<exists>calls. run_command e net options client out =
      Some (Inr 0, emit calls client', out @ concat (map (\<lambda>i. printed (ms i)) [0..<n])) \<and>
    sends calls = [] \<and> destroyed calls = concat (map (\<lambda>i. received_packet (cn_events net i)) [0..<n])"
proof -
  obtain calls where run: "run_events (sub_iteration e (cn_events net)) [0..<n] (client', out) =
      (Inr (), emit calls client', out @ concat (map (\<lambda>i. printed (ms i)) [0..<n]))"
    and quiet: "sends calls = [] \<and> destroyed calls = concat (map (\<lambda>i. received_packet (cn_events net i)) [0..<n])"
    using sub_iterations [of n e client' "cn_events net" ms out] assms(6) by auto
  have "ends_at (cn_sigint net) (sub_iteration e (cn_events net)) (client', out) n
      (Inr (), False, emit calls client', out @ concat (map (\<lambda>i. printed (ms i)) [0..<n]))"
    using run assms(4,5) by (simp add: ends_at_def)
  then have "run_forever (cn_sigint net) (sub_iteration e (cn_events net)) True (client', out) =
      Some (Inr (), False, emit calls client', out @ concat (map (\<lambda>i. printed (ms i)) [0..<n]))"
    by (rule ends_at_returns)
  with quiet assms(1-3) show ?thesis
    by (auto simp: run_command_def)
qed

definition example_message :: "string \<Rightarrow> FanoutMessage" where
  "example_message text = \<lparr>fm_topic_key = 5, fm_topic = ''t'', fm_payload = bytes_of_string text\<rparr>"

theorem sub_prints_witness:
  "\<exists>client. run_command Little example_cli_net
       \<lparr>opt_host = [], opt_port = 0, opt_command = ''sub'', opt_args = [''t'']\<rparr> example_client [] =
     Some (Inr 0, client, ''a'' @ newline @ ''b'' @ newline)"
proof -
  let ?net = "cn_lookup example_cli_net"
  have a: "lookup_answer Little ?net = Inr (''t'', 5)"
    by (simp add: lookup_answer_def example_cli_net_def example_net_def del: construct_simp)
  then obtain c where c: "get_topic_key Little ?net ''t'' example_client = (Inr 5, c)"
    and inv: "c_inverse_topic_map c = [5 \<mapsto> ''t'']"
    by (simp add: get_topic_key_uncached Let_def packet_factory_defs)
      (simp add: example_cli_net_def example_net_def example_connected)
  then obtain c' where s: "subscribe Little ?net ''t'' example_client = (Inr (), c')"
    and inv': "c_inverse_topic_map c' = [5 \<mapsto> ''t'']"
    by (simp add: subscribe_def Let_def packet_factory_defs)
  let ?ms = "\<lambda>i. if i = 1 then None else Some (example_message (if i = 0 then ''a'' else ''b''))"
  have ms: "\<forall>i<3. poll_answer Little (c_inverse_topic_map c') (cn_events example_cli_net i) = Inr (?ms i)"
    using inv' by (simp add: example_cli_net_def poll_answer_def example_message_def del: construct_simp)
  have n: "[0..<3] = [0, 1, 2 :: nat]" by (simp add: upt_rec)
  show ?thesis
    using sub_prints [of "\<lparr>opt_host = [], opt_port = 0, opt_command = ''sub'', opt_args = [''t'']\<rparr>" "''t''" Little
        example_cli_net example_client c' 3 ?ms "[]", OF _ _ s _ _ ms]
    by (auto simp: n printed_def example_message_def) (auto simp: example_cli_net_def)
qed

text \<open>C33: \<^verbatim>\<open>pub\<close> end to end: with a reachable server, the program asks for the topic's key over a temporary
  connection, sends one publish packet with that key and the joined message over the main connection, prints
  nothing and exits with 0.\<close>

theorem pub_sends:
  assumes "parse_options getenv argv = Inr options" and "opt_command options = ''pub''"
    and "opt_args options = topic # words" and "words \<noteq> []" and "cn_init net = 0"
    and "fst (net_client_ctor (cn_connect net) (opt_host options) (opt_port options)) = Inr c"
    and "fst (net_client_ctor (tl_connect (cn_lookup net)) (opt_host options) (opt_port options)) = Inr tmp"
    and "lookup_answer e (cn_lookup net) = Inr (name, k)"
  shows "\<exists>w'. cli_main e getenv net argv w = Some (Inr 0, w') \<and> w_stdout w' = w_stdout w \<and>
    sends (w_calls w') = sends (w_calls w) @
      [(mc_peer tmp, fst (construct_topic_request e Constructor_ctor topic Origin_client)),
       (mc_peer c, fst (construct_publish e Constructor_ctor k
          (bytes_of_string (join_message (topic # words) 1)) Origin_client))]"
proof -
  obtain calls where c: "net_client_ctor (cn_connect net) (opt_host options) (opt_port options) = (Inr c, calls)"
    using assms(6) by (metis prod.collapse)
  obtain calls' where t: "net_client_ctor (tl_connect (cn_lookup net)) (opt_host options) (opt_port options) = (Inr tmp, calls')"
    using assms(7) by (metis prod.collapse)
  have quiet: "sends calls = []" "sends calls' = []"
    using ctor_calls(1) c t by (metis snd_conv)+
  have args: "\<not> length (opt_args options) < 2" using assms(3,4) by (cases words) auto
  let ?s = "\<lparr>c_client = c, c_host = opt_host options, c_port = opt_port options,
      c_protocol_constructor = Constructor_ctor, c_topic_map = Map.empty, c_inverse_topic_map = Map.empty, c_calls = calls\<rparr>"
  obtain s1 where g: "get_topic_key e (cn_lookup net) topic ?s = (Inr k, s1)"
    and s1: "c_client s1 = c" "c_calls s1 = calls @ calls' @ lookup_calls e (cn_lookup net) topic tmp"
    using t assms(8) by (auto simp: get_topic_key_uncached Let_def packet_factory_defs)
  let ?m = "bytes_of_string (join_message (topic # words) 1)"
  have "run_command e net options ?s out = Some (Inr 0, publish_key e k ?m s1, out)" for out
    using assms(2,3) args g
    by (simp add: run_command_def publish_string_def publish_after_lookup)
  moreover have "sends (c_calls (bus_client_dtor (cn_drain net) (publish_key e k ?m s1))) =
      [(mc_peer tmp, fst (construct_topic_request e Constructor_ctor topic Origin_client)),
       (mc_peer c, fst (construct_publish e Constructor_ctor k ?m Origin_client))]"
    using s1 quiet by (simp add: bus_client_dtor_def)
  ultimately show ?thesis
    using assms(1,2,5) c by (simp add: cli_main_def cli_run_def bus_client_ctor_def init_def)
qed

theorem pub_sends_witness:
  "\<exists>w'. cli_main Little Map.empty example_cli_net [''cli'', ''pub'', ''t'', ''hello'', ''world''] empty_world = Some (Inr 0, w') \<and>
     sends (w_calls w') =
      [(30, fst (construct_topic_request Little Constructor_ctor ''t'' Origin_client)),
       (30, fst (construct_publish Little Constructor_ctor 5 (bytes_of_string ''hello world'') Origin_client))]"
proof -
  have opts: "parse_options Map.empty [''cli'', ''pub'', ''t'', ''hello'', ''world''] =
      Inr \<lparr>opt_host = ''localhost'', opt_port = 6767, opt_command = ''pub'', opt_args = [''t'', ''hello'', ''world'']\<rparr>"
    by (simp add: parse_options_def flag_defs get_env_or_def Options_default_def parse_port_def stoi_def is_space_def
        read_sign_def is_digit_def decimal_value_def digit_value_def int_min_def int_max_def Let_def)
  have ans: "lookup_answer Little (cn_lookup example_cli_net) = Inr (''t'', 5)"
    by (simp add: lookup_answer_def example_cli_net_def example_net_def del: construct_simp)
  have msg: "join_message [''t'', ''hello'', ''world''] 1 = ''hello world''"
    by (simp add: join_message_def join_loop.simps)
  let ?tmp = "\<lparr>mc_client = 20, mc_address = \<lparr>addr_host = Some 0, addr_port = 6767\<rparr>, mc_peer = 30\<rparr>"
  have con: "cn_connect example_cli_net = example_connect" "tl_connect (cn_lookup example_cli_net) = example_connect"
    "cn_init example_cli_net = 0"
    by (simp_all add: example_cli_net_def example_net_def)
  show ?thesis
    using pub_sends [OF opts _ _ _ _ _ _ ans, of "''t''" "[''hello'', ''world'']" ?tmp ?tmp empty_world] msg
    by (auto simp: con example_connected empty_world_def simp del: construct_simp)
qed

end
