(* ===== verification/Programs.thy ===== *)
theory Programs
  imports Bus_Server Cli
begin

text \<open>
  The programs that put the components together, besides the command line client: the server
  (\<^verbatim>\<open>drivers/main.cpp\<close>), the example client (\<^verbatim>\<open>examples/client/src/main.cpp\<close>), the packaging test
  (\<^verbatim>\<open>test_package/src/example.cpp\<close>) and the launchers by which the Python package starts the two binaries.

  The server's \<^verbatim>\<open>main\<close> and the example have no exception handler: an exception that reaches \<^verbatim>\<open>main\<close>
  ends the process and is the result.
\<close>

section \<open>The server program\<close>

record server_net =
  sn_init :: int
  sn_host :: "ENetHost option"
  sn_events :: "nat \<Rightarrow> ENetEvent list"   \<comment> \<open>the events of each turn of the run loop\<close>
  sn_sigint :: "nat \<Rightarrow> bool"

record server_process =
  sp_logging :: logging
  sp_calls :: "enet_call list"
  sp_server :: "bus_server option"

definition server_main ::
    "endian \<Rightarrow> quill \<Rightarrow> (string \<rightharpoonup> string) \<Rightarrow> server_net \<Rightarrow> ((cpp_error + int) \<times> server_process) option" where
  "server_main e quill getenv net =
     (let proc = \<lparr>sp_logging = logging_start, sp_calls = [], sp_server = None\<rparr>
      in case stoi (get_env_or getenv ''SPRAYBUS_PORT'' ''6767'') of
           Inl err \<Rightarrow> Some (Inl err, proc)
         | Inr (port, _) \<Rightarrow>
             (let proc = proc\<lparr>sp_logging := init_logging (sp_logging proc)\<rparr>
              in case init (sn_init net) of
                   (Inl err, calls) \<Rightarrow> Some (Inl err, proc\<lparr>sp_calls := calls\<rparr>)
                 | (Inr _, calls) \<Rightarrow>
                     (let proc = proc\<lparr>sp_calls := calls\<rparr>
                      in case bus_server_ctor quill port (sn_host net) (sp_logging proc) of
                           (Inl err, lg) \<Rightarrow> Some (Inl err, proc\<lparr>sp_logging := lg\<rparr>)
                         | (Inr server, lg) \<Rightarrow>
                            (let proc = proc\<lparr>sp_logging := lg\<rparr>
                             in case run_forever (sn_sigint net) (\<lambda>i. bus_process e (sn_events net i)) True server of
                                None \<Rightarrow> None
                              | Some (Inl err, _, server) \<Rightarrow> Some (Inl err, proc\<lparr>sp_server := Some server\<rparr>)
                              | Some (Inr _, _, server) \<Rightarrow>
                                  Some (Inr 0, proc\<lparr>sp_server := Some (bus_server_dtor server)\<rparr>)))))"

section \<open>The example client\<close>

text \<open>The loop has no exit, so a run that returns has ended with an exception.\<close>

definition example_main :: "endian \<Rightarrow> cli_net \<Rightarrow> ((cpp_error + int) \<times> string) option" where
  "example_main e net =
     (case init (cn_init net) of
        (Inl err, _) \<Rightarrow> Some (Inl err, [])
      | (Inr _, _) \<Rightarrow>
          (case bus_client_ctor (cn_connect net) ''localhost'' 6767 of
             (Inl err, _) \<Rightarrow> Some (Inl err, [])
           | (Inr client, _) \<Rightarrow>
               (case publish_string e (cn_lookup net) ''test_topic'' ''hello from spraybus-client-example'' client of
                  (Inl err, _) \<Rightarrow> Some (Inl err, [])
                | (Inr _, client) \<Rightarrow>
                    (case subscribe e (cn_lookup net) ''test_topic'' client of
                       (Inl err, _) \<Rightarrow> Some (Inl err, [])
                     | (Inr _, client) \<Rightarrow>
                         (case run_loop (\<lambda>_. False) (sub_iteration e (cn_events net)) 0 True (client, []) of
                            None \<Rightarrow> None
                          | Some (Inl err, _, _, out) \<Rightarrow> Some (Inl err, out)
                          | Some (Inr _, _, _, out) \<Rightarrow> Some (Inr 0, out))))))"

section \<open>The packaging test\<close>

fun same_bytes :: "bytes \<Rightarrow> bytes \<Rightarrow> bool" where
  "same_bytes [] _ = True"
| "same_bytes (x # xs) (y # ys) = (x = y \<and> same_bytes xs ys)"
| "same_bytes (x # xs) [] = False"

definition package_test :: "endian \<Rightarrow> int \<Rightarrow> cpp_error + int" where
  "package_test e init_result =
     (case fst (init init_result) of
        Inl err \<Rightarrow> Inl err
      | Inr _ \<Rightarrow>
          (let topic_key = 0x0102030405060708;
               (publish_packet, constructor) = construct_publish e Constructor_ctor topic_key [] Origin_client
           in if length publish_packet \<noteq> sizeof_Header then Inr 1
              else if \<not> same_bytes [0x01, 0x02, 0x03, 0x04, 0x05, 0x06, 0x07, 0x08]
                        (drop (sizeof_Header - 8) publish_packet) then Inr 2
              else
                (case Message_ctor e publish_packet of
                   Inl err \<Rightarrow> Inl err
                 | Inr publish_message \<Rightarrow>
                     (if Header_topic_key e (Message_header publish_message) \<noteq> topic_key then Inr 3
                      else
                        (let (packet, constructor) = construct_topic_request e constructor ''alerts'' Origin_client
                         in if length packet \<le> sizeof_Header then Inr 4 else Inr 0)))))"

section \<open>The launchers of the Python packages\<close>

text \<open>
  \<^verbatim>\<open>main\<close> of \<^verbatim>\<open>python/cli\<close> and \<^verbatim>\<open>python/server\<close>, which start the bundled program with the arguments of the
  script. \<open>stem\<close> is the name of the program, \<open>joinpath\<close> finds a resource of the package, and \<open>call\<close> is
  what \<^verbatim>\<open>subprocess.call\<close> returns. \<^verbatim>\<open>os.execv\<close> replaces the process and does not return.
\<close>

datatype launch = Launch_error string | Exec_process "string list" | Exit_with int

definition binary_name :: "string \<Rightarrow> string \<Rightarrow> string" where
  "binary_name os_name stem = (if os_name = ''nt'' then stem @ ''.exe'' else stem)"

definition binary_path :: "(string list \<Rightarrow> string) \<Rightarrow> string \<Rightarrow> string \<Rightarrow> string" where
  "binary_path joinpath os_name stem = joinpath [''bin'', binary_name os_name stem]"

definition launcher_main ::
    "string \<Rightarrow> string \<Rightarrow> (string list \<Rightarrow> string) \<Rightarrow> string \<Rightarrow> (string \<Rightarrow> bool) \<Rightarrow> (string list \<Rightarrow> int) \<Rightarrow> string list \<Rightarrow>
     launch" where
  "launcher_main kind os_name joinpath stem is_file call argv =
     (let binary = binary_path joinpath os_name stem
      in if \<not> is_file binary then Launch_error (''Bundled spraybus '' @ kind @ '' binary not found: '' @ binary)
         else
           (let args = binary # drop 1 argv
            in if os_name \<noteq> ''nt'' then Exec_process args else Exit_with (call args)))"

text \<open>A launcher passes on every argument but the script's name, so the bundled command line client parses exactly what the
  user gave.\<close>

lemma launcher_runs_cli:
  assumes "os_name \<noteq> ''nt''" and "is_file (binary_path joinpath os_name stem)"
  shows "\<exists>argv. launcher_main kind os_name joinpath stem is_file call (script # args) = Exec_process argv \<and>
    parse_options getenv argv = parse_options getenv (script # args)"
  using assms by (simp add: launcher_main_def Let_def parse_options_def)

section \<open>Properties\<close>

lemma example_port: "stoi ''6767'' = Inr (6767, 4)"
  by (simp add: stoi_def Let_def is_space_def read_sign_def is_digit_def decimal_value_def digit_value_def
      int_min_def int_max_def)

lemma stoi_prefix:
  assumes "int n \<le> int_max" and "\<not> is_digit c"
  shows "stoi (show_nat n @ c # cs) = Inr (int n, length (show_nat n))"
proof -
  have d: "\<And>x. x \<in> set (show_nat n) \<Longrightarrow> is_digit x" by (rule show_nat_digits)
  obtain x xs where x: "show_nat n = x # xs" using show_nat_nonempty [of n] by (cases "show_nat n") auto
  with d have "is_digit x" by simp
  then have "takeWhile is_space (show_nat n @ c # cs) = []" "read_sign (show_nat n @ c # cs) = (False, 0)"
    using is_digit_not_space is_digit_not_sign x by (simp_all add: read_sign_def)
  moreover have "takeWhile is_digit (show_nat n @ c # cs) = show_nat n"
    using d assms(2) by (simp add: takeWhile_append2)
  ultimately show ?thesis
    using assms(1) by (simp add: stoi_def Let_def int_min_def)
qed

text \<open>C21: The server program from start to shutdown: on a free port, with ENet's events in their documented order
  over all turns of the run loop, it processes every event of every turn before SIGINT, sends exactly the broker's replies in
  order, then destroys the host and exits with 0.\<close>

theorem server_main_serves:
  fixes net n
  defines "all \<equiv> concat (map (sn_events net) [0..<n])"
  assumes "stoi (get_env_or getenv ''SPRAYBUS_PORT'' ''6767'') = Inr (port, parsed)"
    and "0 \<le> port" and "port \<le> 65535" and "sn_init net = 0" and "sn_host net = Some h"
    and "\<forall>i < n. \<not> sn_sigint net i" and "sn_sigint net n"
    and "enet_protocol {} all" and "length all < 2 ^ 64 - 1"
  shows "\<exists>proc s. server_main e quill getenv net = Some (Inr 0, proc) \<and> sp_server proc = Some s \<and>
    bus_abs s (snd (broker_run (map (broker_event_of e) all) empty_broker)) \<and>
    sends (enet_calls s) = on_wire e (fst (broker_run (map (broker_event_of e) all) empty_broker)) \<and>
    last (enet_calls s) = Host_destroy h"
proof -
  obtain s0 where s0: "fst (bus_server_ctor quill port (Some h) (init_logging logging_start)) = Inr s0"
    using assms(3,4) bus_server_ctor_starts by blast
  note start = bus_server_ctor_Inr [OF s0]
  have "ready empty_broker all s0"
    using start assms(9,10) by (simp add: ready_def empty_broker_def)
  then obtain s where run: "run_events (\<lambda>i. bus_process e (sn_events net i)) [0..<n] s0 = (Inr (), s)"
    and abs: "bus_abs s (snd (broker_run (map (broker_event_of e) all) empty_broker))"
    and out: "sends (enet_calls s) = on_wire e (fst (broker_run (map (broker_event_of e) all) empty_broker))"
    using ready_iterations [of empty_broker "sn_events net" n s0 e] start by (auto simp: all_def)
  have "run_forever (sn_sigint net) (\<lambda>i. bus_process e (sn_events net i)) True s0 = Some (Inr (), False, s)"
    using run assms(7,8) by (intro ends_at_returns [where n = n]) (simp add: ends_at_def)
  moreover have "m_server s = h"
    using run_events_keeps [of "\<lambda>i. bus_process e (sn_events net i)" m_server, OF bus_process_m_server run] start
    by simp
  ultimately show ?thesis
    using s0 abs out assms(2,5,6)
    by (simp add: server_main_def init_def bus_server_dtor_def Server_dtor_def Let_def case_prod_beta)
qed

definition example_server_net :: server_net where
  "example_server_net = \<lparr>sn_init = 0, sn_host = Some 3,
     sn_events = (\<lambda>i. if i = 0 then take 2 example_events else drop 2 example_events), sn_sigint = (\<lambda>i. i = 2)\<rparr>"

lemma example_turns: "concat (map (sn_events example_server_net) [0..<2]) = example_events"
proof -
  have "[0..<2] = [0, 1 :: nat]" by (simp add: upt_rec)
  then show ?thesis by (simp add: example_server_net_def)
qed

theorem server_main_serves_witness:
  "\<exists>proc s. server_main Little first_request Map.empty example_server_net = Some (Inr 0, proc) \<and> sp_server proc = Some s \<and>
     sends (enet_calls s) = [(2, reply_bytes Little (Fanout_of 1 [7]))] \<and> last (enet_calls s) = Host_destroy 3"
proof -
  have p: "stoi (get_env_or Map.empty ''SPRAYBUS_PORT'' ''6767'') = Inr (6767, 4)"
    by (simp add: get_env_or_def example_port)
  have net: "sn_init example_server_net = 0" "sn_host example_server_net = Some 3"
    "\<forall>i < 2. \<not> sn_sigint example_server_net i" "sn_sigint example_server_net 2"
    by (simp_all add: example_server_net_def)
  have proto: "enet_protocol {} example_events" "length example_events < 2 ^ 64 - 1"
    by (simp_all add: example_events_def)
  show ?thesis
    using server_main_serves [OF p _ _ net, of Little first_request] proto example_broker unfolding example_turns
    by (auto simp: on_wire_def simp del: construct_simp reply_bytes.simps)
qed

text \<open>The server reads its port with \<^verbatim>\<open>std::stoi\<close> alone and ignores characters after the number, where the
  command line client refuses the same value; the two programs can disagree about one environment
  variable.\<close>

lemma server_port_lenient:
  assumes "n \<le> 65535" and "\<not> is_digit c" and "getenv ''SPRAYBUS_PORT'' = Some (show_nat n @ c # cs)"
    and "sn_init net = 0" and "sn_host net = Some h" and "sn_sigint net 0"
  shows "(\<exists>proc s. server_main e quill getenv net = Some (Inr 0, proc) \<and> sp_server proc = Some s \<and>
      addr_port (m_address s) = word_of_nat n) \<and>
    parse_port (show_nat n @ c # cs) = Inl (Out_of_range ''Port must be between 0 and 65535'')"
proof -
  have v: "get_env_or getenv ''SPRAYBUS_PORT'' ''6767'' = show_nat n @ c # cs"
    using assms(3) by (simp add: get_env_or_def c_str_def)
  have p: "stoi (show_nat n @ c # cs) = Inr (int n, length (show_nat n))"
    using assms(1,2) by (intro stoi_prefix) (simp_all add: int_max_def)
  obtain s0 where s0: "fst (bus_server_ctor quill (int n) (Some h) (init_logging logging_start)) = Inr s0"
    using assms(1) bus_server_ctor_starts [of "int n" quill h "init_logging logging_start"] by fastforce
  have "run_forever (sn_sigint net) (\<lambda>i. bus_process e (sn_events net i)) True s0 = Some (Inr (), False, s0)"
    using assms(6) by (simp add: run_forever_def run_loop_step)
  then show ?thesis
    using v p s0 assms(4,5) bus_server_ctor_Inr [OF s0]
    by (simp add: server_main_def init_def bus_server_dtor_def Server_dtor_def Let_def case_prod_beta parse_port_def issue_def log_def)
qed

text \<open>The packaging test passes on hosts of either byte order once ENet initialises, and otherwise ends with
  the exception of \<^verbatim>\<open>init\<close>.\<close>

lemma package_test_passes:
  "package_test e r =
     (if r = 0 then Inr 0 else Inl (Runtime_error ''Failed to initialize ENet''))"
proof -
  let ?k = "0x0102030405060708 :: u64"
  have eight: "(8 :: nat) = Suc (Suc (Suc (Suc (Suc (Suc (Suc (Suc 0)))))))" by simp
  have "le_bytes (Suc (Suc (Suc (Suc (Suc (Suc (Suc (Suc 0)))))))) ?k = [8, 7, 6, 5, 4, 3, 2, 1]"
    by simp
  then have "rev (le_bytes 8 ?k) = [1, 2, 3, 4, 5, 6, 7, 8]"
    by (simp only: eight) simp
  then have "drop 8 (bytes_of_Header e (Header_publish e ?k Origin_client)) = [1, 2, 3, 4, 5, 6, 7, 8]"
    by (simp add: Header_publish_def bytes_of_Header_ctor split: endian.split)
  moreover have "Message_ctor e (bytes_of_Header e (Header_publish e ?k Origin_client)) =
      Inr \<lparr>m_header = Header_publish e ?k Origin_client, m_payload = [], m_topic = []\<rparr>"
    using Message_ctor_packet [of e "Header_publish e ?k Origin_client" "[]"] by simp
  ultimately show ?thesis
    by (simp add: package_test_def init_def packet_factory_defs sizeof_Header_def Let_def accessor_defs)
      (simp add: Header_publish_def Header_ctor_def)
qed

end
