(* ===== verification/Bindings.thy ===== *)
theory Bindings
  imports Bus_Client Process_Support
begin

text \<open>
  The native module of the Python package, \<^verbatim>\<open>python/src/spraybus/_bindings.cpp\<close>: the bound methods
  of \<^verbatim>\<open>Client\<close> and \<^verbatim>\<open>Message\<close> and their helpers. pybind11 is third-party code: its conversions
  between Python strings and \<^verbatim>\<open>std::string\<close> are the argument \<open>py_text\<close>, \<open>None\<close> where they raise, and
  \<^verbatim>\<open>bytes.decode\<close> is the argument of \<open>payload_text\<close>; its registration calls have no effect here.

  Next to its result every method returns what it does with the interpreter lock, as a list of
  events: a use of Python objects, the release of the lock, its acquisition, a call of native code.
  A guard object releases the lock for its scope and acquires it again when the scope is left by a
  return or an exception.
\<close>

section \<open>Model\<close>

record 'u py_text =
  to_utf8 :: "'u \<Rightarrow> string option"
  from_utf8 :: "string \<Rightarrow> 'u option"

datatype py_error = Conversion_error | Native_error cpp_error

datatype gil_event = Python_object | Release_gil | Acquire_gil | Native_call

definition gil_scoped_release :: "gil_event list \<Rightarrow> gil_event list" where
  "gil_scoped_release body = [Release_gil] @ body @ [Acquire_gil]"

fun raised :: "cpp_error + 'a \<Rightarrow> py_error + 'a" where
  "raised (Inl err) = Inl (Native_error err)"
| "raised (Inr x) = Inr x"

text \<open>
  \<^verbatim>\<open>init_networking_once\<close>: \<^verbatim>\<open>std::call_once\<close> marks the flag as done only when the call returns, so a
  failed initialisation is tried again by the next caller.
\<close>

definition init_networking_once :: "int \<Rightarrow> bool \<Rightarrow> (cpp_error + unit) \<times> bool \<times> enet_call list" where
  "init_networking_once result once_done =
     (if once_done then (Inr (), True, [])
      else
        (case init result of
           (Inl err, calls) \<Rightarrow> (Inl err, False, calls)
         | (Inr _, calls) \<Rightarrow> (Inr (), True, calls)))"

text \<open>A Python \<^verbatim>\<open>bytes\<close> object is the string of its characters, as \<^verbatim>\<open>py::bytes\<close> converts it.\<close>

definition payload_bytes :: "FanoutMessage \<Rightarrow> string" where
  "payload_bytes message = (if fm_payload message = [] then [] else string_of_bytes (fm_payload message))"

definition byte_span :: "string \<Rightarrow> bytes" where
  "byte_span payload = bytes_of_string payload"

text \<open>The readers of \<^verbatim>\<open>Message\<close>.\<close>

definition py_topic_key :: "FanoutMessage \<Rightarrow> u64" where
  "py_topic_key message = fm_topic_key message"

definition py_topic :: "'u py_text \<Rightarrow> FanoutMessage \<Rightarrow> py_error + 'u" where
  "py_topic py message =
     (case from_utf8 py (fm_topic message) of None \<Rightarrow> Inl Conversion_error | Some topic \<Rightarrow> Inr topic)"

definition payload_text :: "(string \<Rightarrow> 'n \<Rightarrow> 'n \<Rightarrow> 'r) \<Rightarrow> 'n \<Rightarrow> 'n \<Rightarrow> FanoutMessage \<Rightarrow> 'r" where
  "payload_text decode encoding errors message = decode (payload_bytes message) encoding errors"

text \<open>
  The methods of \<^verbatim>\<open>Client\<close>. Arguments are converted before the body runs, so a failed conversion
  leaves the client alone.
\<close>

definition py_client_init ::
    "'u py_text \<Rightarrow> int \<Rightarrow> connect_results \<Rightarrow> 'u \<Rightarrow> u16 \<Rightarrow> bool \<Rightarrow>
     (py_error + bus_client) \<times> bool \<times> enet_call list \<times> gil_event list" where
  "py_client_init py result res host port once_done =
     (case to_utf8 py host of
        None \<Rightarrow> (Inl Conversion_error, once_done, [], [Python_object])
      | Some host \<Rightarrow>
          (case init_networking_once result once_done of
             (Inl err, once_done, calls) \<Rightarrow>
               (Inl (Native_error err), once_done, calls, [Python_object, Native_call])
           | (Inr _, once_done, calls) \<Rightarrow>
               (case bus_client_ctor res host port of
                  (r, calls') \<Rightarrow>
                    (raised r, once_done, calls @ calls',
                     [Python_object, Native_call] @ gil_scoped_release [Native_call]))))"

definition py_get_topic_key ::
    "endian \<Rightarrow> 'u py_text \<Rightarrow> topic_lookup \<Rightarrow> 'u \<Rightarrow> bus_client \<Rightarrow> (py_error + u64) \<times> bus_client \<times> gil_event list" where
  "py_get_topic_key e py net topic client =
     (case to_utf8 py topic of
        None \<Rightarrow> (Inl Conversion_error, client, [Python_object])
      | Some topic \<Rightarrow>
          (case get_topic_key e net topic client of
             (r, client) \<Rightarrow> (raised r, client, Python_object # gil_scoped_release [Native_call])))"

definition py_publish ::
    "endian \<Rightarrow> 'u py_text \<Rightarrow> topic_lookup \<Rightarrow> 'u \<Rightarrow> string \<Rightarrow> bus_client \<Rightarrow>
     (py_error + unit) \<times> bus_client \<times> gil_event list" where
  "py_publish e py net topic payload client =
     (case to_utf8 py topic of
        None \<Rightarrow> (Inl Conversion_error, client, [Python_object])
      | Some topic \<Rightarrow>
          (let bytes = payload
           in case publish e net topic (byte_span bytes) client of
                (r, client) \<Rightarrow>
                  (raised r, client, [Python_object, Python_object] @ gil_scoped_release [Native_call])))"

definition py_subscribe ::
    "endian \<Rightarrow> 'u py_text \<Rightarrow> topic_lookup \<Rightarrow> 'u \<Rightarrow> bus_client \<Rightarrow> (py_error + unit) \<times> bus_client \<times> gil_event list" where
  "py_subscribe e py net topic client =
     (case to_utf8 py topic of
        None \<Rightarrow> (Inl Conversion_error, client, [Python_object])
      | Some topic \<Rightarrow>
          (case subscribe e net topic client of
             (r, client) \<Rightarrow> (raised r, client, Python_object # gil_scoped_release [Native_call])))"

text \<open>The result of \<^verbatim>\<open>poll\<close>: \<open>None\<close> for Python's \<^verbatim>\<open>None\<close>.\<close>

definition py_poll ::
    "endian \<Rightarrow> ENetEvent option \<Rightarrow> bus_client \<Rightarrow> (py_error + FanoutMessage option) \<times> bus_client \<times> gil_event list" where
  "py_poll e event client =
     (case poll e event client of
        (Inl err, client) \<Rightarrow> (Inl (Native_error err), client, gil_scoped_release [Native_call])
      | (Inr None, client) \<Rightarrow> (Inr None, client, gil_scoped_release [Native_call] @ [Python_object])
      | (Inr (Some message), client) \<Rightarrow>
          (Inr (Some message), client, gil_scoped_release [Native_call] @ [Python_object]))"

section \<open>The interpreter lock\<close>

text \<open>
  Whether a sequence of events is allowed from a given state of the lock, and the state it leaves:
  Python objects are used and the lock is released only while it is held, and it is acquired only
  while it is not.
\<close>

fun gil_run :: "gil_event list \<Rightarrow> bool \<Rightarrow> bool option" where
  "gil_run [] held = Some held"
| "gil_run (Python_object # evs) held = (if held then gil_run evs held else None)"
| "gil_run (Release_gil # evs) held = (if held then gil_run evs False else None)"
| "gil_run (Acquire_gil # evs) held = (if held then None else gil_run evs True)"
| "gil_run (Native_call # evs) held = gil_run evs held"

lemmas binding_defs =
  py_client_init_def py_get_topic_key_def py_publish_def py_subscribe_def py_poll_def gil_scoped_release_def

text \<open>Every method of the native client keeps the discipline of the interpreter lock on all of its paths, failed conversions
  and exceptions of the native code included: it uses Python objects only while it holds the lock, and returns holding it.\<close>

lemma bindings_gil_discipline:
  "gil_run (snd (snd (snd (py_client_init py result res host port once_done)))) True = Some True \<and>
   gil_run (snd (snd (py_get_topic_key e py net topic client))) True = Some True \<and>
   gil_run (snd (snd (py_publish e py net topic payload client))) True = Some True \<and>
   gil_run (snd (snd (py_subscribe e py net topic client))) True = Some True \<and>
   gil_run (snd (snd (py_poll e event client))) True = Some True"
  by (simp add: binding_defs Let_def split: option.split prod.split sum.split)

section \<open>Topics and payloads through Python\<close>

lemma payload_bytes_span: "fm_payload m = byte_span p \<Longrightarrow> payload_bytes m = p"
  by (cases p) (simp_all add: payload_bytes_def byte_span_def bytes_of_string_def string_of_bytes_def o_def)

text \<open>Publishing from Python under a resolved name, and what Python reads of a message.\<close>

lemma py_publish_resolved:
  assumes "to_utf8 py topic = Some name" and "c_topic_map s name = Some k"
  shows "py_publish e py net topic payload s =
    (Inr (), publish_key e k (byte_span payload) s, [Python_object, Python_object] @ gil_scoped_release [Native_call])"
  using assms by (simp add: py_publish_def publish_after_lookup get_topic_key_cached)

lemma py_poll_message:
  assumes "fst (poll e event s) = Inr (Some m)"
  shows "\<exists>s'. py_poll e event s = (Inr (Some m), s', gil_scoped_release [Native_call] @ [Python_object])"
  using assms by (cases "poll e event s") (simp add: py_poll_def)

text \<open>Strings of ASCII characters, whose UTF-8 form is themselves.\<close>

definition ascii_text :: "string py_text" where
  "ascii_text = \<lparr>to_utf8 = (\<lambda>u. if \<forall>c \<in> set u. of_char c < (128 :: nat) then Some u else None),
     from_utf8 = (\<lambda>u. if \<forall>c \<in> set u. of_char c < (128 :: nat) then Some u else None)\<rparr>"

section \<open>Initialisation from Python\<close>

text \<open>The calls of a sequence of client constructions from Python, given what ENet's initialisation would return
  each time.\<close>

fun init_attempts :: "int list \<Rightarrow> bool \<Rightarrow> bool \<times> enet_call list" where
  "init_attempts [] once_done = (once_done, [])"
| "init_attempts (r # rs) once_done =
     (case init_networking_once r once_done of
        (_, once_done, calls) \<Rightarrow>
          (case init_attempts rs once_done of (once_done, calls') \<Rightarrow> (once_done, calls @ calls')))"

text \<open>From Python, ENet is initialised at the first client and, after failures, again at each later one, until it
  succeeds; from then on never again, and its cleanup is registered exactly once.\<close>

lemma init_until_success:
  "init_attempts rs False =
     (0 \<in> set rs,
      map (\<lambda>_. Enet_initialize) (takeWhile (\<lambda>r. r \<noteq> 0) rs) @
      (if 0 \<in> set rs then [Enet_initialize, Atexit_deinitialize] else []))"
proof (induction rs)
  case (Cons r rs)
  have "init_attempts rs True = (True, [])"
    by (induction rs) (simp_all add: init_networking_once_def)
  with Cons show ?case
    by (auto simp: init_networking_once_def init_def)
qed simp

end
