(* ===== verification/Wire_Types.thy ===== *)
theory Wire_Types
  imports Bus_Server Bus_Client
begin

text \<open>
  The message discipline of the protocol as a type system for packets: which kinds of packets a server
  and a client put on the wire. \<open>packet_typed\<close> says that a packet parses on its sender's host, carries
  the current version, the given origin and one of the given types. Every packet sent in any reachable
  state of the server, and of a client under any sequence of its operations, is typed; and a typed packet is
  never rejected by the other side, on hosts of any byte order. This is the type soundness of the protocol:
  a server and clients of this code never drive each other into an error or warning branch.
\<close>

definition packet_typed :: "endian \<Rightarrow> Origin \<Rightarrow> Type set \<Rightarrow> bytes \<Rightarrow> bool" where
  "packet_typed e org ts d \<longleftrightarrow>
     (case Message_ctor e d of
        Inl _ \<Rightarrow> False
      | Inr msg \<Rightarrow>
          Header_version (Message_header msg) = Version_v1 \<and> Header_origin (Message_header msg) = org \<and>
          Header_type (Message_header msg) \<in> ts)"

abbreviation server_types :: "Type set" where
  "server_types \<equiv> {Type_topic_response, Type_fanout}"

abbreviation client_types :: "Type set" where
  "client_types \<equiv> {Type_topic_request, Type_publish, Type_subscribe}"

abbreviation sends_typed :: "endian \<Rightarrow> Origin \<Rightarrow> Type set \<Rightarrow> enet_call list \<Rightarrow> bool" where
  "sends_typed e org ts calls \<equiv> \<forall>(p, d) \<in> set (sends calls). packet_typed e org ts d"

lemma packet_typed_ctor:
  "packet_typed e org ts (fst (construct e c (Header_ctor e org' t k) payload)) \<longleftrightarrow> org' = org \<and> t \<in> ts"
  by (auto simp: packet_typed_def Message_ctor_packet Header_ctor_def accessor_defs current_version_def)

lemma server_packets [simp]:
  "packet_typed e Origin_server server_types (fst (construct_topic_response e c k n Origin_server))"
  "packet_typed e Origin_server server_types (fst (construct_fanout e c k p Origin_server))"
  by (simp_all add: packet_factory_defs header_factory_defs packet_typed_ctor del: construct_simp)

lemma client_packets [simp]:
  "packet_typed e Origin_client client_types (fst (construct_topic_request e c n Origin_client))"
  "packet_typed e Origin_client client_types (fst (construct_publish e c k p Origin_client))"
  "packet_typed e Origin_client client_types (fst (construct_subscribe e c k Origin_client))"
  by (simp_all add: packet_factory_defs header_factory_defs packet_typed_ctor del: construct_simp)


text \<open>Type and origin are single bytes, so the other side reads the same ones.\<close>

lemma packet_typed_view:
  assumes "packet_typed e org ts d"
  obtains t k p where "packet_view e' d = Inr (t, org, k, p)" and "t \<in> ts"
proof (cases "length d < sizeof_Header")
  case True
  with assms show ?thesis by (simp add: packet_typed_def Message_ctor_short)
next
  case False
  then show ?thesis
    using assms that
    by (auto simp: packet_typed_def packet_view_def Message_ctor_long accessor_defs Header_of_bytes_def Let_def)
qed

section \<open>The server\<close>

lemma Client_send_typed:
  assumes "Client_send p b s = (r, s')" and "packet_typed e org ts b" and "sends_typed e org ts (enet_calls s)"
  shows "sends_typed e org ts (enet_calls s')"
  using assms by (auto simp: Client_send_def split: option.splits)

lemma fanout_loop_typed:
  assumes "packet_typed e org ts b"
  shows "\<lbrakk>fanout_loop p k b ps s = (r, s'); sends_typed e org ts (enet_calls s)\<rbrakk> \<Longrightarrow>
    sends_typed e org ts (enet_calls s')"
proof (induction ps arbitrary: s)
  case (Cons q qs)
  show ?case
  proof (cases "deref s q")
    case (Some oc)
    obtain r1 s1 where s1: "Client_send q b s = (r1, s1)" by fastforce
    with Cons Some Client_send_typed [OF s1 assms] show ?thesis
      by (cases r1) (auto split: option.splits if_splits)
  qed (use Cons in auto)
qed simp

lemma update_data_calls: "update_data p f s = (r, s') \<Longrightarrow> enet_calls s' = enet_calls s"
  by (auto simp: update_data_def split: option.splits)

lemma server_packets_dest:
  "construct_topic_response e c k n Origin_server = (b, c') \<Longrightarrow> packet_typed e Origin_server server_types b"
  "construct_fanout e c k p Origin_server = (b, c') \<Longrightarrow> packet_typed e Origin_server server_types b"
  using server_packets(1) [of e c k n] server_packets(2) [of e c k p] by simp_all

lemma on_message_typed:
  assumes "bus_on_message e p b s = (r, s')" and "sends_typed e Origin_server server_types (enet_calls s)"
  shows "sends_typed e Origin_server server_types (enet_calls s')"
proof (cases "Message_ctor e b")
  case (Inl err)
  with assms show ?thesis by (auto simp: bus_on_message_def split: option.splits if_splits)
next
  case (Inr msg)
  have "\<not> length b < sizeof_Header" using Inr by (simp add: Message_ctor_Inr_iff)
  note run = assms(1) [unfolded bus_on_message_def if_not_P [OF this] Inr sum.case]
  show ?thesis
  proof (cases "deref s p")
    case (Some c)
    let ?t = "Header_type (Message_header msg)"
    consider "?t = Type_topic_request" | "?t = Type_subscribe" | "?t = Type_unsubscribe" | "?t = Type_publish"
      | "?t \<notin> {Type_topic_request, Type_subscribe, Type_unsubscribe, Type_publish}" by blast
    then show ?thesis
    proof cases
      case 1
      with run Some assms(2) show ?thesis
        by (auto simp: on_topic_request_def Let_def split: prod.splits sum.splits
            dest!: Client_send_typed [where e = e and org = Origin_server and ts = server_types]
            intro: server_packets_dest)
    next
      case 4
      with run Some assms(2) show ?thesis
        by (auto simp: on_publish_def enum_defs Let_def split: prod.splits
            dest!: fanout_loop_typed [where e = e and org = Origin_server and ts = server_types, rotated 1]
            intro: server_packets_dest)
    qed (use run Some assms(2) in \<open>auto simp: on_subscribe_def on_unsubscribe_def enum_defs Let_def
      split: prod.splits sum.splits option.splits if_splits dest!: update_data_calls\<close>)
  qed (use run assms(2) in auto)
qed


lemma bus_step_typed:
  assumes "bus_step e event s = (r, s')" and "sends_typed e Origin_server server_types (enet_calls s)"
  shows "sends_typed e Origin_server server_types (enet_calls s')"
proof (cases event)
  case (ENET_EVENT_TYPE_RECEIVE peer packet)
  obtain r1 s1 where s1: "bus_on_message e (peer_data s peer) (packet_data packet) (poll_host s) = (r1, s1)"
    by fastforce
  have "sends_typed e Origin_server server_types (enet_calls (poll_host s))"
    using assms(2) by (simp add: poll_host_def)
  from on_message_typed [OF s1 this] show ?thesis
    using assms(1) s1 ENET_EVENT_TYPE_RECEIVE
    by (auto simp: loop_step_def bus_callbacks_def poll_host_def split: prod.splits)
qed (use assms in \<open>auto simp: loop_step_def poll_host_def bus_callbacks_def bus_on_connect_def
  bus_on_disconnect_def create_client_def destroy_client_def Let_def split: option.splits if_splits\<close>)

lemma run_typed:
  "\<lbrakk>run_events (bus_step e) events s = (r, s'); sends_typed e Origin_server server_types (enet_calls s)\<rbrakk> \<Longrightarrow>
   sends_typed e Origin_server server_types (enet_calls s')"
proof (induction events arbitrary: s)
  case (Cons event events)
  obtain r1 s1 where s1: "bus_step e event s = (r1, s1)" by fastforce
  with Cons bus_step_typed [OF s1] show ?case by (cases r1) auto
qed simp

lemma bus_process_typed:
  "\<lbrakk>bus_process e events s = (r, s'); sends_typed e Origin_server server_types (enet_calls s)\<rbrakk> \<Longrightarrow>
   sends_typed e Origin_server server_types (enet_calls s')"
  using run_typed [of e events s]
  by (auto simp: bus_process_run poll_host_def split: prod.splits sum.splits)

section \<open>The client\<close>

text \<open>What a program can do with a client: any sequence of its public operations, with whatever ENet answers.\<close>

inductive client_reachable :: "endian \<Rightarrow> bus_client \<Rightarrow> bool" for e where
  constructed: "fst (bus_client_ctor res host port) = Inr s \<Longrightarrow> client_reachable e s"
| resolved: "\<lbrakk>client_reachable e s; get_topic_key e net topic s = (r, s')\<rbrakk> \<Longrightarrow> client_reachable e s'"
| published: "\<lbrakk>client_reachable e s; publish e net topic payload s = (r', s')\<rbrakk> \<Longrightarrow> client_reachable e s'"
| published_key: "client_reachable e s \<Longrightarrow> client_reachable e (publish_key e k payload s)"
| published_string: "\<lbrakk>client_reachable e s; publish_string e net topic str s = (r', s')\<rbrakk> \<Longrightarrow> client_reachable e s'"
| published_key_string: "client_reachable e s \<Longrightarrow> client_reachable e (publish_key_string e k str s)"
| subscribed_to: "\<lbrakk>client_reachable e s; subscribe e net topic s = (r', s')\<rbrakk> \<Longrightarrow> client_reachable e s'"
| processed: "\<lbrakk>client_reachable e s; client_process e event (f :: Message \<Rightarrow> nat \<Rightarrow> (cpp_error + unit) \<times> nat) s captured = (r', s', captured')\<rbrakk>
     \<Longrightarrow> client_reachable e s'"
| polled: "\<lbrakk>client_reachable e s; poll e event s = (r'', s')\<rbrakk> \<Longrightarrow> client_reachable e s'"
| destroyed: "client_reachable e s \<Longrightarrow> client_reachable e (bus_client_dtor events s)"

lemma sends_drain [simp]: "sends (net_client_drain h events) = []"
  by (induction h events rule: net_client_drain.induct) (simp_all split: ENetEvent.split)

lemma sends_dtor [simp]: "sends (net_client_dtor c events) = []"
  by (simp add: net_client_dtor_def)

lemma sends_process [simp]:
  "client_process e event f s captured = (r, s', captured') \<Longrightarrow> sends (c_calls s') = sends (c_calls s)"
  by (auto simp: client_process_def net_client_process_def Packet_dtor_def enet_packet_destroy_def
      Packet_default_def Packet_ctor_def Packet_move_assign_def Let_def
      split: option.splits ENetEvent.splits prod.splits)

lemma get_topic_key_typed:
  assumes "get_topic_key e net topic s = (r, s')" and "sends_typed e Origin_client client_types (c_calls s)"
  shows "sends_typed e Origin_client client_types (c_calls s')"
proof (cases "c_topic_map s topic")
  case None
  obtain x calls where c: "net_client_ctor (tl_connect net) (c_host s) (c_port s) = (x, calls)" by fastforce
  have "sends calls = []" using ctor_calls(1) [of "tl_connect net" "c_host s" "c_port s"] c by simp
  with None assms c show ?thesis
    by (auto simp: get_topic_key_uncached Let_def simp del: construct_simp split: prod.splits sum.splits)
qed (use assms in \<open>simp add: get_topic_key_cached\<close>)

lemma publish_key_typed:
  assumes "sends_typed e Origin_client client_types (c_calls s)"
  shows "sends_typed e Origin_client client_types (c_calls (publish_key e k payload s))"
  using assms by simp

lemma publish_typed:
  assumes "publish e net topic payload s = (r, s')" and "sends_typed e Origin_client client_types (c_calls s)"
  shows "sends_typed e Origin_client client_types (c_calls s')"
proof -
  obtain x s1 where s1: "get_topic_key e net topic s = (x, s1)" by fastforce
  with assms get_topic_key_typed [OF s1] show ?thesis
    by (cases x) (auto simp: publish_after_lookup)
qed

lemma subscribe_typed:
  assumes "subscribe e net topic s = (r, s')" and "sends_typed e Origin_client client_types (c_calls s)"
  shows "sends_typed e Origin_client client_types (c_calls s')"
proof -
  obtain x s1 where s1: "get_topic_key e net topic s = (x, s1)" by fastforce
  have "packet_typed e Origin_client client_types (fst (construct_subscribe e (c_protocol_constructor s1) k Origin_client))" for k
    by simp
  with assms s1 get_topic_key_typed [OF s1] show ?thesis
    by (cases x) (auto simp: subscribe_def net_client_send_def case_prod_beta Let_def simp del: construct_simp)
qed

lemma client_reachable_typed: "client_reachable e s \<Longrightarrow> sends_typed e Origin_client client_types (c_calls s)"
proof (induction rule: client_reachable.induct)
  case (constructed res host port s)
  obtain x calls where c: "net_client_ctor res host port = (x, calls)" by fastforce
  have "sends calls = []" using ctor_calls(1) [of res host port] c by simp
  with c constructed show ?case by (cases x) (auto simp: bus_client_ctor_def)
next
  case (published_string s net topic str r' s')
  then show ?case using publish_typed by (simp add: publish_string_def)
next
  case (polled s event r'' s')
  have "sends (map Packet_destroy (received_packet event)) = []"
    by (cases event rule: received_packet.cases) simp_all
  with polled show ?case by (auto simp: poll_result)
qed (use get_topic_key_typed publish_typed subscribe_typed in \<open>simp_all add: publish_key_string_def bus_client_dtor_def\<close>)


section \<open>Typed packets are accepted\<close>

lemma typed_poll:
  assumes "packet_typed e Origin_server server_types d"
  shows "\<not> isl (fst (poll e' (Some (ENET_EVENT_TYPE_RECEIVE r \<lparr>packet_ptr = y, packet_data = d\<rparr>)) C))"
proof -
  obtain t k p where "packet_view e' d = Inr (t, Origin_server, k, p)"
    by (rule packet_typed_view [OF assms, of e'])
  then show ?thesis by (simp add: poll_result poll_answer_def)
qed

lemma fanout_loop_log:
  assumes "deref s p = Some c" and "\<And>q. q \<in> set ps \<Longrightarrow> deref s q \<noteq> None"
  shows "\<exists>s' entries. fanout_loop p k b ps s = (Inr (), s') \<and> m_log s' = m_log s @ entries \<and>
    (\<forall>x \<in> set entries. log_level x = Debug)"
  using fanout_loop_result [OF assms] by auto

lemma typed_handled:
  assumes "packet_typed e Origin_client client_types d" and "net_inv s" and "deref s p = Some c"
  shows "\<exists>s' entries. bus_on_message e' p d s = (Inr (), s') \<and> m_log s' = m_log s @ entries \<and>
    (\<forall>x \<in> set entries. log_level x \<noteq> Warning)"
proof -
  obtain t k b where view: "packet_view e' d = Inr (t, Origin_client, k, b)" "t \<in> client_types"
    by (rule packet_typed_view [OF assms(1), of e'])
  then obtain msg where msg: "Message_ctor e' d = Inr msg" and t: "Header_type (Message_header msg) \<in> client_types"
    unfolding packet_view_def by (cases "Message_ctor e' d") simp_all
  note run = bus_on_message_long [OF msg assms(3)]
  from t consider "Header_type (Message_header msg) = Type_topic_request"
    | "Header_type (Message_header msg) = Type_publish" | "Header_type (Message_header msg) = Type_subscribe" by blast
  then show ?thesis
  proof cases
    case 1
    then show ?thesis unfolding run
      using assms(3) by (auto simp: on_topic_request_def Client_send_def log_def issue_def deref_def Let_def split: prod.split option.splits)
  next
    case 2
    let ?s = "log (Received_message (cl_id c) (Message_to_string e' msg)) s"
    obtain b builder where b: "construct_fanout e' (m_protocol_constructor ?s) (Header_topic_key e' (Message_header msg))
        (Message_payload msg) Origin_server = (b, builder)" by fastforce
    have live: "deref (?s\<lparr>m_protocol_constructor := builder\<rparr>) p = Some c"
      "\<And>q. q \<in> set (m_clients s) \<Longrightarrow> deref (?s\<lparr>m_protocol_constructor := builder\<rparr>) q \<noteq> None"
      using assms(3) deref_live [OF assms(2)] by simp_all
    have "\<exists>s' entries. on_publish e' p msg ?s = (Inr (), s') \<and> m_log s' = m_log ?s @ entries \<and>
        (\<forall>x \<in> set entries. log_level x = Debug)"
      using fanout_loop_log [OF live, where b = b and k = "Header_topic_key e' (Message_header msg)"] b
      by (simp add: on_publish_def clients_def Let_def)
    then show ?thesis unfolding run using 2 by (auto simp: log_def enum_defs)
  next
    case 3
    then show ?thesis unfolding run
      using assms(3) by (auto simp: on_subscribe_def update_data_def log_def deref_def enum_defs Let_def split: option.splits)
  qed
qed

section \<open>Properties\<close>

text \<open>C16: Type soundness, server side: in every reachable state every packet the server has sent is a well-formed packet of the
  current version with origin \<^verbatim>\<open>server\<close> and type \<^verbatim>\<open>topic_response\<close> or \<^verbatim>\<open>fanout\<close>, whatever bytes the peers sent
  it; and no client that polls such a packet, on a host of whatever byte order, throws.\<close>

theorem server_packets_typed:
  assumes "bus_reachable e s" and "(p, d) \<in> set (sends (enet_calls s))"
  shows "packet_typed e Origin_server {Type_topic_response, Type_fanout} d \<and>
    \<not> isl (fst (poll e' (Some (ENET_EVENT_TYPE_RECEIVE r \<lparr>packet_ptr = y, packet_data = d\<rparr>)) C))"
proof -
  have "sends_typed e Origin_server server_types (enet_calls s)"
    using assms(1)
  proof (induction rule: bus_reachable.induct)
    case (started quill port host lg s)
    then show ?case using bus_server_ctor_Inr by fastforce
  next
    case (processed s events r s')
    then show ?case using bus_process_typed by blast
  qed
  with assms(2) typed_poll show ?thesis by blast
qed

text \<open>C17: Type soundness, client side: under any sequence of operations, every packet a client has sent is a well-formed packet of the
  current version with origin \<^verbatim>\<open>client\<close> and type \<^verbatim>\<open>topic_request\<close>, \<^verbatim>\<open>publish\<close> or \<^verbatim>\<open>subscribe\<close>; and
  a server that receives it from a connected client handles it without an exception and without a warning, on a host of
  whatever byte order.\<close>

theorem client_packets_typed:
  assumes "client_reachable e C" and "(p, d) \<in> set (sends (c_calls C))"
    and "net_inv s" and "deref s q \<noteq> None"
  shows "packet_typed e Origin_client {Type_topic_request, Type_publish, Type_subscribe} d \<and>
    (\<exists>s' entries. bus_on_message e' q d s = (Inr (), s') \<and> m_log s' = m_log s @ entries \<and>
      (\<forall>x \<in> set entries. log_level x \<noteq> Warning))"
proof -
  have "packet_typed e Origin_client client_types d"
    using client_reachable_typed [OF assms(1)] assms(2) by blast
  then show ?thesis using typed_handled [OF _ assms(3)] assms(4) by blast
qed


theorem server_packets_typed_witness:
  "packet_typed Little Origin_server {Type_topic_response, Type_fanout} (reply_bytes Little (Fanout_of 1 [7]))"
proof -
  obtain s where s: "bus_process Little example_events example_server = (Inr (), s)"
    and out: "sends (enet_calls s) = [(2, reply_bytes Little (Fanout_of 1 [7]))]"
    using example_served by blast
  have "bus_reachable Little s"
    by (rule bus_reachable.processed [OF bus_reachable.started [OF example_server_started] example_protocol s])
  then show ?thesis
    using server_packets_typed [of Little s 2 "reply_bytes Little (Fanout_of 1 [7])"] out by simp
qed

theorem client_packets_typed_witness:
  "\<exists>s' entries. bus_on_message Big (Some 1)
      (fst (construct_publish Little Constructor_ctor 1 [42] Origin_client)) three_clients = (Inr (), s') \<and>
    m_log s' = m_log three_clients @ entries \<and> (\<forall>x \<in> set entries. log_level x \<noteq> Warning)"
proof -
  let ?C = "publish_key Little 1 [42] example_client"
  have C: "client_reachable Little ?C"
    by (rule client_reachable.published_key, rule client_reachable.constructed [of example_connect "''localhost''" 6767])
      (simp add: example_client_def bus_client_ctor_def example_connected)
  have d: "(30, fst (construct_publish Little Constructor_ctor 1 [42] Origin_client)) \<in> set (sends (c_calls ?C))"
    by simp
  have q: "deref three_clients (Some 1) \<noteq> None" by (simp add: three_clients_def deref_def)
  show ?thesis
    using client_packets_typed [OF C d three_clients_inv q, of Big] by blast
qed

end
