(* ===== verification/Views.thy ===== *)
theory Views
  imports Protocol
begin

text \<open>
  Spans and views as the code has them. The other theories pass packet contents as values; the code
  passes \<^verbatim>\<open>std::span\<close>s into buffers that it overwrites and packets that it destroys
  (\<^verbatim>\<open>networking/protocol.hpp\<close>). Here a span is an address, a range and the generation of the object it was
  taken from. Memory maps addresses to byte objects; modifying, clearing or freeing an object starts a
  new generation, after which older spans into it must not be read. Reading through such a span gives
  \<open>None\<close>, and the operations of the protocol turn that into \<open>Undefined_behaviour\<close>. Spans of length
  zero are never dereferenced.

  A vector that grows may or may not reallocate; every insertion counts as a reallocation here, so
  the absence of undefined behaviour does not depend on capacities.
\<close>

section \<open>Memory and spans\<close>

type_synonym addr = nat

record memory =
  objects :: "addr \<rightharpoonup> bytes"
  generation :: "addr \<Rightarrow> nat"
  next_addr :: addr

record span =
  sp_addr :: addr
  sp_gen :: nat
  sp_off :: nat
  sp_len :: nat

definition memory_ok :: "memory \<Rightarrow> bool" where
  "memory_ok m \<longleftrightarrow> (\<forall>a. next_addr m \<le> a \<longrightarrow> objects m a = None)"

definition store_object :: "addr \<Rightarrow> bytes option \<Rightarrow> memory \<Rightarrow> memory" where
  "store_object a c m = m\<lparr>objects := (objects m)(a := c), generation := (generation m)(a := Suc (generation m a))\<rparr>"

definition alloc :: "bytes \<Rightarrow> memory \<Rightarrow> addr \<times> memory" where
  "alloc bs m = (next_addr m, (store_object (next_addr m) (Some bs) m)\<lparr>next_addr := Suc (next_addr m)\<rparr>)"

definition free :: "addr \<Rightarrow> memory \<Rightarrow> memory" where
  "free a m = store_object a None m"

definition empty_span :: span where
  "empty_span = \<lparr>sp_addr = 0, sp_gen = 0, sp_off = 0, sp_len = 0\<rparr>"

definition span_of :: "memory \<Rightarrow> addr \<Rightarrow> span" where
  "span_of m a =
     \<lparr>sp_addr = a, sp_gen = generation m a, sp_off = 0,
      sp_len = (case objects m a of None \<Rightarrow> 0 | Some bs \<Rightarrow> length bs)\<rparr>"

definition subspan :: "span \<Rightarrow> nat \<Rightarrow> span" where
  "subspan sp off = sp\<lparr>sp_off := sp_off sp + off, sp_len := sp_len sp - off\<rparr>"

definition first :: "span \<Rightarrow> nat \<Rightarrow> span" where
  "first sp n = sp\<lparr>sp_len := min n (sp_len sp)\<rparr>"

definition read_span :: "memory \<Rightarrow> span \<Rightarrow> bytes option" where
  "read_span m sp =
     (if sp_len sp = 0 then Some []
      else
        (case objects m (sp_addr sp) of
           None \<Rightarrow> None
         | Some bs \<Rightarrow>
             if generation m (sp_addr sp) = sp_gen sp \<and> sp_off sp + sp_len sp \<le> length bs
             then Some (take (sp_len sp) (drop (sp_off sp) bs)) else None))"

text \<open>The operations of \<^verbatim>\<open>std::vector<std::byte>\<close> that the packet builder uses.\<close>

definition vector_clear :: "addr \<Rightarrow> memory \<Rightarrow> memory" where
  "vector_clear a m = store_object a (Some []) m"

definition vector_append :: "addr \<Rightarrow> bytes \<Rightarrow> memory \<Rightarrow> memory" where
  "vector_append a bs m = store_object a (Some (the (objects m a) @ bs)) m"

lemma store_object_simps [simp]:
  "objects (store_object a c m) = (objects m)(a := c)"
  "generation (store_object a c m) = (generation m)(a := Suc (generation m a))"
  "next_addr (store_object a c m) = next_addr m"
  by (simp_all add: store_object_def)

lemma read_span_length: "read_span m sp = Some bs \<Longrightarrow> length bs = sp_len sp"
  by (auto simp: read_span_def split: if_splits option.splits)

lemma read_span_of [simp]: "objects m a = Some bs \<Longrightarrow> read_span m (span_of m a) = Some bs"
  by (simp add: read_span_def span_of_def)

lemma span_of_addr [simp]: "sp_addr (span_of m a) = a"
  by (simp add: span_of_def)

lemma read_subspan:
  "\<lbrakk>read_span m sp = Some bs; n \<le> sp_len sp\<rbrakk> \<Longrightarrow> read_span m (subspan sp n) = Some (drop n bs)"
  by (auto simp: read_span_def subspan_def drop_take ac_simps split: if_splits option.splits)

lemma read_first:
  "\<lbrakk>read_span m sp = Some bs; n \<le> sp_len sp\<rbrakk> \<Longrightarrow> read_span m (first sp n) = Some (take n bs)"
  by (auto simp: read_span_def first_def split: if_splits option.splits)

lemma read_span_other [simp]:
  "sp_addr sp \<noteq> a \<Longrightarrow> read_span (store_object a c m) sp = read_span m sp"
  by (simp add: read_span_def split: option.split)

lemma read_span_next [simp]: "read_span (m\<lparr>next_addr := n\<rparr>) sp = read_span m sp"
  by (simp add: read_span_def split: option.split)

text \<open>A span from before a change of its object is dead for good.\<close>

lemma read_span_stale:
  assumes "sp_len sp \<noteq> 0" and "sp_gen sp < generation m (sp_addr sp)"
  shows "read_span m sp = None"
  using assms by (auto simp: read_span_def split: option.split)

lemma read_span_alive: "\<lbrakk>read_span m sp = Some bs; sp_len sp \<noteq> 0\<rbrakk> \<Longrightarrow> objects m (sp_addr sp) \<noteq> None"
  by (auto simp: read_span_def split: option.splits)

text \<open>Spans in use keep clear of newly allocated objects.\<close>

lemma read_span_alloc:
  assumes "memory_ok m" and "read_span m sp = Some bs" and "alloc x m = (a, m')"
  shows "read_span m' sp = Some bs"
proof (cases "sp_len sp = 0")
  case True
  with assms(2) show ?thesis by (simp add: read_span_def)
next
  case False
  with assms(1,2) have "sp_addr sp \<noteq> next_addr m"
    using read_span_alive [OF assms(2)] by (auto simp: memory_ok_def)
  with assms(2,3) show ?thesis by (auto simp: alloc_def)
qed

lemma memory_ok_simps [simp]:
  "memory_ok m \<Longrightarrow> memory_ok (snd (alloc bs m))"
  "memory_ok m \<Longrightarrow> memory_ok (free a m)"
  by (auto simp: memory_ok_def alloc_def free_def)


section \<open>The packet builder\<close>

text \<open>
  \<^verbatim>\<open>Constructor\<close> on memory: \<open>builder\<close> is the address of \<^verbatim>\<open>m_buffer\<close>. The payload is read after the buffer
  was cleared and the header inserted.
\<close>

definition construct_v :: "endian \<Rightarrow> addr \<Rightarrow> Header \<Rightarrow> span \<Rightarrow> memory \<Rightarrow> (cpp_error + span) \<times> memory" where
  "construct_v e builder header payload m =
     (let m = vector_clear builder m;
          header_bytes = bytes_of_Header e header;
          m = vector_append builder header_bytes m
      in case read_span m payload of
           None \<Rightarrow> (Inl Undefined_behaviour, m)
         | Some bs \<Rightarrow>
             (let m = vector_append builder bs m in (Inr (span_of m builder), m)))"

definition topic_request_v :: "endian \<Rightarrow> addr \<Rightarrow> span \<Rightarrow> Origin \<Rightarrow> memory \<Rightarrow> (cpp_error + span) \<times> memory" where
  "topic_request_v e builder topic_name origin m =
     construct_v e builder (Header_topic_request e origin) topic_name m"

definition topic_response_v ::
    "endian \<Rightarrow> addr \<Rightarrow> u64 \<Rightarrow> span \<Rightarrow> Origin \<Rightarrow> memory \<Rightarrow> (cpp_error + span) \<times> memory" where
  "topic_response_v e builder topic_key topic_name origin m =
     construct_v e builder (Header_topic_response e topic_key origin) topic_name m"

definition publish_v :: "endian \<Rightarrow> addr \<Rightarrow> u64 \<Rightarrow> span \<Rightarrow> Origin \<Rightarrow> memory \<Rightarrow> (cpp_error + span) \<times> memory" where
  "publish_v e builder topic_key payload origin m =
     construct_v e builder (Header_publish e topic_key origin) payload m"

definition subscribe_v :: "endian \<Rightarrow> addr \<Rightarrow> u64 \<Rightarrow> Origin \<Rightarrow> memory \<Rightarrow> (cpp_error + span) \<times> memory" where
  "subscribe_v e builder topic_key origin m =
     construct_v e builder (Header_subscribe e topic_key origin) empty_span m"

definition fanout_v :: "endian \<Rightarrow> addr \<Rightarrow> u64 \<Rightarrow> span \<Rightarrow> Origin \<Rightarrow> memory \<Rightarrow> (cpp_error + span) \<times> memory" where
  "fanout_v e builder topic_key payload origin m =
     construct_v e builder (Header_fanout e topic_key origin) payload m"

text \<open>The constructor as a value: the contents of its buffer.\<close>

definition buffer_at :: "memory \<Rightarrow> addr \<Rightarrow> Constructor" where
  "buffer_at m builder = \<lparr>m_buffer = the (objects m builder)\<rparr>"

definition same_elsewhere :: "addr \<Rightarrow> memory \<Rightarrow> memory \<Rightarrow> bool" where
  "same_elsewhere a m m' \<longleftrightarrow>
     (\<forall>b. b \<noteq> a \<longrightarrow> objects m' b = objects m b \<and> generation m' b = generation m b) \<and> next_addr m' = next_addr m"

lemma same_elsewhere_read:
  "\<lbrakk>same_elsewhere a m m'; sp_addr sp \<noteq> a \<or> sp_len sp = 0\<rbrakk> \<Longrightarrow> read_span m' sp = read_span m sp"
  by (auto simp: same_elsewhere_def read_span_def split: option.split)

text \<open>The packet built, and that nothing but the buffer changes.\<close>

lemma construct_v_correct:
  assumes "read_span m payload = Some p" and "sp_addr payload \<noteq> builder \<or> sp_len payload = 0"
  obtains sp m' where "construct_v e builder h payload m = (Inr sp, m')"
    and "sp_addr sp = builder" and "read_span m' sp = Some (fst (construct e c h p))"
    and "objects m' builder = Some (m_buffer (snd (construct e c h p)))"
    and "same_elsewhere builder m m'" and "generation m builder < generation m' builder"
proof -
  let ?m1 = "vector_append builder (bytes_of_Header e h) (vector_clear builder m)"
  let ?m2 = "vector_append builder p ?m1"
  have same: "same_elsewhere builder m ?m1"
    by (simp add: same_elsewhere_def vector_append_def vector_clear_def)
  then have "read_span ?m1 payload = Some p"
    using assms same_elsewhere_read by simp
  then have "construct_v e builder h payload m = (Inr (span_of ?m2 builder), ?m2)"
    by (simp add: construct_v_def Let_def)
  moreover have o: "objects ?m2 builder = Some (bytes_of_Header e h @ p)"
    by (simp add: vector_append_def vector_clear_def)
  moreover have "same_elsewhere builder m ?m2" "generation m builder < generation ?m2 builder"
    by (simp_all add: same_elsewhere_def vector_append_def vector_clear_def)
  ultimately show ?thesis
    by (intro that [of "span_of ?m2 builder" ?m2]) (simp_all del: construct_simp add: construct_def Let_def)
qed


text \<open>The builder on spans and on values.\<close>

lemma construct_v_buffer:
  assumes "read_span m payload = Some p" and "sp_addr payload \<noteq> builder \<or> sp_len payload = 0"
  obtains sp m' where "construct_v e builder h payload m = (Inr sp, m')"
    and "read_span m' sp = Some (fst (construct e (buffer_at m builder) h p))"
    and "snd (construct e (buffer_at m builder) h p) = buffer_at m' builder"
    and "objects m' builder \<noteq> None" and "same_elsewhere builder m m'"
proof -
  obtain sp m' where run: "construct_v e builder h payload m = (Inr sp, m')"
    "read_span m' sp = Some (fst (construct e (buffer_at m builder) h p))"
    "objects m' builder = Some (m_buffer (snd (construct e (buffer_at m builder) h p)))"
    "same_elsewhere builder m m'"
    by (rule construct_v_correct [OF assms])
  from run(3) have "snd (construct e (buffer_at m builder) h p) = buffer_at m' builder"
    by (simp add: buffer_at_def)
  with run show ?thesis by (intro that) simp_all
qed

lemma memory_ok_elsewhere:
  assumes "memory_ok m" and "same_elsewhere b m m'" and "b < next_addr m"
  shows "memory_ok m'"
  using assms by (auto simp: memory_ok_def same_elsewhere_def)

lemma alive_below: "\<lbrakk>memory_ok m; objects m b \<noteq> None\<rbrakk> \<Longrightarrow> b < next_addr m"
  by (metis memory_ok_def not_less)

section \<open>Messages\<close>

text \<open>
  \<^verbatim>\<open>Message\<close>: the header pointer and the payload are spans into the packet; the attached topic is a
  value here, since the code sets it to a string that the callback cannot change.
\<close>

record message_view =
  v_header :: span
  v_payload :: span
  v_topic :: string

definition parse_header_v :: "span \<Rightarrow> cpp_error + span" where
  "parse_header_v data =
     (if sp_len data < sizeof_Header then Inl (Runtime_error ''Data too short to contain header'')
      else Inr (first data sizeof_Header))"

definition Message_ctor_v :: "span \<Rightarrow> cpp_error + message_view" where
  "Message_ctor_v data =
     (case parse_header_v data of
        Inl err \<Rightarrow> Inl err
      | Inr header \<Rightarrow> Inr \<lparr>v_header = header, v_payload = subspan data sizeof_Header, v_topic = []\<rparr>)"

definition set_topic_v :: "string \<Rightarrow> message_view \<Rightarrow> message_view" where
  "set_topic_v topic_name msg = msg\<lparr>v_topic := topic_name\<rparr>"

text \<open>\<^verbatim>\<open>header()\<close> dereferences the pointer; \<^verbatim>\<open>payload()\<close> returns the span and reads nothing.\<close>

definition header_v :: "endian \<Rightarrow> memory \<Rightarrow> message_view \<Rightarrow> Header option" where
  "header_v e m msg = map_option (Header_of_bytes e) (read_span m (v_header msg))"

text \<open>The message as a value, when both of its spans can be read.\<close>

definition message_at :: "endian \<Rightarrow> memory \<Rightarrow> message_view \<Rightarrow> Message option" where
  "message_at e m msg =
     (case (header_v e m msg, read_span m (v_payload msg)) of
        (Some h, Some p) \<Rightarrow> Some \<lparr>m_header = h, m_payload = p, m_topic = v_topic msg\<rparr>
      | _ \<Rightarrow> None)"

lemma sizeof_Header_positive [simp]: "0 < sizeof_Header"
  by (simp add: sizeof_Header_def)

text \<open>Parsing through spans is parsing of the bytes they show.\<close>

lemma Message_ctor_v_correct:
  assumes "read_span m data = Some d"
  shows "(case Message_ctor_v data of Inl err \<Rightarrow> Inl err | Inr v \<Rightarrow> Inr (message_at e m v)) =
    map_sum id Some (Message_ctor e d)"
proof (cases "length d < sizeof_Header")
  case True
  with assms read_span_length show ?thesis
    by (fastforce simp: Message_ctor_v_def parse_header_v_def Message_ctor_short)
next
  case False
  with read_span_length [OF assms] have len: "sizeof_Header \<le> sp_len data" by simp
  have "Header_of_bytes e (take sizeof_Header d) = Header_of_bytes e d"
    using False by (simp add: Header_of_bytes_def sizeof_Header_def take_drop min_def)
  with False len read_first [OF assms len] read_subspan [OF assms len] show ?thesis
    by (simp add: Message_ctor_v_def parse_header_v_def Message_ctor_long message_at_def header_v_def)
qed

text \<open>A view keeps its value as long as the packet it looks into is left alone.\<close>

lemma message_at_elsewhere:
  assumes "same_elsewhere a m m'" and "sp_addr (v_header msg) \<noteq> a" and "sp_addr (v_payload msg) \<noteq> a"
  shows "message_at e m' msg = message_at e m msg"
  using assms same_elsewhere_read by (simp add: message_at_def header_v_def)

lemma Message_ctor_v_spans:
  assumes "Message_ctor_v data = Inr v"
  shows "sp_addr (v_header v) = sp_addr data" and "sp_addr (v_payload v) = sp_addr data" and "v_topic v = []"
  using assms by (auto simp: Message_ctor_v_def parse_header_v_def first_def subspan_def split: if_splits sum.splits)


section \<open>Properties\<close>

lemma construct_v_clears: "generation (snd (construct_v e builder h payload m)) builder > generation m builder"
  by (simp add: construct_v_def vector_append_def vector_clear_def Let_def split: option.split)

lemma construct_v_alias:
  assumes "sp_addr payload = builder" and "sp_len payload \<noteq> 0" and "sp_gen payload \<le> generation m builder"
  shows "fst (construct_v e builder h payload m) = Inl Undefined_behaviour"
proof -
  have "read_span (vector_append builder (bytes_of_Header e h) (vector_clear builder m)) payload = None"
    using assms by (intro read_span_stale) (simp_all add: vector_append_def vector_clear_def)
  then show ?thesis by (simp add: construct_v_def Let_def)
qed

text \<open>C20: The lifetime of a packet in the builder: a payload outside the builder's own buffer gives a span that shows exactly the
  packet of the value model, and goes on showing it while other objects change, until the next call on the same builder, after which it
  must not be read. A nonempty payload that is itself a span of the builder's buffer, such as an earlier packet, is read after the
  buffer was cleared: undefined behaviour.\<close>

theorem packet_span_lifetime:
  assumes "read_span m payload = Some p" and "sp_addr payload \<noteq> builder"
  shows "\<exists>sp m1. construct_v e builder h payload m = (Inr sp, m1) \<and>
    read_span m1 sp = Some (fst (construct e c h p)) \<and>
    (\<forall>a m2. a \<noteq> builder \<and> same_elsewhere a m1 m2 \<longrightarrow> read_span m2 sp = Some (fst (construct e c h p))) \<and>
    (\<forall>e' h' payload' m2. generation m1 builder \<le> generation m2 builder \<longrightarrow>
      read_span (snd (construct_v e' builder h' payload' m2)) sp = None \<and>
      fst (construct_v e' builder h' sp m2) = Inl Undefined_behaviour)"
proof -
  obtain sp m1 where run: "construct_v e builder h payload m = (Inr sp, m1)" "sp_addr sp = builder"
    "read_span m1 sp = Some (fst (construct e c h p))"
    by (rule construct_v_correct [OF assms(1) disjI1 [OF assms(2)]])
  have len: "sp_len sp \<noteq> 0"
    using read_span_length [OF run(3)] by (simp add: sizeof_Header_def)
  have gen: "sp_gen sp = generation m1 builder"
    using run(2,3) len by (auto simp: read_span_def split: option.splits if_splits)
  have "read_span (snd (construct_v e' builder h' payload' m2)) sp = None"
    if "generation m1 builder \<le> generation m2 builder" for e' h' payload' m2
    using construct_v_clears [of m2 builder e' h' payload'] that gen run(2) by (intro read_span_stale [OF len]) simp
  moreover have "fst (construct_v e' builder h' sp m2) = Inl Undefined_behaviour"
    if "generation m1 builder \<le> generation m2 builder" for e' h' m2
    using that gen by (intro construct_v_alias [OF run(2) len]) simp
  moreover have "read_span m2 sp = read_span m1 sp" if "a \<noteq> builder" "same_elsewhere a m1 m2" for a m2
    using that run(2) by (intro same_elsewhere_read) auto
  ultimately show ?thesis
    using run(1,3) by auto
qed

definition example_memory :: memory where
  "example_memory = \<lparr>objects = [0 \<mapsto> [], 1 \<mapsto> [7, 8]], generation = (\<lambda>_. 0), next_addr = 2\<rparr>"

theorem packet_span_lifetime_witness:
  "\<exists>sp m1. construct_v Little 0 (Header_publish Little 1 Origin_client) (span_of example_memory 1) example_memory = (Inr sp, m1) \<and>
     read_span m1 sp = Some (fst (construct_publish Little Constructor_ctor 1 [7, 8] Origin_client)) \<and>
     fst (construct_v Little 0 (Header_publish Little 1 Origin_client) sp m1) = Inl Undefined_behaviour"
proof -
  have "read_span example_memory (span_of example_memory 1) = Some [7, 8]"
    by (simp add: example_memory_def)
  from packet_span_lifetime [OF this, of 0 Little "Header_publish Little 1 Origin_client" Constructor_ctor]
  show ?thesis unfolding construct_publish_def by auto
qed

end
