(* ===== verification/Server_Views.thy ===== *)
theory Server_Views
  imports Views Bus_Server
begin

text \<open>
  The message handler of the server (\<^verbatim>\<open>src/spraybus/server/server.cpp\<close>) and the event loop around it
  (\<^verbatim>\<open>networking/server/server.hpp\<close>) on spans. \<open>builder\<close> is the address of the buffer of
  \<^verbatim>\<open>m_protocol_constructor\<close>; a received packet is an object that ENet allocated and that the packet guard frees after the
  handler; the topic name is a local string of the handler. \<open>with_buffer\<close> puts the contents of the buffer into the
  state of \<open>Bus_Server\<close>. The refinement shows that the handlers on spans compute what the handlers on values compute, so
  no span is read after its object was overwritten or freed, and that they leave no object behind.
\<close>

section \<open>Model\<close>

definition Client_send_v ::
    "client_ptr \<Rightarrow> span \<Rightarrow> memory \<Rightarrow> bus_server \<Rightarrow> (cpp_error + unit) \<times> bus_server" where
  "Client_send_v client message m s =
     (case read_span m message of
        None \<Rightarrow> (Inl Undefined_behaviour, s)
      | Some bytes \<Rightarrow> Client_send client bytes s)"

definition on_topic_request_v ::
    "endian \<Rightarrow> addr \<Rightarrow> client_ptr \<Rightarrow> message_view \<Rightarrow> memory \<Rightarrow> bus_server \<Rightarrow>
     (cpp_error + unit) \<times> memory \<times> bus_server" where
  "on_topic_request_v e builder client msg m s =
     (case read_span m (v_payload msg) of
        None \<Rightarrow> (Inl Undefined_behaviour, m, s)
      | Some payload \<Rightarrow>
          (let (topic_name, m) = alloc payload m;
               name = string_of_bytes payload;
               (topic_key, topics) = get_or_create name (m_topic_map s);
               s = s\<lparr>m_topic_map := topics\<rparr>
           in case topic_response_v e builder topic_key (span_of m topic_name) Origin_server m of
                (Inl err, m) \<Rightarrow> (Inl err, free topic_name m, s)
              | (Inr response_payload, m) \<Rightarrow>
                  (case Client_send_v client response_payload m s of
                     (Inl err, s) \<Rightarrow> (Inl err, free topic_name m, s)
                   | (Inr _, s) \<Rightarrow> (Inr (), free topic_name m, log (Registered_topic name topic_key) s))))"

text \<open>\<^verbatim>\<open>subscribe\<close> and \<^verbatim>\<open>unsubscribe\<close> read the header only.\<close>

definition on_subscribe_v ::
    "endian \<Rightarrow> client_ptr \<Rightarrow> message_view \<Rightarrow> memory \<Rightarrow> bus_server \<Rightarrow> (cpp_error + unit) \<times> bus_server" where
  "on_subscribe_v e client msg m s =
     (case header_v e m msg of
        None \<Rightarrow> (Inl Undefined_behaviour, s)
      | Some h \<Rightarrow> on_subscribe e client \<lparr>m_header = h, m_payload = [], m_topic = []\<rparr> s)"

definition on_unsubscribe_v ::
    "endian \<Rightarrow> client_ptr \<Rightarrow> message_view \<Rightarrow> memory \<Rightarrow> bus_server \<Rightarrow> (cpp_error + unit) \<times> bus_server" where
  "on_unsubscribe_v e client msg m s =
     (case header_v e m msg of
        None \<Rightarrow> (Inl Undefined_behaviour, s)
      | Some h \<Rightarrow> on_unsubscribe e client \<lparr>m_header = h, m_payload = [], m_topic = []\<rparr> s)"

fun fanout_loop_v ::
    "client_ptr \<Rightarrow> u64 \<Rightarrow> span \<Rightarrow> client_ptr list \<Rightarrow> memory \<Rightarrow> bus_server \<Rightarrow> (cpp_error + unit) \<times> bus_server" where
  "fanout_loop_v client topic_key fanout_payload [] m s = (Inr (), s)"
| "fanout_loop_v client topic_key fanout_payload (other # others) m s =
     (case (deref s other, deref s client) of
        (Some oc, Some c) \<Rightarrow>
          (if cl_id oc \<noteq> cl_id c \<and> topic_key \<in> subscribed_topics (cl_data oc) then
             (case Client_send_v other fanout_payload m s of
                (Inl err, s) \<Rightarrow> (Inl err, s)
              | (Inr _, s) \<Rightarrow>
                  fanout_loop_v client topic_key fanout_payload others m
                    (log (Forwarded (cl_id c) (cl_id oc) topic_key) s))
           else fanout_loop_v client topic_key fanout_payload others m s)
      | _ \<Rightarrow> (Inl Undefined_behaviour, s))"

definition on_publish_v ::
    "endian \<Rightarrow> addr \<Rightarrow> client_ptr \<Rightarrow> message_view \<Rightarrow> memory \<Rightarrow> bus_server \<Rightarrow>
     (cpp_error + unit) \<times> memory \<times> bus_server" where
  "on_publish_v e builder client msg m s =
     (case header_v e m msg of
        None \<Rightarrow> (Inl Undefined_behaviour, m, s)
      | Some h \<Rightarrow>
          (let topic_key = Header_topic_key e h;
               payload = v_payload msg
           in case fanout_v e builder topic_key payload Origin_server m of
                (Inl err, m) \<Rightarrow> (Inl err, m, s)
              | (Inr fanout_payload, m) \<Rightarrow>
                  (case fanout_loop_v client topic_key fanout_payload (clients s) m s of (r, s) \<Rightarrow> (r, m, s))))"

text \<open>\<^verbatim>\<open>msg.to_string()\<close> of the first log statement reads the header and every byte of the payload.\<close>

definition bus_on_message_v ::
    "endian \<Rightarrow> addr \<Rightarrow> client_ptr \<Rightarrow> span \<Rightarrow> memory \<Rightarrow> bus_server \<Rightarrow> (cpp_error + unit) \<times> memory \<times> bus_server" where
  "bus_on_message_v e builder client message m s =
     (if sp_len message < sizeof_Header then
        (case deref s client of
           None \<Rightarrow> (Inl Undefined_behaviour, m, s)
         | Some c \<Rightarrow> (Inr (), m, log (Ignoring_malformed (cl_id c) sizeof_Header (sp_len message)) s))
      else
        (case Message_ctor_v message of
           Inl err \<Rightarrow> (Inl err, m, s)
         | Inr msg \<Rightarrow>
             (case (deref s client, message_at e m msg, header_v e m msg) of
                (Some c, Some shown, Some h) \<Rightarrow>
                  (let s = log (Received_message (cl_id c) (Message_to_string e shown)) s;
                       t = Header_type h
                   in if t = Type_topic_request then on_topic_request_v e builder client msg m s
                      else if t = Type_subscribe then (case on_subscribe_v e client msg m s of (r, s) \<Rightarrow> (r, m, s))
                      else if t = Type_unsubscribe then (case on_unsubscribe_v e client msg m s of (r, s) \<Rightarrow> (r, m, s))
                      else if t = Type_publish then on_publish_v e builder client msg m s
                      else (Inr (), m, log (Unhandled_type (to_string_Type t)) s))
              | _ \<Rightarrow> (Inl Undefined_behaviour, m, s))))"

text \<open>The event loop: ENet hands over a packet as an object, and the packet guard destroys it.\<close>

fun bus_dispatch_v ::
    "endian \<Rightarrow> addr \<Rightarrow> ENetEvent \<Rightarrow> memory \<Rightarrow> bus_server \<Rightarrow> (cpp_error + unit) \<times> memory \<times> bus_server" where
  "bus_dispatch_v e builder (ENET_EVENT_TYPE_RECEIVE peer packet) m s =
     (let (a, m) = alloc (packet_data packet) m
      in case bus_on_message_v e builder (peer_data s peer) (span_of m a) m s of
           (r, m, s) \<Rightarrow> (r, free a m, issue [Packet_destroy (packet_ptr packet)] s))"
| "bus_dispatch_v e builder event m s =
     (case dispatch (bus_callbacks e) ClientData_ctor event s of (r, s) \<Rightarrow> (r, m, s))"

fun bus_process_v ::
    "endian \<Rightarrow> addr \<Rightarrow> ENetEvent list \<Rightarrow> memory \<Rightarrow> bus_server \<Rightarrow> (cpp_error + unit) \<times> memory \<times> bus_server" where
  "bus_process_v e builder [] m s = (Inr (), m, poll_host s)"
| "bus_process_v e builder (event # events) m s =
     (case bus_dispatch_v e builder event m (poll_host s) of
        (Inl err, m, s) \<Rightarrow> (Inl err, m, s)
      | (Inr _, m, s) \<Rightarrow> bus_process_v e builder events m s)"


section \<open>The handlers on spans and on values\<close>

definition with_buffer :: "addr \<Rightarrow> memory \<Rightarrow> bus_server \<Rightarrow> bus_server" where
  "with_buffer builder m s = s\<lparr>m_protocol_constructor := buffer_at m builder\<rparr>"

text \<open>
  A result on spans agrees with a result on values: the same outcome and state, and in memory only
  the buffer of the builder differs from before.
\<close>

definition agrees ::
    "addr \<Rightarrow> memory \<Rightarrow> (cpp_error + unit) \<times> memory \<times> bus_server \<Rightarrow> (cpp_error + unit) \<times> bus_server \<Rightarrow> bool" where
  "agrees builder m spans vals \<longleftrightarrow>
     (case spans of (r, m', s') \<Rightarrow>
        vals = (r, with_buffer builder m' s') \<and> memory_ok m' \<and> objects m' builder \<noteq> None \<and>
        (\<forall>a. a \<noteq> builder \<longrightarrow> objects m' a = objects m a))"

lemma with_buffer_simps [simp]:
  "deref (with_buffer b m s) p = deref s p"
  "m_topic_map (with_buffer b m s) = m_topic_map s"
  "m_clients (with_buffer b m s) = m_clients s"
  "peer_data (with_buffer b m s) = peer_data s"
  "m_protocol_constructor (with_buffer b m s) = buffer_at m b"
  "log x (with_buffer b m s) = with_buffer b m (log x s)"
  "issue cs (with_buffer b m s) = with_buffer b m (issue cs s)"
  "(with_buffer b m s)\<lparr>m_topic_map := tm\<rparr> = with_buffer b m (s\<lparr>m_topic_map := tm\<rparr>)"
  "(with_buffer b m s)\<lparr>m_protocol_constructor := buffer_at m' b\<rparr> = with_buffer b m' s"
  by (simp_all add: with_buffer_def log_def issue_def)

lemma Client_send_with_buffer:
  "Client_send p bs (with_buffer b m s) = map_prod id (with_buffer b m) (Client_send p bs s)"
  by (simp add: Client_send_def split: option.split)

lemma fanout_loop_v_correct:
  assumes "read_span m sp = Some bs"
  shows "fanout_loop p k bs ps (with_buffer b m s) = map_prod id (with_buffer b m) (fanout_loop_v p k sp ps m s)"
proof (induction ps arbitrary: s)
  case (Cons q qs)
  then show ?case
    using assms
    by (simp add: Client_send_v_def Client_send_with_buffer split: option.split prod.split sum.split)
qed simp

lemma on_publish_v_correct:
  assumes m: "memory_ok m" "objects m builder \<noteq> None" and v: "message_at e m msg = Some vmsg"
    and "sp_addr (v_payload msg) \<noteq> builder"
  shows "agrees builder m (on_publish_v e builder p msg m s) (on_publish e p vmsg (with_buffer builder m s))"
proof -
  from v obtain h pl where h: "header_v e m msg = Some h" "read_span m (v_payload msg) = Some pl"
    "vmsg = \<lparr>m_header = h, m_payload = pl, m_topic = v_topic msg\<rparr>"
    by (auto simp: message_at_def split: option.splits)
  let ?h = "Header_fanout e (Header_topic_key e h) Origin_server"
  obtain sp m' where c: "construct_v e builder ?h (v_payload msg) m = (Inr sp, m')"
    "read_span m' sp = Some (fst (construct e (buffer_at m builder) ?h pl))"
    "snd (construct e (buffer_at m builder) ?h pl) = buffer_at m' builder"
    "objects m' builder \<noteq> None" "same_elsewhere builder m m'"
    by (rule construct_v_buffer [OF h(2) disjI1 [OF assms(4)]])
  have "memory_ok m'"
    using memory_ok_elsewhere [OF m(1) c(5)] alive_below [OF m] by blast
  moreover have "\<forall>a. a \<noteq> builder \<longrightarrow> objects m' a = objects m a"
    using c(5) by (simp add: same_elsewhere_def)
  ultimately show ?thesis
    using c(1-4) h fanout_loop_v_correct [OF c(2)]
    by (simp add: on_publish_v_def on_publish_def fanout_v_def construct_fanout_def accessor_defs clients_def
        agrees_def Let_def case_prod_beta map_prod_def prod_eq_iff del: construct_simp)
qed


lemma on_topic_request_v_correct:
  assumes m: "memory_ok m" "objects m builder \<noteq> None" and v: "message_at e m msg = Some vmsg"
  shows "agrees builder m (on_topic_request_v e builder p msg m s) (on_topic_request e p vmsg (with_buffer builder m s))"
proof -
  from v obtain h pl where h: "read_span m (v_payload msg) = Some pl"
    "vmsg = \<lparr>m_header = h, m_payload = pl, m_topic = v_topic msg\<rparr>"
    by (auto simp: message_at_def split: option.splits)
  define name where "name = string_of_bytes pl"
  obtain k topics where k: "get_or_create name (m_topic_map s) = (k, topics)" by fastforce
  let ?a = "next_addr m" and ?h = "Header_topic_response e k Origin_server"
  define m1 where "m1 = snd (alloc pl m)"
  have m1: "alloc pl m = (?a, m1)" "objects m1 ?a = Some pl" "next_addr m1 = Suc ?a"
    "\<And>b. b \<noteq> ?a \<Longrightarrow> objects m1 b = objects m b"
    by (simp_all add: m1_def alloc_def)
  have a: "?a \<noteq> builder" "objects m ?a = None" using alive_below [OF m] m(1) by (auto simp: memory_ok_def)
  have buf: "buffer_at m1 builder = buffer_at m builder" using m1(4) a(1) by (simp add: buffer_at_def)
  have read: "read_span m1 (span_of m1 ?a) = Some pl" "sp_addr (span_of m1 ?a) \<noteq> builder"
    using m1(2) a(1) by simp_all
  obtain sp m2 where c: "construct_v e builder ?h (span_of m1 ?a) m1 = (Inr sp, m2)"
    "read_span m2 sp = Some (fst (construct e (buffer_at m builder) ?h pl))"
    "snd (construct e (buffer_at m builder) ?h pl) = buffer_at m2 builder"
    "objects m2 builder \<noteq> None" "same_elsewhere builder m1 m2"
    by (rule construct_v_buffer [OF read(1) disjI1 [OF read(2)], unfolded buf])
  have ok1: "memory_ok m1" using m(1) unfolding m1_def by simp
  have ok2: "memory_ok m2"
    using memory_ok_elsewhere [OF ok1 c(5)] alive_below [OF m] m1(3) by simp
  have frame: "objects (free ?a m2) b = objects m b" if "b \<noteq> builder" for b
    using that c(5) m1(4) a by (cases "b = ?a") (simp_all add: free_def same_elsewhere_def)
  have buf2: "buffer_at (free ?a m2) builder = buffer_at m2 builder" "objects (free ?a m2) builder \<noteq> None"
    using a(1) c(4) by (simp_all add: buffer_at_def free_def)
  have wb: "with_buffer builder (free ?a m2) x = with_buffer builder m2 x" for x
    using buf2(1) by (simp add: with_buffer_def)
  have pl: "payload_as_string vmsg = name" "bytes_of_string name = pl"
    using h(2) by (simp_all add: payload_as_string_def accessor_defs name_def)
  show ?thesis
    using h(1) m1(1) k c(1-3) ok2 frame buf2(2) wb pl a(1)
    by (simp add: on_topic_request_v_def on_topic_request_def topic_response_v_def construct_topic_response_def
        Client_send_v_def Client_send_with_buffer agrees_def Let_def case_prod_beta map_prod_def prod_eq_iff name_def
        del: construct_simp split: sum.split)
qed

lemma on_subscribe_v_correct:
  assumes "message_at e m msg = Some vmsg"
  shows "on_subscribe e p vmsg (with_buffer b m s) = map_prod id (with_buffer b m) (on_subscribe_v e p msg m s)"
    and "on_unsubscribe e p vmsg (with_buffer b m s) = map_prod id (with_buffer b m) (on_unsubscribe_v e p msg m s)"
  using assms
  by (auto simp: on_subscribe_v_def on_subscribe_def on_unsubscribe_v_def on_unsubscribe_def message_at_def
      accessor_defs update_data_def deref_def with_buffer_def log_def Let_def split: option.splits)

lemma agrees_same:
  "\<lbrakk>memory_ok m; objects m b \<noteq> None\<rbrakk> \<Longrightarrow> agrees b m (r, m, s') (r', t) \<longleftrightarrow> r' = r \<and> t = with_buffer b m s'"
  by (auto simp: agrees_def)

lemma bus_on_message_v_correct:
  assumes m: "memory_ok m" "objects m builder \<noteq> None" and d: "read_span m sp = Some d" "sp_addr sp \<noteq> builder"
  shows "agrees builder m (bus_on_message_v e builder p sp m s) (bus_on_message e p d (with_buffer builder m s))"
proof (cases "length d < sizeof_Header")
  case True
  with m read_span_length [OF d(1)] show ?thesis
    by (auto simp: bus_on_message_v_def bus_on_message_def agrees_same split: option.split)
next
  case False
  then obtain vmsg where vmsg: "Message_ctor e d = Inr vmsg" by (simp add: Message_ctor_long)
  from Message_ctor_v_correct [OF d(1), of e] obtain msg where
    msg: "Message_ctor_v sp = Inr msg" and at: "message_at e m msg = Some vmsg"
    unfolding vmsg by (cases "Message_ctor_v sp") simp_all
  have apart: "sp_addr (v_payload msg) \<noteq> builder" using Message_ctor_v_spans [OF msg] d(2) by simp
  from at have h: "header_v e m msg = Some (Message_header vmsg)"
    by (auto simp: message_at_def Message_header_def split: option.splits)
  show ?thesis
  proof (cases "deref s p")
    case None
    with False m read_span_length [OF d(1)] msg vmsg show ?thesis
      by (simp add: bus_on_message_v_def bus_on_message_def agrees_same)
  next
    case (Some c)
    let ?s = "log (Received_message (cl_id c) (Message_to_string e vmsg)) s"
    note branches = on_topic_request_v_correct [OF m at, of p ?s] on_publish_v_correct [OF m at apart, of p ?s]
      on_subscribe_v_correct [OF at, of p builder ?s]
    show ?thesis
      using False read_span_length [OF d(1)] msg vmsg Some at h branches m
      by (simp add: bus_on_message_v_def bus_on_message_def agrees_same Let_def case_prod_beta map_prod_def)
  qed
qed


section \<open>The event loop\<close>

lemma dispatch_with_buffer:
  assumes "\<And>peer packet. event \<noteq> ENET_EVENT_TYPE_RECEIVE peer packet"
  shows "dispatch (bus_callbacks e) ClientData_ctor event (with_buffer b m s) =
    map_prod id (with_buffer b m) (dispatch (bus_callbacks e) ClientData_ctor event s)"
  using assms
  by (cases event)
    (auto simp: bus_callbacks_def bus_on_connect_def bus_on_disconnect_def create_client_def destroy_client_def
      deref_def with_buffer_def log_def Let_def split: option.splits)

lemma bus_dispatch_v_correct:
  assumes m: "memory_ok m" "objects m builder \<noteq> None"
  shows "agrees builder m (bus_dispatch_v e builder event m s)
    (dispatch (bus_callbacks e) ClientData_ctor event (with_buffer builder m s))"
proof (cases "\<exists>peer packet. event = ENET_EVENT_TYPE_RECEIVE peer packet")
  case True
  then obtain peer packet where ev: "event = ENET_EVENT_TYPE_RECEIVE peer packet" by blast
  let ?d = "packet_data packet" and ?a = "next_addr m"
  define m1 where "m1 = snd (alloc ?d m)"
  have m1: "alloc ?d m = (?a, m1)" "objects m1 ?a = Some ?d" "\<And>b. b \<noteq> ?a \<Longrightarrow> objects m1 b = objects m b"
    by (simp_all add: m1_def alloc_def)
  have a: "?a \<noteq> builder" "objects m ?a = None" using alive_below [OF m] m(1) by (auto simp: memory_ok_def)
  have ok1: "memory_ok m1" "objects m1 builder \<noteq> None"
    using m m1(3) a(1) by (simp_all add: m1_def)
  have wb1: "with_buffer builder m1 s = with_buffer builder m s"
    using m1(3) a(1) by (simp add: with_buffer_def buffer_at_def)
  obtain r m2 s2 where run: "bus_on_message_v e builder (peer_data s peer) (span_of m1 ?a) m1 s = (r, m2, s2)"
    by (metis prod_cases3)
  have "agrees builder m1 (r, m2, s2) (bus_on_message e (peer_data s peer) ?d (with_buffer builder m s))"
    using bus_on_message_v_correct [OF ok1, of "span_of m1 ?a" ?d e "peer_data s peer" s] m1(2) a(1) run wb1 by simp
  moreover have "with_buffer builder (free ?a m2) x = with_buffer builder m2 x" for x
    using a(1) by (simp add: with_buffer_def buffer_at_def free_def)
  ultimately show ?thesis
    using ev run m1(1,3) a by (auto simp: agrees_def bus_callbacks_def free_def memory_ok_def)
next
  case False
  then have "bus_dispatch_v e builder event m s =
      (case dispatch (bus_callbacks e) ClientData_ctor event s of (r, s) \<Rightarrow> (r, m, s))" by (cases event) auto
  then show ?thesis
    using dispatch_with_buffer [of event e builder m s] False m
    by (simp add: agrees_same case_prod_beta map_prod_def)
qed

lemma bus_process_v_correct:
  "\<lbrakk>memory_ok m; objects m builder \<noteq> None\<rbrakk> \<Longrightarrow>
   agrees builder m (bus_process_v e builder events m s)
     (process_loop (bus_callbacks e) ClientData_ctor events (with_buffer builder m s))"
proof (induction events arbitrary: m s)
  case Nil
  then show ?case by (simp add: agrees_same poll_host_def with_buffer_def issue_def)
next
  case (Cons event events)
  have host: "poll_host (with_buffer builder m s) = with_buffer builder m (poll_host s)"
    by (simp add: poll_host_def with_buffer_def issue_def)
  obtain r m1 s1 where d: "bus_dispatch_v e builder event m (poll_host s) = (r, m1, s1)" by (metis prod_cases3)
  note ag = bus_dispatch_v_correct [OF Cons.prems, of e event "poll_host s", unfolded d agrees_def prod.case]
  show ?case
  proof (cases r)
    case (Inl err)
    with ag d host show ?thesis by (simp add: agrees_def)
  next
    case (Inr u)
    have "agrees builder m1 (bus_process_v e builder events m1 s1)
        (process_loop (bus_callbacks e) ClientData_ctor events (with_buffer builder m1 s1))"
      using ag by (intro Cons.IH) simp_all
    with Inr ag d host show ?thesis by (auto simp: agrees_def)
  qed
qed

text \<open>C18: The server's use of spans is safe: over any events in ENet's order, from any consistent state, the event loop on spans, with its one
  reused packet buffer, the views into received packets and the local topic names, returns without reading a dead span and computes exactly
  what the loop on values computes; afterwards every received packet and every local string is gone from memory and no other object
  was touched.\<close>

theorem server_spans_safe:
  assumes "memory_ok m" and "objects m builder \<noteq> None"
    and "net_inv s" and "enet_protocol (set (connected_peers s)) events"
  shows "\<exists>r m' s'. bus_process_v e builder events m s = (r, m', s') \<and> r \<noteq> Inl Undefined_behaviour \<and>
    bus_process e events (with_buffer builder m s) = (r, with_buffer builder m' s') \<and>
    (\<forall>a. a \<noteq> builder \<longrightarrow> objects m' a = objects m a)"
proof -
  let ?s = "with_buffer builder m s"
  obtain r m' s' where run: "bus_process_v e builder events m s = (r, m', s')" by (metis prod_cases3)
  have "bus_process e events ?s = process_loop (bus_callbacks e) ClientData_ctor events ?s"
    by (simp add: bus_process_def process_def bus_callbacks_def bus_on_process_def)
  with bus_process_v_correct [OF assms(1,2), of e events s] run
  have vals: "bus_process e events ?s = (r, with_buffer builder m' s')"
    and frame: "\<forall>a. a \<noteq> builder \<longrightarrow> objects m' a = objects m a"
    by (simp_all add: agrees_def)
  have "same_registry s ?s" by (simp add: same_registry_def with_buffer_def)
  then have "net_inv ?s" "connected_peers ?s = connected_peers s"
    using assms(3) same_registry_inv same_registry_peers by blast+
  with assms(4) vals have "r \<noteq> Inl Undefined_behaviour"
    using bus.process_safe [of ?s events e r] by (simp add: bus_process_def)
  with run vals frame show ?thesis by auto
qed

theorem server_spans_safe_witness:
  "\<exists>r m' s'. bus_process_v Little 0 example_events example_memory example_server = (r, m', s') \<and>
     r \<noteq> Inl Undefined_behaviour \<and> objects m' 1 = Some [7, 8] \<and> objects m' 2 = None"
proof -
  have m: "memory_ok example_memory" "objects example_memory 0 \<noteq> None"
    "objects example_memory 1 = Some [7, 8]" "objects example_memory 2 = None"
    by (auto simp: memory_ok_def example_memory_def)
  have s: "net_inv example_server" using example_start by (simp add: bus_abs_def)
  show ?thesis
    using server_spans_safe [OF m(1,2) s example_protocol, of Little] m(3,4) by force
qed

end
