(* ===== verification/Client_Views.thy ===== *)
theory Client_Views
  imports Views Bus_Client
begin

text \<open>
  The high-level client (\<^verbatim>\<open>client/client.hpp\<close>, \<^verbatim>\<open>client.cpp\<close>) on spans. The caller's topic and payload are
  spans that the client reads while it overwrites its own packet buffer, at address \<open>builder\<close>; a packet received from ENet is an object
  that lives until its wrapper is destroyed, and messages are views into it. \<open>with_buffer_c\<close> puts the contents of the
  buffer into the state of \<open>Bus_Client\<close>. As for the server, the operations on spans are shown to compute what the
  operations on values compute, so no view outlives its packet and no payload is lost to the reuse of the buffer.
\<close>

section \<open>Model\<close>

definition net_client_send_v :: "net_client \<Rightarrow> span \<Rightarrow> memory \<Rightarrow> cpp_error + enet_call list" where
  "net_client_send_v c data m =
     (case read_span m data of None \<Rightarrow> Inl Undefined_behaviour | Some bytes \<Rightarrow> Inr (net_client_send c bytes))"

definition read_response_v ::
    "endian \<Rightarrow> span \<Rightarrow> memory \<Rightarrow> bus_client \<Rightarrow> (cpp_error + u64) \<times> bus_client" where
  "read_response_v e data m s =
     (case Message_ctor_v data of
        Inl err \<Rightarrow> (Inl err, s)
      | Inr response \<Rightarrow>
          (case header_v e m response of
             None \<Rightarrow> (Inl Undefined_behaviour, s)
           | Some h \<Rightarrow>
               (if Header_type h = Type_topic_response then
                  (case read_span m (v_payload response) of
                     None \<Rightarrow> (Inl Undefined_behaviour, s)
                   | Some payload \<Rightarrow>
                       (let topic_name = string_of_bytes payload;
                            topic_key = Header_topic_key e h;
                            s = s\<lparr>c_topic_map := (c_topic_map s)(topic_name \<mapsto> topic_key)\<rparr>;
                            s = s\<lparr>c_inverse_topic_map := (c_inverse_topic_map s)(topic_key \<mapsto> topic_name)\<rparr>
                        in (Inr topic_key, s)))
                else
                  (Inl (Runtime_error (''Unexpected response type: '' @ to_string_Type (Header_type h))), s))))"

text \<open>The packet is an object from \<^verbatim>\<open>recv\<close> until the destructor of its wrapper at the end of the function.\<close>

definition get_topic_key_v ::
    "endian \<Rightarrow> addr \<Rightarrow> topic_lookup \<Rightarrow> span \<Rightarrow> memory \<Rightarrow> bus_client \<Rightarrow> (cpp_error + u64) \<times> memory \<times> bus_client" where
  "get_topic_key_v e builder net topic m s =
     (case read_span m topic of
        None \<Rightarrow> (Inl Undefined_behaviour, m, s)
      | Some name \<Rightarrow>
          (case c_topic_map s (string_of_bytes name) of
             Some topic_key \<Rightarrow> (Inr topic_key, m, s)
           | None \<Rightarrow>
               (case topic_request_v e builder topic Origin_client m of
                  (Inl err, m) \<Rightarrow> (Inl err, m, s)
                | (Inr msg, m) \<Rightarrow>
                    (case net_client_ctor (tl_connect net) (c_host s) (c_port s) of
                       (Inl err, calls) \<Rightarrow> (Inl err, m, emit calls s)
                     | (Inr temporary_client, calls) \<Rightarrow>
                         (case net_client_send_v temporary_client msg m of
                            Inl err \<Rightarrow> (Inl err, m, emit calls s)
                          | Inr sent \<Rightarrow>
                              (let s = emit (calls @ sent) s
                               in case net_client_recv temporary_client recv_default_timeout (tl_recv net) of
                                    (Inl err, calls) \<Rightarrow>
                                      (Inl err, m, emit (calls @ net_client_dtor temporary_client (tl_drain net)) s)
                                  | (Inr packet, calls) \<Rightarrow>
                                      (case Packet_data packet of
                                         Inl err \<Rightarrow>
                                           (Inl err, m, emit (calls @ Packet_dtor packet @
                                              net_client_dtor temporary_client (tl_drain net)) s)
                                       | Inr content \<Rightarrow>
                                           (let (a, m) = alloc content m
                                            in case read_response_v e (span_of m a) m (emit calls s) of
                                                 (r, s) \<Rightarrow>
                                                   (r, free a m, emit (Packet_dtor packet @
                                                      net_client_dtor temporary_client (tl_drain net)) s)))))))))"

definition publish_key_v ::
    "endian \<Rightarrow> addr \<Rightarrow> u64 \<Rightarrow> span \<Rightarrow> memory \<Rightarrow> bus_client \<Rightarrow> (cpp_error + unit) \<times> memory \<times> bus_client" where
  "publish_key_v e builder topic_key payload m s =
     (case publish_v e builder topic_key payload Origin_client m of
        (Inl err, m) \<Rightarrow> (Inl err, m, s)
      | (Inr msg, m) \<Rightarrow>
          (case net_client_send_v (c_client s) msg m of
             Inl err \<Rightarrow> (Inl err, m, s)
           | Inr sent \<Rightarrow> (Inr (), m, emit sent s)))"

definition client_publish_v ::
    "endian \<Rightarrow> addr \<Rightarrow> topic_lookup \<Rightarrow> span \<Rightarrow> span \<Rightarrow> memory \<Rightarrow> bus_client \<Rightarrow>
     (cpp_error + unit) \<times> memory \<times> bus_client" where
  "client_publish_v e builder net topic payload m s =
     (case get_topic_key_v e builder net topic m s of
        (Inl err, m, s) \<Rightarrow> (Inl err, m, s)
      | (Inr topic_key, m, s) \<Rightarrow> publish_key_v e builder topic_key payload m s)"

definition client_subscribe_v ::
    "endian \<Rightarrow> addr \<Rightarrow> topic_lookup \<Rightarrow> span \<Rightarrow> memory \<Rightarrow> bus_client \<Rightarrow> (cpp_error + unit) \<times> memory \<times> bus_client" where
  "client_subscribe_v e builder net topic m s =
     (case get_topic_key_v e builder net topic m s of
        (Inl err, m, s) \<Rightarrow> (Inl err, m, s)
      | (Inr topic_key, m, s) \<Rightarrow>
          (case subscribe_v e builder topic_key Origin_client m of
             (Inl err, m) \<Rightarrow> (Inl err, m, s)
           | (Inr msg, m) \<Rightarrow>
               (case net_client_send_v (c_client s) msg m of
                  Inl err \<Rightarrow> (Inl err, m, s)
                | Inr sent \<Rightarrow> (Inr (), m, emit sent s))))"

text \<open>The callback of \<^verbatim>\<open>poll\<close> copies what it keeps.\<close>

definition FanoutMessage_of_v :: "endian \<Rightarrow> memory \<Rightarrow> message_view \<Rightarrow> cpp_error + FanoutMessage" where
  "FanoutMessage_of_v e m message =
     (case (header_v e m message, read_span m (v_payload message)) of
        (Some h, Some payload) \<Rightarrow>
          Inr \<lparr>fm_topic_key = Header_topic_key e h, fm_topic = v_topic message, fm_payload = payload\<rparr>
      | _ \<Rightarrow> Inl Undefined_behaviour)"

definition deliver_v ::
    "endian \<Rightarrow> span \<Rightarrow> memory \<Rightarrow> bus_client \<Rightarrow> cpp_error + FanoutMessage option" where
  "deliver_v e data m s =
     (case Message_ctor_v data of
        Inl err \<Rightarrow> Inl err
      | Inr msg \<Rightarrow>
          (case header_v e m msg of
             None \<Rightarrow> Inl Undefined_behaviour
           | Some h \<Rightarrow>
               (if Header_type h = Type_fanout then
                  (let topic_name =
                         (case c_inverse_topic_map s (Header_topic_key e h) of
                            None \<Rightarrow> ''unknown''
                          | Some name \<Rightarrow> name)
                   in case FanoutMessage_of_v e m (set_topic_v topic_name msg) of
                        Inl err \<Rightarrow> Inl err
                      | Inr fanout \<Rightarrow> Inr (Some fanout))
                else Inr None)))"

definition poll_v ::
    "endian \<Rightarrow> ENetEvent option \<Rightarrow> memory \<Rightarrow> bus_client \<Rightarrow>
     (cpp_error + FanoutMessage option) \<times> memory \<times> bus_client" where
  "poll_v e event m s =
     (case net_client_process (c_client s) event Packet_default of
        (Inl err, packet, calls) \<Rightarrow> (Inl err, m, emit (calls @ Packet_dtor packet) s)
      | (Inr False, packet, calls) \<Rightarrow> (Inr None, m, emit (calls @ Packet_dtor packet) s)
      | (Inr True, packet, calls) \<Rightarrow>
          (case Packet_data packet of
             Inl err \<Rightarrow> (Inl err, m, emit (calls @ Packet_dtor packet) s)
           | Inr content \<Rightarrow>
               (let (a, m) = alloc content m;
                    r = deliver_v e (span_of m a) m s
                in (r, free a m, emit (calls @ Packet_dtor packet) s))))"

section \<open>Operations on spans and on values\<close>

definition with_buffer_c :: "addr \<Rightarrow> memory \<Rightarrow> bus_client \<Rightarrow> bus_client" where
  "with_buffer_c builder m s = s\<lparr>c_protocol_constructor := buffer_at m builder\<rparr>"

text \<open>
  What an operation leaves of memory: only the buffer of the builder changes, and objects made on the way are gone.
\<close>

definition frame :: "addr \<Rightarrow> memory \<Rightarrow> memory \<Rightarrow> bool" where
  "frame builder m m' \<longleftrightarrow>
     memory_ok m' \<and> objects m' builder \<noteq> None \<and> next_addr m \<le> next_addr m' \<and>
     (\<forall>a < next_addr m. a \<noteq> builder \<longrightarrow> objects m' a = objects m a \<and> generation m' a = generation m a) \<and>
     (\<forall>a \<ge> next_addr m. objects m' a = None)"

definition agrees_c ::
    "addr \<Rightarrow> memory \<Rightarrow> (cpp_error + 'r) \<times> memory \<times> bus_client \<Rightarrow> (cpp_error + 'r) \<times> bus_client \<Rightarrow> bool" where
  "agrees_c builder m spans vals \<longleftrightarrow>
     (case spans of (r, m', s') \<Rightarrow> vals = (r, with_buffer_c builder m' s') \<and> frame builder m m')"

lemma frame_refl: "\<lbrakk>memory_ok m; objects m b \<noteq> None\<rbrakk> \<Longrightarrow> frame b m m"
  by (simp add: frame_def memory_ok_def)

lemma frame_trans:
  assumes "frame b m m'" and "frame b m' m''"
  shows "frame b m m''"
proof -
  have gone: "objects m'' a = None" if a: "next_addr m \<le> a" for a
  proof (cases "a < next_addr m'")
    case True
    have "objects m' a = None" using assms(1) a by (simp add: frame_def)
    moreover from this have "a \<noteq> b" using assms(1) by (auto simp: frame_def)
    ultimately show ?thesis using assms(2) True by (simp add: frame_def)
  qed (use assms(2) in \<open>simp add: frame_def\<close>)
  have "a < next_addr m'" if "a < next_addr m" for a using assms(1) that by (simp add: frame_def)
  with assms gone show ?thesis unfolding frame_def by simp
qed

lemma frame_construct:
  assumes "memory_ok m" and "objects m b \<noteq> None" and "same_elsewhere b m m'" and "objects m' b \<noteq> None"
  shows "frame b m m'"
  using assms alive_below [OF assms(1,2)]
  by (auto simp: frame_def same_elsewhere_def memory_ok_def)

lemma frame_packet:
  assumes "memory_ok m" and "objects m b \<noteq> None" and "alloc x m = (a, m')"
  shows "frame b m (free a m')" and "buffer_at (free a m') b = buffer_at m b" and "objects m' a = Some x"
  using assms alive_below [OF assms(1,2)]
  by (auto simp: frame_def alloc_def free_def memory_ok_def buffer_at_def)

lemma frame_read:
  assumes "memory_ok m" and "frame b m m'" and "read_span m sp = Some bs" and "sp_addr sp \<noteq> b"
  shows "read_span m' sp = Some bs"
proof (cases "sp_len sp = 0")
  case False
  have "sp_addr sp < next_addr m"
    using read_span_alive [OF assms(3) False] by (rule alive_below [OF assms(1)])
  with assms(2,4) have "read_span m' sp = read_span m sp"
    by (simp add: frame_def read_span_def split: option.split)
  with assms(3) show ?thesis by simp
qed (use assms(3) in \<open>simp add: read_span_def\<close>)

lemma with_buffer_c_simps [simp]:
  "c_topic_map (with_buffer_c b m s) = c_topic_map s"
  "c_inverse_topic_map (with_buffer_c b m s) = c_inverse_topic_map s"
  "c_client (with_buffer_c b m s) = c_client s"
  "c_host (with_buffer_c b m s) = c_host s"
  "c_port (with_buffer_c b m s) = c_port s"
  "c_protocol_constructor (with_buffer_c b m s) = buffer_at m b"
  "emit cs (with_buffer_c b m s) = with_buffer_c b m (emit cs s)"
  "(with_buffer_c b m s)\<lparr>c_protocol_constructor := buffer_at m' b\<rparr> = with_buffer_c b m' s"
  by (simp_all add: with_buffer_c_def emit_def)

text \<open>Sending a packet that the builder just made.\<close>

lemma construct_send:
  assumes m: "memory_ok m" "objects m builder \<noteq> None"
    and p: "read_span m payload = Some p" "sp_addr payload \<noteq> builder \<or> sp_len payload = 0"
  obtains sp m' where "construct_v e builder h payload m = (Inr sp, m')"
    and "net_client_send_v c sp m' = Inr (net_client_send c (fst (construct e (buffer_at m builder) h p)))"
    and "snd (construct e (buffer_at m builder) h p) = buffer_at m' builder" and "frame builder m m'"
proof -
  obtain sp m' where "construct_v e builder h payload m = (Inr sp, m')"
    and "read_span m' sp = Some (fst (construct e (buffer_at m builder) h p))"
    and "snd (construct e (buffer_at m builder) h p) = buffer_at m' builder"
    and "objects m' builder \<noteq> None" "same_elsewhere builder m m'"
    by (rule construct_v_buffer [OF p])
  moreover from this have "net_client_send_v c sp m' = Inr (net_client_send c (fst (construct e (buffer_at m builder) h p)))"
    by (simp only: net_client_send_v_def option.case)
  ultimately show ?thesis using frame_construct [OF m] that by blast
qed

lemma publish_key_v_correct:
  assumes "memory_ok m" and "objects m builder \<noteq> None"
    and "read_span m payload = Some p" and "sp_addr payload \<noteq> builder"
  shows "agrees_c builder m (publish_key_v e builder k payload m s)
    (Inr (), publish_key e k p (with_buffer_c builder m s))"
proof -
  obtain sp m' where "construct_v e builder (Header_publish e k Origin_client) payload m = (Inr sp, m')"
    "net_client_send_v (c_client s) sp m' = Inr (net_client_send (c_client s)
       (fst (construct e (buffer_at m builder) (Header_publish e k Origin_client) p)))"
    "snd (construct e (buffer_at m builder) (Header_publish e k Origin_client) p) = buffer_at m' builder"
    "frame builder m m'"
    by (rule construct_send [OF assms(1-3) disjI1 [OF assms(4)]])
  then show ?thesis
    by (simp add: publish_key_v_def publish_v_def publish_key_def construct_publish_def agrees_c_def Let_def
        case_prod_beta del: construct_simp)
qed


lemma read_response_v_correct:
  assumes "read_span m data = Some d" and "Packet_data packet = Inr d"
  shows "read_response e packet (with_buffer_c b m' s) = map_prod id (with_buffer_c b m') (read_response_v e data m s)"
proof -
  note parse = Message_ctor_v_correct [OF assms(1), of e]
  show ?thesis
  proof (cases "Message_ctor e d")
    case (Inl err)
    with parse assms(2) show ?thesis
      by (cases "Message_ctor_v data") (simp_all add: read_response_def read_response_v_def)
  next
    case (Inr vmsg)
    with parse obtain msg where msg: "Message_ctor_v data = Inr msg" "message_at e m msg = Some vmsg"
      by (cases "Message_ctor_v data") simp_all
    then obtain h p where "header_v e m msg = Some h" "read_span m (v_payload msg) = Some p"
      "Message_header vmsg = h" "m_payload vmsg = p"
      by (auto simp: message_at_def accessor_defs split: option.splits)
    with Inr msg assms(2) show ?thesis
      by (simp add: read_response_def read_response_v_def payload_as_string_def Let_def)
        (simp add: with_buffer_c_def)
  qed
qed

lemmas lookup_defs =
  get_topic_key_v_def get_topic_key_def topic_request_v_def construct_topic_request_def agrees_c_def Let_def case_prod_beta

lemma received_packet:
  assumes "net_client_recv c timeout event = (Inr packet, calls)"
  obtains q where "m_packet packet = Some q" and "Packet_data packet = Inr (packet_data q)"
  using assms
  by (auto simp: net_client_recv_def Packet_ctor_def Packet_data_def Let_def split: option.splits ENetEvent.splits)

lemma get_topic_key_v_correct:
  assumes m: "memory_ok m" "objects m builder \<noteq> None"
    and t: "read_span m topic = Some tb" "sp_addr topic \<noteq> builder"
  shows "agrees_c builder m (get_topic_key_v e builder net topic m s)
    (get_topic_key e net (string_of_bytes tb) (with_buffer_c builder m s))"
proof (cases "c_topic_map s (string_of_bytes tb)")
  case (Some k)
  with t frame_refl [OF m] show ?thesis
    by (simp add: get_topic_key_v_def get_topic_key_def agrees_c_def)
next
  case None
  let ?h = "Header_topic_request e Origin_client" and ?c = "buffer_at m builder"
  obtain r calls where conn: "net_client_ctor (tl_connect net) (c_host s) (c_port s) = (r, calls)" by fastforce
  obtain sp m1 where c: "construct_v e builder ?h topic m = (Inr sp, m1)"
    "net_client_send_v (projr r) sp m1 = Inr (net_client_send (projr r) (fst (construct e ?c ?h tb)))"
    "snd (construct e ?c ?h tb) = buffer_at m1 builder" and fr: "frame builder m m1"
    by (rule construct_send [OF m t(1) disjI1 [OF t(2)]])
  have m1: "memory_ok m1" "objects m1 builder \<noteq> None" using fr by (simp_all add: frame_def)
  show ?thesis
  proof (cases r)
    case (Inl err)
    with None conn c fr t(1) show ?thesis
      by (simp add: lookup_defs del: construct_simp)
  next
    case (Inr tmp)
    obtain a x calls' where recv: "net_client_recv tmp recv_default_timeout (tl_recv net) = (x, calls')" by fastforce
    show ?thesis
    proof (cases x)
      case (Inl err)
      with None conn c fr t(1) recv Inr show ?thesis
        by (simp add: lookup_defs del: construct_simp)
    next
      case packet: (Inr packet)
      then obtain q where q: "m_packet packet = Some q" and d: "Packet_data packet = Inr (packet_data q)"
        using recv by (auto elim: received_packet)
      obtain a m2 where al: "alloc (packet_data q) m1 = (a, m2)" by fastforce
      note pk = frame_packet [OF m1 al]
      have "read_span m2 (span_of m2 a) = Some (packet_data q)" using pk(3) by simp
      note rr = read_response_v_correct [OF this d, where b = builder and m' = m1]
      have "frame builder m (free a m2)" using frame_trans [OF fr pk(1)] .
      moreover have "with_buffer_c builder (free a m2) = with_buffer_c builder m1"
        using pk(2) by (simp add: with_buffer_c_def fun_eq_iff)
      ultimately show ?thesis
        using None conn c t(1) recv Inr packet d al rr
        by (simp add: lookup_defs map_prod_def del: construct_simp)
    qed
  qed
qed


lemma client_publish_v_correct:
  assumes m: "memory_ok m" "objects m builder \<noteq> None"
    and t: "read_span m topic = Some tb" "sp_addr topic \<noteq> builder"
    and p: "read_span m payload = Some pb" "sp_addr payload \<noteq> builder"
  shows "agrees_c builder m (client_publish_v e builder net topic payload m s)
    (publish e net (string_of_bytes tb) pb (with_buffer_c builder m s))"
proof -
  obtain r m1 s1 where run: "get_topic_key_v e builder net topic m s = (r, m1, s1)" by (metis prod_cases3)
  note key = get_topic_key_v_correct [OF m t, of e net s, unfolded run agrees_c_def prod.case]
  from key have m1: "memory_ok m1" "objects m1 builder \<noteq> None" by (simp_all add: frame_def)
  have "read_span m1 payload = Some pb" using frame_read [OF m(1) _ p] key by blast
  note sent = publish_key_v_correct [OF m1 this p(2)]
  show ?thesis
  proof (cases r)
    case (Inr k)
    with run key sent [of e k s1] frame_trans [of builder m m1] show ?thesis
      by (auto simp: client_publish_v_def publish_after_lookup agrees_c_def split: prod.splits)
  qed (use run key in \<open>simp add: client_publish_v_def publish_after_lookup agrees_c_def\<close>)
qed

lemma client_subscribe_v_correct:
  assumes m: "memory_ok m" "objects m builder \<noteq> None"
    and t: "read_span m topic = Some tb" "sp_addr topic \<noteq> builder"
  shows "agrees_c builder m (client_subscribe_v e builder net topic m s)
    (subscribe e net (string_of_bytes tb) (with_buffer_c builder m s))"
proof -
  obtain r m1 s1 where run: "get_topic_key_v e builder net topic m s = (r, m1, s1)" by (metis prod_cases3)
  note key = get_topic_key_v_correct [OF m t, of e net s, unfolded run agrees_c_def prod.case]
  from key have m1: "memory_ok m1" "objects m1 builder \<noteq> None" by (simp_all add: frame_def)
  have empty: "read_span m1 empty_span = Some []" "sp_len empty_span = 0"
    by (simp_all add: read_span_def empty_span_def)
  show ?thesis
  proof (cases r)
    case (Inr k)
    let ?h = "Header_subscribe e k Origin_client"
    obtain sp m2 where "construct_v e builder ?h empty_span m1 = (Inr sp, m2)"
      "net_client_send_v (c_client s1) sp m2 = Inr (net_client_send (c_client s1)
         (fst (construct e (buffer_at m1 builder) ?h [])))"
      "snd (construct e (buffer_at m1 builder) ?h []) = buffer_at m2 builder" "frame builder m1 m2"
      by (rule construct_send [OF m1 empty(1) disjI2 [OF empty(2)]])
    with run key Inr frame_trans [of builder m m1 m2] show ?thesis
      by (simp add: client_subscribe_v_def subscribe_v_def subscribe_def construct_subscribe_def agrees_c_def
          Let_def case_prod_beta del: construct_simp)
  qed (use run key in \<open>simp add: client_subscribe_v_def subscribe_def agrees_c_def\<close>)
qed

lemma header_v_topic [simp]: "header_v e m (msg\<lparr>v_topic := n\<rparr>) = header_v e m msg"
  by (simp add: header_v_def)

lemma deliver_v_correct:
  assumes "read_span m data = Some d" and "Packet_data packet = Inr d"
  shows "deliver e (\<lambda>message _. (Inr (), Some (FanoutMessage_of e message))) packet s None =
    (case deliver_v e data m s of Inl err \<Rightarrow> (Inl err, None) | Inr x \<Rightarrow> (Inr (), x))"
proof -
  note parse = Message_ctor_v_correct [OF assms(1), of e]
  show ?thesis
  proof (cases "Message_ctor e d")
    case (Inl err)
    with parse assms(2) show ?thesis
      by (cases "Message_ctor_v data") (simp_all add: deliver_def deliver_v_def)
  next
    case (Inr vmsg)
    with parse obtain msg where msg: "Message_ctor_v data = Inr msg" "message_at e m msg = Some vmsg"
      by (cases "Message_ctor_v data") simp_all
    then obtain h p where "header_v e m msg = Some h" "read_span m (v_payload msg) = Some p"
      "vmsg = \<lparr>m_header = h, m_payload = p, m_topic = v_topic msg\<rparr>"
      by (auto simp: message_at_def split: option.splits)
    with Inr msg assms(2) show ?thesis
      by (simp add: deliver_def deliver_v_def FanoutMessage_of_v_def FanoutMessage_of_def set_topic_v_def set_topic_def
          accessor_defs Let_def)
  qed
qed

lemma deliver_with_buffer [simp]: "deliver e f packet (with_buffer_c b m s) c = deliver e f packet s c"
  by (simp add: deliver_def split: sum.split)

lemma poll_v_correct:
  assumes m: "memory_ok m" "objects m builder \<noteq> None"
  shows "agrees_c builder m (poll_v e event m s) (poll e event (with_buffer_c builder m s))"
proof -
  obtain x packet calls where run: "net_client_process (c_client s) event Packet_default = (x, packet, calls)"
    by (metis prod_cases3)
  show ?thesis
  proof (cases x)
    case (Inl err)
    with run frame_refl [OF m] show ?thesis
      by (simp add: poll_v_def poll_def client_process_def agrees_c_def)
  next
    case (Inr b)
    show ?thesis
    proof (cases b)
      case False
      with run Inr frame_refl [OF m] show ?thesis
        by (simp add: poll_v_def poll_def client_process_def agrees_c_def)
    next
      case True
      with Inr run obtain q where "m_packet packet = Some q"
        by (auto simp: net_client_process_def Packet_move_assign_def Packet_ctor_def Packet_default_def Let_def
            split: option.splits ENetEvent.splits)
      then have q: "Packet_data packet = Inr (packet_data q)" by (simp add: Packet_data_def)
      obtain a m1 where al: "alloc (packet_data q) m = (a, m1)" by fastforce
      note pk = frame_packet [OF m al]
      have read: "read_span m1 (span_of m1 a) = Some (packet_data q)" using pk(3) by simp
      have "with_buffer_c builder (free a m1) = with_buffer_c builder m"
        using pk(2) by (simp add: with_buffer_c_def fun_eq_iff)
      with run Inr True q al pk(1) deliver_v_correct [OF read q, of e s] show ?thesis
        by (simp add: poll_v_def poll_def client_process_def agrees_c_def split: sum.splits)
    qed
  qed
qed

section \<open>Properties\<close>

text \<open>C19: The client's use of spans is safe: publishing, subscribing and polling on spans, with the client's one reused packet buffer, the
  caller's topic and payload, and the views into received packets, never read a dead span, compute exactly what the operations on
  values compute, change no object but the buffer, and keep no packet; the caller's spans can still be read afterwards. The caller's
  spans need only not point into the buffer, which is private to the client.\<close>

theorem client_spans_safe:
  assumes "memory_ok m" and "objects m builder \<noteq> None"
    and "read_span m topic = Some tb" and "sp_addr topic \<noteq> builder"
    and "read_span m payload = Some pb" and "sp_addr payload \<noteq> builder"
  shows "(\<exists>r m' s'. client_publish_v e builder net topic payload m s = (r, m', s') \<and>
      publish e net (string_of_bytes tb) pb (with_buffer_c builder m s) = (r, with_buffer_c builder m' s') \<and>
      frame builder m m' \<and> read_span m' topic = Some tb \<and> read_span m' payload = Some pb) \<and>
    (\<exists>r m' s'. client_subscribe_v e builder net topic m s = (r, m', s') \<and>
      subscribe e net (string_of_bytes tb) (with_buffer_c builder m s) = (r, with_buffer_c builder m' s') \<and>
      frame builder m m' \<and> read_span m' topic = Some tb) \<and>
    (\<exists>r m' s'. poll_v e event m s = (r, m', s') \<and>
      poll e event (with_buffer_c builder m s) = (r, with_buffer_c builder m' s') \<and> frame builder m m')"
  using client_publish_v_correct [OF assms, of e net s] client_subscribe_v_correct [OF assms(1-4), of e net s]
    poll_v_correct [OF assms(1,2), of e event s] frame_read [OF assms(1) _ assms(3,4)] frame_read [OF assms(1) _ assms(5,6)]
  by (auto simp: agrees_c_def split: prod.splits)

theorem client_spans_safe_witness:
  "\<exists>r m' s'. client_publish_v Little 0 (example_net []) (span_of example_memory 1) (span_of example_memory 1)
       example_memory example_client = (r, m', s') \<and>
     publish Little (example_net []) (string_of_bytes [7, 8]) [7, 8] (with_buffer_c 0 example_memory example_client) =
       (r, with_buffer_c 0 m' s') \<and> read_span m' (span_of example_memory 1) = Some [7, 8]"
proof -
  have m: "memory_ok example_memory" "objects example_memory 0 \<noteq> None"
    and t: "read_span example_memory (span_of example_memory 1) = Some [7, 8]" "sp_addr (span_of example_memory 1) \<noteq> 0"
    by (auto simp: memory_ok_def example_memory_def)
  show ?thesis
    using client_spans_safe [OF m t t, of Little "example_net []" example_client] by blast
qed

end
