(* ===== verification/Async_Client.thy ===== *)
theory Async_Client
  imports Bindings
begin

text \<open>
  The asyncio client of the Python package, \<^verbatim>\<open>python/src/spraybus/async_client.py\<close>: a worker thread owns the
  native client; coroutines on the event loop hand it commands through a thread-safe queue, and it answers by
  callbacks that it schedules on the loop with \<^verbatim>\<open>call_soon_threadsafe\<close>.

  The state has the attributes of \<^verbatim>\<open>AsyncClient\<close> and, of its surroundings, the futures and message queues that were
  created (by number), the callbacks the loop has yet to run, in order, and the worker threads with their program
  counters. A coroutine runs without interruption up to its next \<^verbatim>\<open>await\<close>, as asyncio guarantees; \<open>closing\<close> and
  \<open>receiving\<close> hold the calls of \<^verbatim>\<open>close\<close> and \<^verbatim>\<open>recv\<close> that are suspended there. Every suspended call can be cancelled: one that waits for
  a future through that future, \<^verbatim>\<open>recv\<close> at the queue, which loses no item by it, and \<^verbatim>\<open>close\<close> also while it waits for the thread. Worker and loop interleave freely: one step
  of the relation is one uninterrupted piece of a coroutine, one callback, or one call that the worker makes. The native client is
  that of \<open>Bindings\<close>, with whatever ENet answers.
\<close>

section \<open>State\<close>

datatype async_error = Native py_error | Runtime string

datatype result_value = No_value | Int_value u64

datatype future_state = Pending | Cancelled | Done "async_error + result_value"

datatype 'u request_kind =
    Publish_request 'u string
  | Subscribe_request 'u
  | Key_request 'u
  | Close_request
  | Other_request string

text \<open>\<^verbatim>\<open>_Command\<close>: name and arguments are the request, the future may be missing.\<close>

record 'u command =
  cmd_request :: "'u request_kind"
  cmd_future :: "nat option"

text \<open>The owning \<^verbatim>\<open>Message\<close> of this module.\<close>

record 'u async_message =
  am_topic_key :: u64
  am_topic :: 'u
  am_payload :: string

datatype 'u queue_item = Message_item "'u async_message" | Error_item async_error

datatype 'u callback =
    Complete nat "async_error + result_value"
  | Put_message nat "'u async_message"
  | Publish_error nat async_error

datatype 'u worker_pc =
    Starting                      \<comment> \<open>before \<^verbatim>\<open>_native.Client(...)\<close>\<close>
  | Waiting                       \<comment> \<open>in \<^verbatim>\<open>_next_command\<close>\<close>
  | Handling "'u command"
  | Polling                       \<comment> \<open>in \<^verbatim>\<open>_poll_messages\<close>\<close>
  | Failing_started async_error   \<comment> \<open>before \<^verbatim>\<open>_fail_started\<close>\<close>
  | Failing_publish async_error   \<comment> \<open>before \<^verbatim>\<open>_publish_worker_error\<close>\<close>
  | Failing_pending async_error   \<comment> \<open>in \<^verbatim>\<open>_fail_pending\<close>\<close>
  | Ending                        \<comment> \<open>in \<^verbatim>\<open>finally\<close>\<close>
  | Finished

record 'u worker =
  w_pc :: "'u worker_pc"
  w_client :: "bus_client option"

record 'u async_client =
  a_host :: 'u
  a_port :: int
  a_commands :: "'u command list"
  a_messages :: "nat option"
  a_loop :: bool
  a_thread :: "nat option"
  a_started :: "nat option"
  a_worker_error :: "async_error option"
  a_closed :: bool
  queues :: "nat \<Rightarrow> 'u queue_item list"
  futures :: "nat \<Rightarrow> future_state"
  callbacks :: "'u callback list"
  workers :: "nat \<rightharpoonup> 'u worker"
  next_id :: nat
  closing :: "(nat \<times> nat) list"
  receiving :: "nat list"
  polled :: "nat \<Rightarrow> 'u async_message list"      \<comment> \<open>history: messages the worker took from the native client, by queue\<close>
  delivered :: "nat \<Rightarrow> 'u async_message list"   \<comment> \<open>history: messages that \<^verbatim>\<open>recv\<close> returned, by queue\<close>

definition AsyncClient_init :: "'u \<Rightarrow> int \<Rightarrow> 'u async_client" where
  "AsyncClient_init host port =
     \<lparr>a_host = host, a_port = port, a_commands = [], a_messages = None, a_loop = False, a_thread = None, a_started = None,
      a_worker_error = None, a_closed = False, queues = (\<lambda>_. []), futures = (\<lambda>_. Pending), callbacks = [],
      workers = Map.empty, next_id = 0, closing = [], receiving = [],
      polled = (\<lambda>_. []), delivered = (\<lambda>_. [])\<rparr>"

section \<open>The coroutines\<close>

text \<open>\<^verbatim>\<open>Thread.is_alive\<close>.\<close>

definition is_alive :: "'u async_client \<Rightarrow> nat \<Rightarrow> bool" where
  "is_alive s t = (case workers s t of None \<Rightarrow> False | Some w \<Rightarrow> w_pc w \<noteq> Finished)"

definition ensure_running :: "'u async_client \<Rightarrow> async_error + unit" where
  "ensure_running s =
     (if a_closed s then Inl (Runtime ''spraybus client is closed'')
      else
        (case a_worker_error s of
           Some err \<Rightarrow> Inl err
         | None \<Rightarrow>
             (if a_thread s = None then Inl (Runtime ''spraybus client is not connected'') else Inr ())))"

definition require_loop :: "'u async_client \<Rightarrow> async_error + unit" where
  "require_loop s = (if a_loop s then Inr () else Inl (Runtime ''spraybus client is not connected''))"

definition require_messages :: "'u async_client \<Rightarrow> async_error + nat" where
  "require_messages s =
     (case a_messages s of None \<Rightarrow> Inl (Runtime ''spraybus client is not connected'') | Some q \<Rightarrow> Inr q)"

text \<open>\<^verbatim>\<open>connect\<close> up to its \<^verbatim>\<open>await\<close>: the future it waits for.\<close>

definition async_connect :: "'u async_client \<Rightarrow> nat option \<times> 'u async_client" where
  "async_connect s =
     (if a_thread s \<noteq> None then (a_started s, s)
      else
        (let q = next_id s; f = Suc q; t = Suc f
         in (Some f, s\<lparr>a_loop := True, a_messages := Some q, queues := (queues s)(q := []), a_started := Some f,
              futures := (futures s)(f := Pending), a_closed := False, a_worker_error := None, a_thread := Some t,
              workers := (workers s)(t \<mapsto> \<lparr>w_pc = Starting, w_client = None\<rparr>), next_id := Suc t\<rparr>)))"

text \<open>Put a command with a new future on the queue.\<close>

definition put_command :: "'u request_kind \<Rightarrow> 'u async_client \<Rightarrow> nat \<times> 'u async_client" where
  "put_command r s =
     (let f = next_id s
      in (f, s\<lparr>futures := (futures s)(f := Pending), next_id := Suc f,
             a_commands := a_commands s @ [\<lparr>cmd_request = r, cmd_future = Some f\<rparr>]\<rparr>))"

text \<open>\<^verbatim>\<open>close\<close> up to its first \<^verbatim>\<open>await\<close>, and from there to its end once the future has a result and the thread ended.\<close>

definition async_close :: "'u async_client \<Rightarrow> (async_error + unit) \<times> 'u async_client" where
  "async_close s =
     (case a_thread s of
        None \<Rightarrow> (Inr (), s\<lparr>a_closed := True\<rparr>)
      | Some thread \<Rightarrow>
          (if is_alive s thread then
             (case require_loop s of
                Inl err \<Rightarrow> (Inl err, s)
              | Inr _ \<Rightarrow>
                  (let (f, s) = put_command Close_request s in (Inr (), s\<lparr>closing := closing s @ [(f, thread)]\<rparr>)))
           else (Inr (), s\<lparr>a_thread := None, a_closed := True\<rparr>)))"

definition close_resume :: "nat \<times> nat \<Rightarrow> 'u async_client \<Rightarrow> 'u async_client" where
  "close_resume c s =
     (let s = s\<lparr>closing := remove1 c (closing s)\<rparr>
      in case futures s (fst c) of
           Done (Inr _) \<Rightarrow> s\<lparr>a_thread := None, a_closed := True\<rparr>
         | _ \<Rightarrow> s)"

text \<open>\<^verbatim>\<open>_call\<close> up to its \<^verbatim>\<open>await\<close>, and the three public calls.\<close>

definition async_call :: "'u request_kind \<Rightarrow> 'u async_client \<Rightarrow> (async_error + nat) \<times> 'u async_client" where
  "async_call r s =
     (case ensure_running s of
        Inl err \<Rightarrow> (Inl err, s)
      | Inr _ \<Rightarrow>
          (case require_loop s of
             Inl err \<Rightarrow> (Inl err, s)
           | Inr _ \<Rightarrow> (let (f, s) = put_command r s in (Inr f, s))))"

text \<open>The payload of \<^verbatim>\<open>publish\<close>; \<open>encode\<close> is \<^verbatim>\<open>str.encode\<close>.\<close>

datatype 'u py_payload = Str 'u | Bytes string | Buffer string

definition async_payload_bytes :: "('u \<Rightarrow> 'n \<Rightarrow> async_error + string) \<Rightarrow> 'u py_payload \<Rightarrow> 'n \<Rightarrow> async_error + string" where
  "async_payload_bytes encode payload encoding =
     (case payload of
        Str u \<Rightarrow> encode u encoding
      | Bytes b \<Rightarrow> Inr b
      | Buffer b \<Rightarrow> Inr b)"

definition async_publish ::
    "('u \<Rightarrow> 'n \<Rightarrow> async_error + string) \<Rightarrow> 'u \<Rightarrow> 'u py_payload \<Rightarrow> 'n \<Rightarrow> 'u async_client \<Rightarrow>
     (async_error + nat) \<times> 'u async_client" where
  "async_publish encode topic payload encoding s =
     (case async_payload_bytes encode payload encoding of
        Inl err \<Rightarrow> (Inl err, s)
      | Inr data \<Rightarrow> async_call (Publish_request topic data) s)"

definition async_subscribe :: "'u \<Rightarrow> 'u async_client \<Rightarrow> (async_error + nat) \<times> 'u async_client" where
  "async_subscribe topic s = async_call (Subscribe_request topic) s"

definition async_get_topic_key :: "'u \<Rightarrow> 'u async_client \<Rightarrow> (async_error + nat) \<times> 'u async_client" where
  "async_get_topic_key topic s = async_call (Key_request topic) s"

text \<open>\<^verbatim>\<open>recv\<close> up to its \<^verbatim>\<open>await\<close>: the queue it waits on; and its rest, once the queue has an item.\<close>

definition async_recv :: "'u async_client \<Rightarrow> (async_error + nat) \<times> 'u async_client" where
  "async_recv s =
     (case ensure_running s of
        Inl err \<Rightarrow> (Inl err, s)
      | Inr _ \<Rightarrow>
          (case require_messages s of
             Inl err \<Rightarrow> (Inl err, s)
           | Inr q \<Rightarrow> (Inr q, s\<lparr>receiving := receiving s @ [q]\<rparr>)))"

fun recv_item :: "nat \<Rightarrow> 'u queue_item \<Rightarrow> 'u async_client \<Rightarrow> (async_error + 'u async_message) \<times> 'u async_client" where
  "recv_item q (Error_item err) s = (Inl err, s\<lparr>queues := (queues s)(q := queues s q @ [Error_item err])\<rparr>)"
| "recv_item q (Message_item msg) s = (Inr msg, s\<lparr>delivered := (delivered s)(q := delivered s q @ [msg])\<rparr>)"

definition recv_resume :: "nat \<Rightarrow> 'u async_client \<Rightarrow> (async_error + 'u async_message) \<times> 'u async_client" where
  "recv_resume q s =
     recv_item q (hd (queues s q)) (s\<lparr>queues := (queues s)(q := tl (queues s q)), receiving := remove1 q (receiving s)\<rparr>)"

text \<open>The callbacks as the loop runs them: \<^verbatim>\<open>complete\<close>, \<^verbatim>\<open>put_nowait\<close> and \<^verbatim>\<open>publish\<close>.\<close>

fun run_callback :: "'u callback \<Rightarrow> 'u async_client \<Rightarrow> 'u async_client" where
  "run_callback (Complete f r) s =
     (case futures s f of Pending \<Rightarrow> s\<lparr>futures := (futures s)(f := Done r)\<rparr> | _ \<Rightarrow> s)"
| "run_callback (Put_message q msg) s = s\<lparr>queues := (queues s)(q := queues s q @ [Message_item msg])\<rparr>"
| "run_callback (Publish_error q err) s =
     s\<lparr>a_worker_error := Some err, queues := (queues s)(q := queues s q @ [Error_item err])\<rparr>"


section \<open>The worker\<close>

definition call_soon :: "'u callback \<Rightarrow> 'u async_client \<Rightarrow> 'u async_client" where
  "call_soon cb s = s\<lparr>callbacks := callbacks s @ [cb]\<rparr>"

text \<open>\<^verbatim>\<open>_complete\<close>. Its check for a loop cannot fail: a worker runs only after \<^verbatim>\<open>connect\<close> has set the loop.\<close>

definition complete :: "nat option \<Rightarrow> async_error + result_value \<Rightarrow> 'u async_client \<Rightarrow> 'u async_client" where
  "complete future r s = (case future of None \<Rightarrow> s | Some f \<Rightarrow> call_soon (Complete f r) s)"

definition complete_started :: "'u async_client \<Rightarrow> 'u async_client" where
  [simp]: "complete_started s = complete (a_started s) (Inr No_value) s"

definition fail_started :: "async_error \<Rightarrow> 'u async_client \<Rightarrow> 'u async_client" where
  [simp]: "fail_started err s = complete (a_started s) (Inl err) s"

definition set_pc :: "nat \<Rightarrow> 'u worker_pc \<Rightarrow> bus_client option \<Rightarrow> 'u async_client \<Rightarrow> 'u async_client" where
  "set_pc t pc c s = s\<lparr>workers := (workers s)(t \<mapsto> \<lparr>w_pc = pc, w_client = c\<rparr>)\<rparr>"

text \<open>\<^verbatim>\<open>_native.Client(host, port)\<close>; pybind11 refuses a port that is no \<^verbatim>\<open>uint16_t\<close>.\<close>

definition native_init :: "'u py_text \<Rightarrow> int \<Rightarrow> connect_results \<Rightarrow> bool \<Rightarrow> 'u async_client \<Rightarrow> py_error + bus_client" where
  "native_init py result res once_done s =
     (if 0 \<le> a_port s \<and> a_port s \<le> 65535
      then fst (py_client_init py result res (a_host s) (word_of_int (a_port s)) once_done)
      else Inl Conversion_error)"

definition run_start :: "nat \<Rightarrow> py_error + bus_client \<Rightarrow> 'u async_client \<Rightarrow> 'u async_client" where
  "run_start t created s =
     (case created of
        Inl err \<Rightarrow> set_pc t (Failing_started (Native err)) None s
      | Inr client \<Rightarrow> set_pc t Waiting (Some client) (complete_started s))"

text \<open>\<^verbatim>\<open>_next_command\<close> and what the loop does with its result; an empty queue times out.\<close>

definition run_next :: "nat \<Rightarrow> bus_client option \<Rightarrow> 'u async_client \<Rightarrow> 'u async_client" where
  "run_next t client s =
     (case a_commands s of
        [] \<Rightarrow> set_pc t Polling client s
      | command # rest \<Rightarrow>
          (let s = s\<lparr>a_commands := rest\<rparr>
           in if cmd_request command = Close_request
              then set_pc t Ending client (complete (cmd_future command) (Inr No_value) s)
              else set_pc t (Handling command) client s))"

fun native_call ::
    "endian \<Rightarrow> 'u py_text \<Rightarrow> topic_lookup \<Rightarrow> 'u request_kind \<Rightarrow> bus_client \<Rightarrow> (async_error + result_value) \<times> bus_client" where
  "native_call e py net (Publish_request topic payload) client =
     (case py_publish e py net topic payload client of
        (Inl err, client, _) \<Rightarrow> (Inl (Native err), client)
      | (Inr _, client, _) \<Rightarrow> (Inr No_value, client))"
| "native_call e py net (Subscribe_request topic) client =
     (case py_subscribe e py net topic client of
        (Inl err, client, _) \<Rightarrow> (Inl (Native err), client)
      | (Inr _, client, _) \<Rightarrow> (Inr No_value, client))"
| "native_call e py net (Key_request topic) client =
     (case py_get_topic_key e py net topic client of
        (Inl err, client, _) \<Rightarrow> (Inl (Native err), client)
      | (Inr key, client, _) \<Rightarrow> (Inr (Int_value key), client))"
| "native_call e py net Close_request client = (Inl (Runtime ''Unknown spraybus command: close''), client)"
| "native_call e py net (Other_request name) client = (Inl (Runtime (''Unknown spraybus command: '' @ name)), client)"

definition handle_command ::
    "endian \<Rightarrow> 'u py_text \<Rightarrow> topic_lookup \<Rightarrow> nat \<Rightarrow> 'u command \<Rightarrow> bus_client \<Rightarrow> 'u async_client \<Rightarrow> 'u async_client" where
  "handle_command e py net t command client s =
     (let (r, client) = native_call e py net (cmd_request command) client
      in set_pc t Polling (Some client) (complete (cmd_future command) r s))"

text \<open>One turn of the loop of \<^verbatim>\<open>_poll_messages\<close>; copying a message fails when its topic is no valid text.\<close>

definition message_of :: "'u py_text \<Rightarrow> FanoutMessage \<Rightarrow> async_error + 'u async_message" where
  "message_of py m =
     (case py_topic py m of
        Inl err \<Rightarrow> Inl (Native err)
      | Inr topic \<Rightarrow> Inr \<lparr>am_topic_key = py_topic_key m, am_topic = topic, am_payload = payload_bytes m\<rparr>)"

definition post_message :: "'u async_message \<Rightarrow> 'u async_client \<Rightarrow> 'u async_client" where
  "post_message msg s =
     (case a_messages s of
        None \<Rightarrow> s
      | Some q \<Rightarrow> call_soon (Put_message q msg) (s\<lparr>polled := (polled s)(q := polled s q @ [msg])\<rparr>))"

definition poll_messages ::
    "endian \<Rightarrow> 'u py_text \<Rightarrow> ENetEvent option \<Rightarrow> nat \<Rightarrow> bus_client \<Rightarrow> 'u async_client \<Rightarrow> 'u async_client" where
  "poll_messages e py event t client s =
     (case py_poll e event client of
        (Inl err, client, _) \<Rightarrow> set_pc t (Failing_started (Native err)) (Some client) s
      | (Inr None, client, _) \<Rightarrow> set_pc t Waiting (Some client) s
      | (Inr (Some native_message), client, _) \<Rightarrow>
          (case message_of py native_message of
             Inl err \<Rightarrow> set_pc t (Failing_started err) (Some client) s
           | Inr msg \<Rightarrow> set_pc t Polling (Some client) (post_message msg s)))"

definition publish_worker_error :: "async_error \<Rightarrow> 'u async_client \<Rightarrow> 'u async_client" where
  "publish_worker_error err s =
     (if \<not> a_loop s then s
      else (case a_messages s of None \<Rightarrow> s | Some q \<Rightarrow> call_soon (Publish_error q err) s))"

definition fail_pending :: "nat \<Rightarrow> async_error \<Rightarrow> bus_client option \<Rightarrow> 'u async_client \<Rightarrow> 'u async_client" where
  "fail_pending t err client s =
     (case a_commands s of
        [] \<Rightarrow> set_pc t Ending client s
      | command # rest \<Rightarrow> complete (cmd_future command) (Inl err) (s\<lparr>a_commands := rest\<rparr>))"

text \<open>What the outside gives to a step of the worker.\<close>

datatype worker_input =
    Created int connect_results bool   \<comment> \<open>results of the constructor's calls to ENet\<close>
  | Answered topic_lookup
  | Reported "ENetEvent option"
  | Nothing

fun worker_step ::
    "endian \<Rightarrow> 'u py_text \<Rightarrow> worker_input \<Rightarrow> nat \<Rightarrow> 'u worker_pc \<Rightarrow> bus_client option \<Rightarrow> 'u async_client \<Rightarrow>
     'u async_client option" where
  "worker_step e py (Created result res once_done) t Starting c s = Some (run_start t (native_init py result res once_done s) s)"
| "worker_step e py Nothing t Waiting c s = Some (run_next t c s)"
| "worker_step e py (Answered net) t (Handling command) (Some c) s = Some (handle_command e py net t command c s)"
| "worker_step e py (Reported event) t Polling (Some c) s = Some (poll_messages e py event t c s)"
| "worker_step e py Nothing t (Failing_started err) c s =
     Some (set_pc t (Failing_publish err) c (fail_started err s))"
| "worker_step e py Nothing t (Failing_publish err) c s = Some (set_pc t (Failing_pending err) c (publish_worker_error err s))"
| "worker_step e py Nothing t (Failing_pending err) c s = Some (fail_pending t err c s)"
| "worker_step e py Nothing t Ending c s = Some (set_pc t Finished None s)"
| "worker_step e py _ t _ c s = None"

section \<open>Interleaving\<close>

datatype 'u async_label =
    Connect
  | Close
  | Closed "nat \<times> nat"
  | Call "'u request_kind"
  | Recv
  | Received nat "async_error + 'u async_message"
  | Cancel nat
  | Cancel_close "nat \<times> nat"    \<comment> \<open>while \<^verbatim>\<open>close\<close> waits for the thread\<close>
  | Cancel_recv nat
  | Run_callback
  | Work nat worker_input

inductive async_step ::
    "endian \<Rightarrow> 'u py_text \<Rightarrow> 'u async_client \<Rightarrow> 'u async_label \<Rightarrow> 'u async_client \<Rightarrow> bool" for e py where
  connect: "async_connect s = (f, s') \<Longrightarrow> async_step e py s Connect s'"
| close: "async_close s = (r, s') \<Longrightarrow> async_step e py s Close s'"
| closed: "\<lbrakk>c \<in> set (closing s); futures s (fst c) \<noteq> Pending;
     \<forall>v. futures s (fst c) = Done (Inr v) \<longrightarrow> \<not> is_alive s (snd c)\<rbrakk> \<Longrightarrow>
     async_step e py s (Closed c) (close_resume c s)"
| call: "\<lbrakk>r \<noteq> Close_request; async_call r s = (x, s')\<rbrakk> \<Longrightarrow> async_step e py s (Call r) s'"
| recv: "async_recv s = (x, s') \<Longrightarrow> async_step e py s Recv s'"
| received: "\<lbrakk>q \<in> set (receiving s); queues s q \<noteq> []; recv_resume q s = (x, s')\<rbrakk> \<Longrightarrow>
     async_step e py s (Received q x) s'"
| cancel: "\<lbrakk>f < next_id s; futures s f = Pending\<rbrakk> \<Longrightarrow> async_step e py s (Cancel f) (s\<lparr>futures := (futures s)(f := Cancelled)\<rparr>)"
| cancel_close: "\<lbrakk>c \<in> set (closing s); futures s (fst c) = Done (Inr v)\<rbrakk> \<Longrightarrow>
     async_step e py s (Cancel_close c) (s\<lparr>closing := remove1 c (closing s)\<rparr>)"
| cancel_recv: "q \<in> set (receiving s) \<Longrightarrow> async_step e py s (Cancel_recv q) (s\<lparr>receiving := remove1 q (receiving s)\<rparr>)"
| callback: "callbacks s = cb # rest \<Longrightarrow> async_step e py s Run_callback (run_callback cb (s\<lparr>callbacks := rest\<rparr>))"
| work: "\<lbrakk>workers s t = Some w; worker_step e py inp t (w_pc w) (w_client w) s = Some s'\<rbrakk> \<Longrightarrow>
     async_step e py s (Work t inp) s'"

abbreviation async_run ::
    "endian \<Rightarrow> 'u py_text \<Rightarrow> 'u async_client \<Rightarrow> 'u async_label list \<Rightarrow> 'u async_client \<Rightarrow> bool" where
  "async_run e py \<equiv> runs (async_step e py)"

section \<open>Numbers are fresh\<close>

fun callback_fresh :: "nat \<Rightarrow> 'u callback \<Rightarrow> bool" where
  "callback_fresh n (Complete f r) = (f < n)"
| "callback_fresh n (Put_message q msg) = (q < n)"
| "callback_fresh n (Publish_error q err) = (q < n)"

definition command_fresh :: "nat \<Rightarrow> 'u command \<Rightarrow> bool" where
  "command_fresh n c = (case cmd_future c of None \<Rightarrow> True | Some f \<Rightarrow> f < n)"

definition pc_fresh :: "nat \<Rightarrow> 'u worker_pc \<Rightarrow> bool" where
  "pc_fresh n pc = (case pc of Handling c \<Rightarrow> command_fresh n c | _ \<Rightarrow> True)"

lemma pc_fresh_simps [simp]:
  "pc_fresh n Starting" "pc_fresh n Waiting" "pc_fresh n Polling" "pc_fresh n Ending" "pc_fresh n Finished"
  "pc_fresh n (Failing_started err)" "pc_fresh n (Failing_publish err)" "pc_fresh n (Failing_pending err)"
  "pc_fresh n (Handling c) = command_fresh n c"
  by (simp_all add: pc_fresh_def)

text \<open>Everything that is referred to was created, and what was not created is in its initial state.\<close>

definition fresh_inv :: "'u async_client \<Rightarrow> bool" where
  "fresh_inv s \<longleftrightarrow>
     (\<forall>i \<ge> next_id s. futures s i = Pending \<and> queues s i = [] \<and> workers s i = None \<and> polled s i = [] \<and> delivered s i = []) \<and>
     list_all (callback_fresh (next_id s)) (callbacks s) \<and> list_all (command_fresh (next_id s)) (a_commands s) \<and>
     (\<forall>t w. workers s t = Some w \<longrightarrow> pc_fresh (next_id s) (w_pc w)) \<and>
     pred_option (\<lambda>f. f < next_id s) (a_started s) \<and> pred_option (\<lambda>q. q < next_id s) (a_messages s) \<and>
     (\<forall>q \<in> set (receiving s). q < next_id s)"

lemma fresh_mono:
  "\<lbrakk>callback_fresh n cb; n \<le> n'\<rbrakk> \<Longrightarrow> callback_fresh n' cb"
  "\<lbrakk>command_fresh n c; n \<le> n'\<rbrakk> \<Longrightarrow> command_fresh n' c"
  "\<lbrakk>pc_fresh n pc; n \<le> n'\<rbrakk> \<Longrightarrow> pc_fresh n' pc"
  by (cases cb; simp) (auto simp: command_fresh_def pc_fresh_def split: option.splits worker_pc.splits)

lemma fresh_list_mono:
  "\<lbrakk>list_all (callback_fresh n) cbs; n \<le> n'\<rbrakk> \<Longrightarrow> list_all (callback_fresh n') cbs"
  "\<lbrakk>list_all (command_fresh n) cs; n \<le> n'\<rbrakk> \<Longrightarrow> list_all (command_fresh n') cs"
  by (auto simp: list_all_iff intro: fresh_mono)

lemma fresh_init: "fresh_inv (AsyncClient_init host port)"
  by (simp add: fresh_inv_def AsyncClient_init_def)

lemma fresh_connect:
  assumes "fresh_inv s" and "async_connect s = (f, s')"
  shows "fresh_inv s'"
proof (cases "a_thread s")
  case None
  have "\<forall>t w. workers s t = Some w \<longrightarrow> pc_fresh (Suc (Suc (Suc (next_id s)))) (w_pc w)"
    using assms(1) fresh_mono(3) by (fastforce simp: fresh_inv_def)
  with None assms show ?thesis
    by (auto simp: async_connect_def fresh_inv_def Let_def less_Suc_eq elim!: fresh_list_mono split: if_splits)
qed (use assms in \<open>simp add: async_connect_def\<close>)

lemma fresh_put:
  assumes "fresh_inv s" and "put_command r s = (f, s')"
  shows "fresh_inv s'"
proof -
  have "\<forall>t w. workers s t = Some w \<longrightarrow> pc_fresh (Suc (next_id s)) (w_pc w)"
    using assms(1) fresh_mono(3) by (fastforce simp: fresh_inv_def)
  moreover have "pred_option (\<lambda>f. f < Suc (next_id s)) (a_started s)" "pred_option (\<lambda>f. f < Suc (next_id s)) (a_messages s)"
    using assms(1) by (auto simp: fresh_inv_def elim!: option.pred_mono_strong)
  ultimately show ?thesis
    using assms
    by (auto simp: put_command_def fresh_inv_def Let_def command_fresh_def less_Suc_eq elim!: fresh_list_mono)
qed


text \<open>The parts of the worker's steps.\<close>

lemma fresh_set_pc: "\<lbrakk>fresh_inv s; pc_fresh (next_id s) pc; t < next_id s\<rbrakk> \<Longrightarrow> fresh_inv (set_pc t pc c s)"
  by (auto simp: fresh_inv_def set_pc_def)

lemma fresh_call_soon: "\<lbrakk>fresh_inv s; callback_fresh (next_id s) cb\<rbrakk> \<Longrightarrow> fresh_inv (call_soon cb s)"
  by (auto simp: fresh_inv_def call_soon_def)

lemma fresh_complete: "\<lbrakk>fresh_inv s; pred_option (\<lambda>f. f < next_id s) f\<rbrakk> \<Longrightarrow> fresh_inv (complete f r s)"
  by (cases f) (simp_all add: complete_def fresh_call_soon)

lemma fresh_commands: "\<lbrakk>fresh_inv s; a_commands s = c # rest\<rbrakk> \<Longrightarrow> fresh_inv (s\<lparr>a_commands := rest\<rparr>) \<and> command_fresh (next_id s) c"
  by (auto simp: fresh_inv_def)

lemma command_fresh_future: "command_fresh n c \<Longrightarrow> pred_option (\<lambda>f. f < n) (cmd_future c)"
  by (cases "cmd_future c") (simp_all add: command_fresh_def)

lemma worker_simps [simp]:
  "next_id (set_pc t pc c s) = next_id s" "next_id (call_soon cb s) = next_id s" "next_id (complete f r s) = next_id s"
  "next_id (post_message m s) = next_id s" "next_id (publish_worker_error err s) = next_id s"
  by (simp_all add: set_pc_def call_soon_def complete_def post_message_def publish_worker_error_def split: option.split)

lemma fresh_post: "fresh_inv s \<Longrightarrow> fresh_inv (post_message m s)"
  by (auto simp: post_message_def call_soon_def fresh_inv_def split: option.split)

lemma fresh_publish: "fresh_inv s \<Longrightarrow> fresh_inv (publish_worker_error err s)"
  by (auto simp: publish_worker_error_def call_soon_def fresh_inv_def split: option.split)

lemmas fresh_parts = fresh_set_pc fresh_complete fresh_post fresh_publish command_fresh_future

lemma fresh_below: "\<lbrakk>fresh_inv s; workers s t = Some w\<rbrakk> \<Longrightarrow> t < next_id s \<and> pc_fresh (next_id s) (w_pc w)"
  unfolding fresh_inv_def by (metis linorder_not_less option.distinct(1))

lemma fresh_started: "fresh_inv s \<Longrightarrow> pred_option (\<lambda>f. f < next_id s) (a_started s)"
  by (simp add: fresh_inv_def)

lemma fresh_run_next: "\<lbrakk>fresh_inv s; t < next_id s\<rbrakk> \<Longrightarrow> fresh_inv (run_next t c s)"
  by (auto simp: run_next_def Let_def intro!: fresh_parts dest: fresh_commands split: list.split)

lemma fresh_fail_pending: "\<lbrakk>fresh_inv s; t < next_id s\<rbrakk> \<Longrightarrow> fresh_inv (fail_pending t err c s)"
  by (auto simp: fail_pending_def intro!: fresh_parts dest: fresh_commands split: list.split)

lemma fresh_poll_messages: "\<lbrakk>fresh_inv s; t < next_id s\<rbrakk> \<Longrightarrow> fresh_inv (poll_messages e py event t c s)"
  by (auto simp: poll_messages_def intro!: fresh_parts split: prod.split sum.split option.split)

lemma fresh_work:
  assumes "fresh_inv s" and "workers s t = Some w" and "worker_step e py inp t (w_pc w) (w_client w) s = Some s'"
  shows "fresh_inv s'"
proof -
  note below = fresh_below [OF assms(1,2)]
  note started = fresh_started [OF assms(1)]
  show ?thesis
    using assms below started
    by (cases "(e, py, inp, t, w_pc w, w_client w, s)" rule: worker_step.cases)
      (auto simp: run_start_def handle_command_def Let_def fresh_run_next fresh_poll_messages fresh_fail_pending
        intro!: fresh_parts split: sum.splits prod.splits)
qed

lemma fresh_callback:
  assumes "fresh_inv s" and "callbacks s = cb # rest"
  shows "fresh_inv (run_callback cb (s\<lparr>callbacks := rest\<rparr>))"
  using assms by (cases cb) (auto simp: fresh_inv_def split: future_state.split)

lemma fresh_recv:
  assumes "fresh_inv s" and "q \<in> set (receiving s)" and "recv_resume q s = (x, s')"
  shows "fresh_inv s'"
  using assms
  by (cases "hd (queues s q)") (auto simp: recv_resume_def fresh_inv_def dest: notin_set_remove1)

lemma fresh_step:
  assumes "async_step e py s l s'" and "fresh_inv s"
  shows "fresh_inv s'"
  using assms
proof (cases rule: async_step.cases)
  case (close r)
  then show ?thesis
    using assms(2) fresh_put [OF assms(2)]
    by (auto simp: async_close_def require_loop_def Let_def fresh_inv_def split: option.splits if_splits prod.splits)
next
  case (closed c)
  then show ?thesis
    using assms(2) by (auto simp: close_resume_def fresh_inv_def Let_def split: future_state.split sum.split)
next
  case (call r x)
  then show ?thesis
    using assms(2) fresh_put [OF assms(2)]
    by (auto simp: async_call_def Let_def split: sum.splits prod.splits)
next
  case (recv x)
  then show ?thesis
    using assms(2)
    by (auto simp: async_recv_def require_messages_def fresh_inv_def split: sum.splits option.splits)
next
  case (cancel f)
  then show ?thesis using assms(2) by (auto simp: fresh_inv_def)
next
  case (cancel_recv q)
  then show ?thesis using assms(2) by (auto simp: fresh_inv_def dest: notin_set_remove1)
next
  case (cancel_close c v)
  then show ?thesis using assms(2) by (simp add: fresh_inv_def)
qed (use assms fresh_connect fresh_work fresh_callback fresh_recv in blast)+


interpretation fresh: labelled_invariant "async_step e py" "\<lambda>_. True" fresh_inv for e py
  by unfold_locales (rule fresh_step)

lemma fresh_run: "\<lbrakk>async_run e py s ls s'; fresh_inv s\<rbrakk> \<Longrightarrow> fresh_inv s'"
  by (rule fresh.kept_by_runs) simp_all

section \<open>What the steps do to futures\<close>

lemma worker_futures [simp]:
  "futures (set_pc t pc c s) = futures s" "futures (call_soon cb s) = futures s" "futures (complete f r s) = futures s"
  "futures (post_message m s) = futures s" "futures (publish_worker_error err s) = futures s"
  by (simp_all add: set_pc_def call_soon_def complete_def post_message_def publish_worker_error_def split: option.split)

lemma worker_step_futures:
  assumes "worker_step e py inp t pc c s = Some s'"
  shows "futures s' = futures s"
  using assms
  by (cases "(e, py, inp, t, pc, c, s)" rule: worker_step.cases)
    (auto simp: run_start_def run_next_def handle_command_def poll_messages_def fail_pending_def Let_def
      split: sum.splits prod.splits list.splits option.splits)

lemma put_futures: "put_command r s = (f, s') \<Longrightarrow> futures s' = (futures s)(next_id s := Pending)"
  by (auto simp: put_command_def Let_def)

text \<open>A future that is no longer pending stays as it is: \<^verbatim>\<open>complete\<close> checks, and everything else makes new futures.\<close>

lemma done_step:
  assumes "async_step e py s l s'" and "fresh_inv s" and "futures s f \<noteq> Pending"
  shows "futures s' f = futures s f"
proof -
  have new: "f < next_id s"
    using assms(2,3) unfolding fresh_inv_def by (metis linorder_not_less)
  show ?thesis
    using assms(1)
  proof (cases rule: async_step.cases)
    case (connect g)
    with new show ?thesis by (auto simp: async_connect_def Let_def split: if_splits)
  next
    case (close r)
    with new show ?thesis
      by (auto simp: async_close_def Let_def dest!: put_futures split: option.splits if_splits sum.splits prod.splits)
  next
    case (call r x)
    with new show ?thesis by (auto simp: async_call_def Let_def dest!: put_futures split: sum.splits prod.splits)
  next
    case (received q x)
    then show ?thesis by (cases "hd (queues s q)") (auto simp: recv_resume_def)
  next
    case (callback cb rest)
    with assms(3) show ?thesis by (cases cb) (auto split: future_state.split)
  next
    case (work t w inp)
    then show ?thesis using worker_step_futures by metis
  qed (use assms(3) in
    \<open>auto simp: close_resume_def async_recv_def require_messages_def Let_def
      split: future_state.splits sum.splits option.splits if_splits\<close>)
qed

interpretation settled: labelled_invariant "async_step e py" "\<lambda>_. True"
  "\<lambda>s. fresh_inv s \<and> v \<noteq> Pending \<and> futures s f = v" for e py f v
  by unfold_locales (auto dest: fresh_step done_step)

lemma done_run:
  "\<lbrakk>async_run e py s ls s'; fresh_inv s; futures s f \<noteq> Pending\<rbrakk> \<Longrightarrow> futures s' f = futures s f"
  using settled.kept_by_runs [where f = f and v = "futures s f"] by blast

section \<open>No call is lost\<close>

text \<open>Where an open call is: its command in the queue, in the hands of a worker, or its completion on the way.\<close>

definition open_call :: "'u async_client \<Rightarrow> nat \<Rightarrow> bool" where
  "open_call s f \<longleftrightarrow>
     (\<exists>c \<in> set (a_commands s). cmd_future c = Some f) \<or>
     (\<exists>t w c. workers s t = Some w \<and> w_pc w = Handling c \<and> cmd_future c = Some f) \<or>
     (\<exists>r. Complete f r \<in> set (callbacks s))"

lemma open_complete: "open_call (complete (Some f) r s) f"
  by (auto simp: complete_def call_soon_def open_call_def)

lemma open_mono:
  assumes "open_call s f" and "set (a_commands s) \<subseteq> set (a_commands s')" and "set (callbacks s) \<subseteq> set (callbacks s')"
    and "\<And>t w. workers s t = Some w \<Longrightarrow> workers s' t = Some w"
  shows "open_call s' f"
  using assms unfolding open_call_def by blast

lemma open_parts:
  "open_call s f \<Longrightarrow> open_call (call_soon cb s) f" "open_call s f \<Longrightarrow> open_call (complete g r s) f"
  "open_call s f \<Longrightarrow> open_call (post_message m s) f" "open_call s f \<Longrightarrow> open_call (publish_worker_error err s) f"
  by (auto simp: complete_def call_soon_def post_message_def publish_worker_error_def open_call_def split: option.split)

text \<open>Moving a worker on loses only the command it was handling.\<close>

lemma open_set_pc:
  assumes "open_call s f"
    and "\<And>w c. \<lbrakk>workers s t = Some w; w_pc w = Handling c; cmd_future c = Some f\<rbrakk> \<Longrightarrow> \<exists>r. Complete f r \<in> set (callbacks s)"
  shows "open_call (set_pc t pc c s) f"
proof -
  consider (queue) d where "d \<in> set (a_commands s)" "cmd_future d = Some f"
    | (worker) t' w d where "workers s t' = Some w" "w_pc w = Handling d" "cmd_future d = Some f"
    | (callback) r where "Complete f r \<in> set (callbacks s)"
    using assms(1) by (auto simp: open_call_def)
  then show ?thesis
  proof cases
    case queue
    then show ?thesis by (auto simp: open_call_def set_pc_def)
  next
    case worker
    show ?thesis
    proof (cases "t' = t")
      case True
      with worker assms(2) show ?thesis by (auto simp: open_call_def set_pc_def)
    next
      case False
      then have "workers (set_pc t pc c s) t' = Some w" using worker(1) by (simp add: set_pc_def)
      with worker(2,3) show ?thesis by (auto simp: open_call_def)
    qed
  next
    case callback
    then show ?thesis by (auto simp: open_call_def set_pc_def)
  qed
qed


lemma callbacks_set_pc [simp]:
  "callbacks (set_pc t pc c s) = callbacks s" "workers (complete g r s) = workers s" "workers (call_soon cb s) = workers s"
  "workers (post_message m s) = workers s" "workers (publish_worker_error err s) = workers s"
  by (simp_all add: set_pc_def complete_def call_soon_def post_message_def publish_worker_error_def split: option.split)

lemma open_run_next:
  assumes "open_call s f" and "workers s t = Some w" and "w_pc w = Waiting"
  shows "open_call (run_next t c s) f"
proof (cases "a_commands s")
  case Nil
  with assms show ?thesis by (auto simp: run_next_def intro!: open_set_pc)
next
  case (Cons d rest)
  let ?s = "s\<lparr>a_commands := rest\<rparr>"
  show ?thesis
  proof (cases "cmd_future d = Some f")
    case True
    then have "open_call (set_pc t Ending c (complete (cmd_future d) (Inr No_value) ?s)) f"
      using assms(2,3) by (simp only:) (intro open_set_pc open_complete, simp)
    moreover from True have "open_call (set_pc t (Handling d) c ?s) f"
      by (auto simp: open_call_def set_pc_def)
    ultimately show ?thesis by (simp add: run_next_def Cons Let_def)
  next
    case False
    with assms(1) Cons have "open_call ?s f" by (auto simp: open_call_def)
    with assms(2,3) show ?thesis
      by (auto simp: run_next_def Cons Let_def intro!: open_set_pc open_parts)
  qed
qed

lemma open_fail_pending:
  assumes "open_call s f" and "workers s t = Some w" and "w_pc w = Failing_pending err"
  shows "open_call (fail_pending t err c s) f"
proof (cases "a_commands s")
  case Nil
  with assms show ?thesis by (auto simp: fail_pending_def intro!: open_set_pc)
next
  case (Cons d rest)
  show ?thesis
  proof (cases "cmd_future d = Some f")
    case False
    with assms(1) Cons have "open_call (s\<lparr>a_commands := rest\<rparr>) f" by (auto simp: open_call_def)
    then show ?thesis by (simp add: fail_pending_def Cons open_parts)
  qed (simp add: fail_pending_def Cons open_complete)
qed

lemma open_poll:
  assumes "open_call s f" and "workers s t = Some w" and "w_pc w = Polling"
  shows "open_call (poll_messages e py event t c s) f"
  using assms
  by (auto simp: poll_messages_def intro!: open_set_pc open_parts split: prod.split sum.split option.split)

lemma open_handle:
  assumes "open_call s f" and "workers s t = Some w" and "w_pc w = Handling d"
  shows "open_call (handle_command e py net t d c s) f"
proof -
  obtain r c' where r: "native_call e py net (cmd_request d) c = (r, c')" by fastforce
  have "\<exists>x. Complete f x \<in> set (callbacks (complete (cmd_future d) r s))" if "cmd_future d = Some f"
    using that by (auto simp: complete_def call_soon_def)
  with assms have "open_call (set_pc t Polling (Some c') (complete (cmd_future d) r s)) f"
    by (intro open_set_pc open_parts) auto
  with r show ?thesis by (simp add: handle_command_def)
qed

lemma open_work:
  assumes "open_call s f" and "workers s t = Some w" and "worker_step e py inp t (w_pc w) (w_client w) s = Some s'"
  shows "open_call s' f"
  using assms(3)
proof (cases "(e, py, inp, t, w_pc w, w_client w, s)" rule: worker_step.cases)
  case (1 e py result res once_done t c s)
  with assms show ?thesis
    by (auto simp: run_start_def intro!: open_set_pc open_parts split: sum.split)
next
  case (2 e py t c s)
  with assms open_run_next show ?thesis by fastforce
next
  case (3 e py net t command c s)
  with assms open_handle show ?thesis by fastforce
next
  case (4 e py event t c s)
  with assms open_poll show ?thesis by fastforce
next
  case (5 e py t err c s)
  with assms show ?thesis by (auto intro!: open_set_pc open_parts)
next
  case (6 e py t err c s)
  with assms show ?thesis by (auto intro!: open_set_pc open_parts)
next
  case (7 e py t err c s)
  with assms open_fail_pending show ?thesis by fastforce
next
  case (8 e py t c s)
  with assms show ?thesis by (auto intro!: open_set_pc)
qed (use assms(3) in auto)

lemma open_put: "\<lbrakk>put_command r s = (g, s'); open_call s f\<rbrakk> \<Longrightarrow> open_call s' f"
  by (auto simp: put_command_def open_call_def Let_def)

lemma open_step:
  assumes "async_step e py s l s'" and "open_call s f" and "fresh_inv s"
  shows "open_call s' f \<or> futures s' f \<noteq> Pending"
  using assms(1)
proof (cases rule: async_step.cases)
  case (connect g)
  have "workers s (Suc (Suc (next_id s))) = None" using assms(3) by (simp add: fresh_inv_def)
  with connect have "workers s' t = Some w" if "workers s t = Some w" for t w
    using that by (auto simp: async_connect_def Let_def split: if_splits)
  with connect have "open_call s' f"
    by (intro open_mono [OF assms(2)]) (auto simp: async_connect_def Let_def split: if_splits)
  then show ?thesis ..
next
  case (close r)
  with assms(2) show ?thesis
    by (auto simp: async_close_def Let_def dest!: open_put split: option.splits if_splits sum.splits prod.splits)
      (auto simp: open_call_def)
next
  case (call r x)
  with assms(2) show ?thesis by (auto simp: async_call_def Let_def dest!: open_put split: sum.splits prod.splits)
next
  case (received q x)
  with assms(2) show ?thesis by (cases "hd (queues s q)") (auto simp: recv_resume_def open_call_def)
next
  case (callback cb rest)
  with assms(2) show ?thesis
    by (cases cb) (auto simp: open_call_def split: future_state.split)
next
  case (work t w inp)
  with assms(2) open_work show ?thesis by blast
qed (use assms(2) in \<open>auto simp: close_resume_def async_recv_def require_messages_def open_call_def Let_def
  split: future_state.splits sum.splits option.splits if_splits\<close>)

interpretation tracked: labelled_invariant "async_step e py" "\<lambda>_. True"
  "\<lambda>s. fresh_inv s \<and> (open_call s f \<or> futures s f \<noteq> Pending)" for e py f
  by unfold_locales (metis fresh_step open_step done_step)

lemma open_run:
  "\<lbrakk>async_run e py s ls s'; fresh_inv s; open_call s f\<rbrakk> \<Longrightarrow> open_call s' f \<or> futures s' f \<noteq> Pending"
  using tracked.kept_by_runs [where f = f] by blast

section \<open>The way of the messages\<close>

fun item_messages :: "'u queue_item list \<Rightarrow> 'u async_message list" where
  "item_messages [] = []"
| "item_messages (Message_item m # xs) = m # item_messages xs"
| "item_messages (Error_item err # xs) = item_messages xs"

fun posted :: "nat \<Rightarrow> 'u callback list \<Rightarrow> 'u async_message list" where
  "posted q [] = []"
| "posted q (Put_message q' m # cbs) = (if q' = q then m # posted q cbs else posted q cbs)"
| "posted q (_ # cbs) = posted q cbs"

lemma item_messages_append [simp]: "item_messages (xs @ ys) = item_messages xs @ item_messages ys"
  by (induction xs rule: item_messages.induct) simp_all

lemma posted_append [simp]: "posted q (xs @ ys) = posted q xs @ posted q ys"
  by (induction q xs rule: posted.induct) simp_all

text \<open>Nothing is lost, duplicated or reordered between the native client and \<^verbatim>\<open>recv\<close>.\<close>

definition flow_inv :: "'u async_client \<Rightarrow> bool" where
  "flow_inv s \<longleftrightarrow> (\<forall>q. polled s q = delivered s q @ item_messages (queues s q) @ posted q (callbacks s))"

definition same_flow :: "'u async_client \<Rightarrow> 'u async_client \<Rightarrow> bool" where
  "same_flow s s' \<longleftrightarrow> polled s' = polled s \<and> delivered s' = delivered s \<and> queues s' = queues s \<and>
     (\<forall>q. posted q (callbacks s') = posted q (callbacks s))"

lemma flow_same: "\<lbrakk>flow_inv s; same_flow s s'\<rbrakk> \<Longrightarrow> flow_inv s'"
  by (simp add: flow_inv_def same_flow_def)

lemma flow_parts:
  "flow_inv (set_pc t pc c s) = flow_inv s" "flow_inv (complete f r s) = flow_inv s"
  "flow_inv (publish_worker_error err s) = flow_inv s" "flow_inv (s\<lparr>a_commands := cs\<rparr>) = flow_inv s"
  by (simp_all add: flow_inv_def set_pc_def complete_def call_soon_def publish_worker_error_def split: option.split)

lemma flow_post: "flow_inv s \<Longrightarrow> flow_inv (post_message m s)"
  by (simp add: flow_inv_def post_message_def call_soon_def split: option.split)

lemma flow_work:
  assumes "flow_inv s" and "worker_step e py inp t pc c s = Some s'"
  shows "flow_inv s'"
  using assms
  by (cases "(e, py, inp, t, pc, c, s)" rule: worker_step.cases)
    (auto simp: run_start_def run_next_def handle_command_def poll_messages_def fail_pending_def Let_def flow_parts flow_post
      split: sum.splits prod.splits list.splits option.splits)

lemma flow_step:
  assumes "async_step e py s l s'" and "fresh_inv s" and "flow_inv s"
  shows "flow_inv s'"
  using assms(1)
proof (cases rule: async_step.cases)
  case (connect f)
  have "queues s (next_id s) = []" using assms(2) by (simp add: fresh_inv_def)
  with connect have "same_flow s s'"
    by (auto simp: async_connect_def same_flow_def Let_def split: if_splits)
  then show ?thesis by (rule flow_same [OF assms(3)])
next
  case (close r)
  then have "same_flow s s'"
    by (auto simp: async_close_def put_command_def same_flow_def Let_def split: option.splits if_splits sum.splits)
  then show ?thesis by (rule flow_same [OF assms(3)])
next
  case (call r x)
  then have "same_flow s s'"
    by (auto simp: async_call_def put_command_def same_flow_def Let_def split: sum.splits)
  then show ?thesis by (rule flow_same [OF assms(3)])
next
  case (recv x)
  then have "same_flow s s'"
    by (auto simp: async_recv_def same_flow_def split: sum.splits)
  then show ?thesis by (rule flow_same [OF assms(3)])
next
  case (closed c)
  then have "same_flow s s'"
    by (auto simp: close_resume_def same_flow_def Let_def split: future_state.splits sum.splits)
  then show ?thesis by (rule flow_same [OF assms(3)])
next
  case (received q x)
  then obtain i rest where "queues s q = i # rest" by (cases "queues s q") auto
  with received assms(3) show ?thesis
    by (cases i) (auto simp: recv_resume_def flow_inv_def)
next
  case (callback cb rest)
  with assms(3) show ?thesis
    by (cases cb) (auto simp: flow_inv_def split: future_state.split)
next
  case (work t w inp)
  with assms(3) flow_work show ?thesis by blast
qed (use assms(3) in \<open>auto simp: flow_inv_def\<close>)

interpretation flow: labelled_invariant "async_step e py" "\<lambda>_. True" "\<lambda>s. fresh_inv s \<and> flow_inv s" for e py
  by unfold_locales (auto dest: fresh_step flow_step)

section \<open>Running a schedule\<close>

definition may_finish :: "nat \<times> nat \<Rightarrow> 'u async_client \<Rightarrow> bool" where
  "may_finish c s =
     (c \<in> set (closing s) \<and>
      (case futures s (fst c) of Pending \<Rightarrow> False | Done (Inr _) \<Rightarrow> \<not> is_alive s (snd c) | _ \<Rightarrow> True))"

fun exec :: "endian \<Rightarrow> 'u py_text \<Rightarrow> 'u async_label \<Rightarrow> 'u async_client \<Rightarrow> 'u async_client option" where
  "exec e py Connect s = Some (snd (async_connect s))"
| "exec e py Close s = Some (snd (async_close s))"
| "exec e py (Closed c) s = (if may_finish c s then Some (close_resume c s) else None)"
| "exec e py (Call r) s = (if r = Close_request then None else Some (snd (async_call r s)))"
| "exec e py Recv s = Some (snd (async_recv s))"
| "exec e py (Received q x) s =
     (if q \<in> set (receiving s) \<and> queues s q \<noteq> [] \<and> fst (recv_resume q s) = x then Some (snd (recv_resume q s)) else None)"
| "exec e py (Cancel f) s =
     (if f < next_id s \<and> futures s f = Pending then Some (s\<lparr>futures := (futures s)(f := Cancelled)\<rparr>) else None)"
| "exec e py (Cancel_close c) s =
     (if c \<in> set (closing s) then
        (case futures s (fst c) of Done (Inr _) \<Rightarrow> Some (s\<lparr>closing := remove1 c (closing s)\<rparr>) | _ \<Rightarrow> None)
      else None)"
| "exec e py (Cancel_recv q) s =
     (if q \<in> set (receiving s) then Some (s\<lparr>receiving := remove1 q (receiving s)\<rparr>) else None)"
| "exec e py Run_callback s =
     (case callbacks s of [] \<Rightarrow> None | cb # rest \<Rightarrow> Some (run_callback cb (s\<lparr>callbacks := rest\<rparr>)))"
| "exec e py (Work t inp) s =
     (case workers s t of None \<Rightarrow> None | Some w \<Rightarrow> worker_step e py inp t (w_pc w) (w_client w) s)"

fun exec_all :: "endian \<Rightarrow> 'u py_text \<Rightarrow> 'u async_label list \<Rightarrow> 'u async_client \<Rightarrow> 'u async_client option" where
  "exec_all e py [] s = Some s"
| "exec_all e py (l # ls) s = (case exec e py l s of None \<Rightarrow> None | Some s' \<Rightarrow> exec_all e py ls s')"

lemma exec_step:
  assumes "exec e py l s = Some s'"
  shows "async_step e py s l s'"
proof (cases l)
  case (Closed c)
  with assms show ?thesis
    by (auto simp: may_finish_def intro!: async_step.closed split: if_splits future_state.splits sum.splits)
next
  case (Cancel_close c)
  with assms show ?thesis
    by (auto intro!: async_step.cancel_close split: if_splits future_state.splits sum.splits)
qed (use assms in \<open>auto intro: async_step.intros simp: prod_eq_iff split: if_splits list.splits option.splits\<close>)

lemma exec_all_run:
  "\<lbrakk>async_run e py s0 ls0 s; exec_all e py ls s = Some s'\<rbrakk> \<Longrightarrow> async_run e py s0 (ls0 @ ls) s'"
proof (induction ls arbitrary: ls0 s)
  case (Cons l ls)
  then obtain s1 where s1: "exec e py l s = Some s1" "exec_all e py ls s1 = Some s'" by (auto split: option.splits)
  have "async_run e py s0 (ls0 @ [l]) s1" using Cons.prems(1) exec_step [OF s1(1)] by (rule runs.snoc)
  from Cons.IH [OF this s1(2)] show ?case by simp
qed simp

lemma exec_run: "exec_all e py ls s = Some s' \<Longrightarrow> async_run e py s ls s'"
  using exec_all_run [OF runs.none] by simp

section \<open>Calls without a worker\<close>

definition idle :: "'u async_client \<Rightarrow> bool" where
  "idle s \<longleftrightarrow> (\<forall>t w. workers s t = Some w \<longrightarrow> w_pc w = Finished)"

definition stranded :: "'u async_client \<Rightarrow> nat \<Rightarrow> bool" where
  "stranded s f \<longleftrightarrow> idle s \<and> f < next_id s \<and> futures s f = Pending \<and> (\<forall>r. Complete f r \<notin> set (callbacks s))"

lemma worker_finished [simp]: "worker_step e py inp t Finished c s = None"
  by (cases inp) simp_all

text \<open>Without a live worker nothing but a new session or a cancellation ever settles a future.\<close>

lemma stranded_step:
  assumes "async_step e py s l s'" and "stranded s f" and "l \<noteq> Connect" and "l \<noteq> Cancel f"
  shows "stranded s' f"
  using assms(1)
proof (cases rule: async_step.cases)
  case (close r)
  have "\<not> is_alive s t" for t
    using assms(2) by (auto simp: stranded_def idle_def is_alive_def split: option.split)
  with close assms(2) show ?thesis
    by (auto simp: async_close_def stranded_def idle_def split: option.splits)
next
  case (call r x)
  with assms(2) show ?thesis
    by (auto simp: async_call_def put_command_def stranded_def idle_def Let_def split: sum.splits)
next
  case (recv x)
  with assms(2) show ?thesis by (auto simp: async_recv_def stranded_def idle_def split: sum.splits)
next
  case (closed c)
  with assms(2) show ?thesis
    by (auto simp: close_resume_def stranded_def idle_def Let_def split: future_state.splits sum.splits)
next
  case (received q x)
  with assms(2) show ?thesis by (cases "hd (queues s q)") (auto simp: recv_resume_def stranded_def idle_def)
next
  case (callback cb rest)
  with assms(2) show ?thesis
    by (cases cb) (auto simp: stranded_def idle_def split: future_state.split)
next
  case (work t w inp)
  with assms(2) show ?thesis by (auto simp: stranded_def idle_def)
qed (use assms in \<open>auto simp: stranded_def idle_def\<close>)

interpretation stranded: labelled_invariant "async_step e py" "\<lambda>l. l \<noteq> Connect \<and> l \<noteq> Cancel f" "\<lambda>s. stranded s f" for e py f
  by unfold_locales (blast intro: stranded_step)

lemma stranded_run:
  assumes "async_run e py s ls s'" and "stranded s f" and "Connect \<notin> set ls" and "Cancel f \<notin> set ls"
  shows "stranded s' f"
  by (rule stranded.kept_by_runs [OF assms(1,2)]) (use assms(3,4) in auto)

section \<open>Properties\<close>

text \<open>C36: A call of the asyncio client is never lost and never answered twice: in any interleaving of coroutines, callbacks and worker, a
  future that a call waits for is at every later moment either settled, and then stays as it is, or its command is still in the queue or with the
  worker, or its completion is on its way through the event loop.\<close>

theorem async_calls_tracked:
  assumes "async_run e py (AsyncClient_init host port) ls s" and "async_call r s = (Inr f, s1)"
    and "async_run e py s1 ls1 s2" and "async_run e py s2 ls2 s3"
  shows "(futures s2 f \<noteq> Pending \<or> open_call s2 f) \<and> (futures s2 f \<noteq> Pending \<longrightarrow> futures s3 f = futures s2 f)"
proof -
  have fresh: "fresh_inv s" by (rule fresh_run [OF assms(1) fresh_init])
  have "put_command r s = (f, s1)"
    using assms(2) by (auto simp: async_call_def Let_def split: sum.splits prod.splits)
  then have f1: "fresh_inv s1" "open_call s1 f"
    using fresh_put [OF fresh] by (auto simp: put_command_def open_call_def Let_def)
  with open_run [OF assms(3)] done_run [OF assms(4)] fresh_run [OF assms(3)] show ?thesis by blast
qed

text \<open>Messages reach \<^verbatim>\<open>recv\<close> in the order in which the worker polled them, once each: at every moment of any interleaving, what the
  worker polled for a session is what \<^verbatim>\<open>recv\<close> returned, followed by what waits in the queue, followed by what is on its way through the event
  loop.\<close>

lemma messages_flow:
  assumes "async_run e py (AsyncClient_init host port) ls s"
  shows "polled s q = delivered s q @ item_messages (queues s q) @ posted q (callbacks s)"
proof -
  have "flow_inv (AsyncClient_init host port)" by (simp add: flow_inv_def AsyncClient_init_def)
  with fresh_init have "fresh_inv (AsyncClient_init host port) \<and> flow_inv (AsyncClient_init host port)" ..
  from flow.kept_by_runs [OF assms this] show ?thesis by (simp add: flow_inv_def)
qed

lemmas async_defs =
  AsyncClient_init_def async_connect_def async_close_def put_command_def async_call_def close_resume_def may_finish_def
  is_alive_def ensure_running_def require_loop_def native_init_def run_start_def run_next_def set_pc_def complete_def
  call_soon_def

text \<open>A call made while the client is closing can hang for ever: after \<^verbatim>\<open>close\<close> has queued its command, and before the worker
  took it, a further call is still accepted; the worker stops at the close command, \<^verbatim>\<open>close\<close> returns, and the future of the
  accepted call is never settled unless the client is connected again.\<close>

lemma call_during_close_hangs:
  assumes "0 \<le> port" and "port \<le> 65535" and "fst (py_client_init py result res host (word_of_int port) once_done) = Inr client"
    and "r \<noteq> Close_request"
  shows "\<exists>s1 s2 s3 f.
    async_run e py (AsyncClient_init host port) [Connect, Work 2 (Created result res once_done), Run_callback, Close] s1 \<and>
    async_call r s1 = (Inr f, s2) \<and>
    async_run e py s2 [Work 2 Nothing, Work 2 Nothing, Run_callback, Closed (3, 2)] s3 \<and> a_closed s3 \<and> closing s3 = [] \<and>
    (\<forall>ls s. async_run e py s3 ls s \<and> Connect \<notin> set ls \<and> Cancel f \<notin> set ls \<longrightarrow> futures s f = Pending)"
proof -
  obtain s1 s2 where s1: "exec_all e py [Connect, Work 2 (Created result res once_done), Run_callback, Close]
      (AsyncClient_init host port) = Some s1" and s2: "async_call r s1 = (Inr 4, s2)"
    and s3: "\<exists>s3. exec_all e py [Work 2 Nothing, Work 2 Nothing, Run_callback, Closed (3, 2)] s2 = Some s3 \<and>
      a_closed s3 \<and> closing s3 = [] \<and> stranded s3 4"
    using assms by (simp add: async_defs stranded_def idle_def Let_def numeral_2_eq_2 numeral_3_eq_3)
  then obtain s3 where s3: "exec_all e py [Work 2 Nothing, Work 2 Nothing, Run_callback, Closed (3, 2)] s2 = Some s3"
    "a_closed s3" "closing s3 = []" "stranded s3 4" by blast
  have "futures s 4 = Pending" if "async_run e py s3 ls s" "Connect \<notin> set ls" "Cancel 4 \<notin> set ls" for ls s
    using stranded_run [OF that(1) s3(4) that(2,3)] by (simp add: stranded_def)
  with exec_run [OF s1] s2 exec_run [OF s3(1)] s3(2,3) show ?thesis by blast
qed


text \<open>Closing twice can kill the next session: when two coroutines close the client at the same time, the second close command stays in the
  queue, where the worker of the next session takes it as its own. The new \<^verbatim>\<open>connect\<close> succeeds and the client reports that it is
  running, but no worker is left, and every further call is accepted and never settled.\<close>

lemma stale_close_kills_session:
  assumes "0 \<le> port" and "port \<le> 65535" and "fst (py_client_init py result res host (word_of_int port) once_done) = Inr client"
  shows "\<exists>s. async_run e py (AsyncClient_init host port)
      [Connect, Work 2 (Created result res once_done), Run_callback, Close, Close, Work 2 Nothing, Work 2 Nothing, Run_callback, Closed (3, 2),
       Connect, Work 7 (Created result res once_done), Run_callback, Work 7 Nothing, Work 7 Nothing] s \<and>
    a_started s = Some 6 \<and> futures s 6 = Done (Inr No_value) \<and> ensure_running s = Inr () \<and>
    (\<forall>r f s1 ls s2. async_call r s = (Inr f, s1) \<and> async_run e py s1 ls s2 \<and> Connect \<notin> set ls \<and> Cancel f \<notin> set ls \<longrightarrow>
      futures s2 f = Pending)"
proof -
  obtain s where s: "exec_all e py
      [Connect, Work 2 (Created result res once_done), Run_callback, Close, Close, Work 2 Nothing, Work 2 Nothing, Run_callback, Closed (3, 2),
       Connect, Work 7 (Created result res once_done), Run_callback, Work 7 Nothing, Work 7 Nothing] (AsyncClient_init host port) = Some s"
    and st: "a_started s = Some 6" "futures s 6 = Done (Inr No_value)" "ensure_running s = Inr ()"
      "idle s" "callbacks s = [Complete 4 (Inr No_value)]" "next_id s = 8"
    using assms by (simp add: async_defs idle_def Let_def)
  have "futures s2 f = Pending"
    if "async_call r s = (Inr f, s1)" and run: "async_run e py s1 ls s2" "Connect \<notin> set ls" "Cancel f \<notin> set ls" for r f s1 ls s2
  proof -
    have "stranded s1 f"
      using that(1) st by (auto simp: async_call_def put_command_def stranded_def idle_def Let_def split: sum.splits)
    from stranded_run [OF run(1) this run(2,3)] show ?thesis by (simp add: stranded_def)
  qed
  with exec_run [OF s] st(1-3) show ?thesis by blast
qed

text \<open>An old failure can poison a new session: when the connection breaks while the event loop is busy, and the client is closed
  and connected again before the loop runs the worker's callbacks, the report of the old failure arrives in the new session. Its worker
  is alive and its \<^verbatim>\<open>connect\<close> succeeds, but every call raises the error of the session before.\<close>

lemma stale_error_poisons_session:
  assumes "0 \<le> port" and "port \<le> 65535" and "fst (py_client_init py result res host (word_of_int port) once_done) = Inr client"
  shows "\<exists>s. async_run e py (AsyncClient_init host port)
      [Connect, Work 2 (Created result res once_done), Run_callback, Work 2 Nothing,
       Work 2 (Reported (Some (ENET_EVENT_TYPE_DISCONNECT p))), Work 2 Nothing, Work 2 Nothing, Work 2 Nothing, Work 2 Nothing,
       Close, Connect, Work 5 (Created result res once_done), Run_callback, Run_callback, Run_callback] s \<and>
    a_thread s = Some 5 \<and> is_alive s 5 \<and> a_started s = Some 4 \<and> futures s 4 = Done (Inr No_value) \<and>
    async_call r s = (Inl (Native (Native_error (Runtime_error ''Disconnected from server.''))), s) \<and>
    async_recv s = (Inl (Native (Native_error (Runtime_error ''Disconnected from server.''))), s)"
proof -
  have broken: "fst (py_poll e (Some (ENET_EVENT_TYPE_DISCONNECT p)) c) =
      Inl (Native_error (Runtime_error ''Disconnected from server.''))" for c
    by (simp add: py_poll_def poll_result poll_answer_def)
  obtain c' g where broken: "py_poll e (Some (ENET_EVENT_TYPE_DISCONNECT p)) client =
      (Inl (Native_error (Runtime_error ''Disconnected from server.'')), c', g)"
    using broken [of client] by (metis prod_cases3 fst_conv)
  obtain s where s: "exec_all e py
      [Connect, Work 2 (Created result res once_done), Run_callback, Work 2 Nothing,
       Work 2 (Reported (Some (ENET_EVENT_TYPE_DISCONNECT p))), Work 2 Nothing, Work 2 Nothing, Work 2 Nothing, Work 2 Nothing,
       Close, Connect, Work 5 (Created result res once_done), Run_callback, Run_callback, Run_callback]
      (AsyncClient_init host port) = Some s"
    and st: "a_thread s = Some 5" "is_alive s 5" "a_started s = Some 4" "futures s 4 = Done (Inr No_value)"
      "ensure_running s = Inl (Native (Native_error (Runtime_error ''Disconnected from server.'')))"
    using assms broken
    by (simp add: async_defs poll_messages_def publish_worker_error_def fail_pending_def Let_def)
  from st(5) show ?thesis
    using exec_run [OF s] st(1-4) by (auto simp: async_call_def async_recv_def)
qed


section \<open>The worker and the coroutines\<close>

text \<open>What the worker leaves to the coroutines.\<close>

lemma worker_step_session:
  assumes "worker_step e py inp t pc c s = Some s'"
  shows "a_worker_error s' = a_worker_error s \<and> receiving s' = receiving s \<and> delivered s' = delivered s \<and> next_id s' = next_id s"
  using assms
  by (cases "(e, py, inp, t, pc, c, s)" rule: worker_step.cases)
    (auto simp: run_start_def run_next_def handle_command_def poll_messages_def fail_pending_def set_pc_def complete_def
      call_soon_def post_message_def publish_worker_error_def Let_def
      split: sum.splits prod.splits list.splits option.splits)

lemma worker_step_frame:
  assumes "worker_step e py inp t pc c s = Some s'"
  shows "closing s' = closing s \<and> a_thread s' = a_thread s \<and> a_messages s' = a_messages s \<and> pc \<noteq> Finished \<and>
    (\<forall>u. u \<noteq> t \<longrightarrow> workers s' u = workers s u)"
  using assms
  by (cases "(e, py, inp, t, pc, c, s)" rule: worker_step.cases)
    (auto simp: run_start_def run_next_def handle_command_def poll_messages_def fail_pending_def set_pc_def complete_def
      call_soon_def post_message_def publish_worker_error_def Let_def
      split: sum.splits prod.splits list.splits option.splits)

section \<open>After a failure\<close>

text \<open>
  Once the failure of the worker was reported, calls raise and no \<^verbatim>\<open>recv\<close> gets as far as the queue, so messages that were polled before
  the failure and not yet received stay in the queue for good.
\<close>

definition broken :: "'u async_client \<Rightarrow> bool" where
  "broken s \<longleftrightarrow> a_worker_error s \<noteq> None \<and> receiving s = []"

lemma broken_step:
  assumes "async_step e py s l s'" and "broken s" and "l \<noteq> Connect"
  shows "broken s' \<and> delivered s' = delivered s"
  using assms(1)
proof (cases rule: async_step.cases)
  case (recv x)
  with assms(2) show ?thesis
    by (auto simp: async_recv_def ensure_running_def broken_def split: if_splits option.splits)
next
  case (callback cb rest)
  with assms(2) show ?thesis by (cases cb) (auto simp: broken_def split: future_state.split)
next
  case (work t w inp)
  with assms(2) worker_step_session show ?thesis unfolding broken_def by metis
qed (use assms(2,3) in \<open>auto simp: broken_def async_close_def async_call_def put_command_def close_resume_def Let_def
  split: option.splits if_splits sum.splits future_state.splits\<close>)

interpretation broken: labelled_invariant "async_step e py" "\<lambda>l. l \<noteq> Connect" "\<lambda>s. broken s \<and> delivered s = d" for e py d
  by unfold_locales (auto dest: broken_step)

lemma failed_client_drops_messages:
  assumes "async_run e py s ls s'" and "broken s" and "Connect \<notin> set ls"
  shows "delivered s' = delivered s \<and> isl (fst (async_recv s'))"
proof -
  have "broken s' \<and> delivered s' = delivered s"
    by (rule broken.kept_by_runs [OF assms(1)]) (use assms(2,3) in auto)
  then show ?thesis
    by (auto simp: broken_def async_recv_def ensure_running_def split: option.split)
qed

section \<open>Witnesses\<close>

lemma example_native:
  "fst (py_client_init ascii_text 0 example_connect ''h'' (word_of_int 6767) True) =
     fst (map_prod raised id (bus_client_ctor example_connect ''h'' 6767))"
  "\<not> isl (fst (py_client_init ascii_text 0 example_connect ''h'' (word_of_int 6767) True))"
  by (simp_all add: py_client_init_def ascii_text_def init_networking_once_def bus_client_ctor_def example_connected)

lemma example_created:
  obtains client where "fst (py_client_init ascii_text 0 example_connect ''h'' (word_of_int 6767) True) = Inr client"
  using example_native(2) by (metis isl_def sum.collapse(2) sum.exhaust_sel)

text \<open>A session that receives one message: the schedule, and the packet ENet reports.\<close>

definition example_packet :: ENetPacket where
  "example_packet = \<lparr>packet_ptr = 8, packet_data = fst (construct_fanout Little Constructor_ctor 5 (byte_span ''hi'') Origin_server)\<rparr>"

definition example_message :: "string async_message" where
  "example_message = \<lparr>am_topic_key = 5, am_topic = ''unknown'', am_payload = ''hi''\<rparr>"

definition example_schedule :: "string async_label list" where
  "example_schedule =
     [Connect, Work 2 (Created 0 example_connect True), Run_callback, Work 2 Nothing,
      Work 2 (Reported (Some (ENET_EVENT_TYPE_RECEIVE 30 example_packet))), Recv, Run_callback, Received 0 (Inr example_message)]"

lemma example_polled:
  assumes "c_inverse_topic_map c = Map.empty"
  shows "\<exists>c' g. py_poll Little (Some (ENET_EVENT_TYPE_RECEIVE 30 example_packet)) c =
    (Inr (Some \<lparr>fm_topic_key = 5, fm_topic = ''unknown'', fm_payload = byte_span ''hi''\<rparr>), c', g)"
  using assms by (simp add: py_poll_def poll_result poll_answer_def example_packet_def)

lemma example_received:
  "\<exists>s. exec_all Little ascii_text example_schedule (AsyncClient_init ''h'' 6767) = Some s \<and> delivered s 0 = [example_message] \<and>
     ensure_running s = Inr () \<and> a_loop s \<and> next_id s = 3"
proof -
  obtain client where c: "fst (py_client_init ascii_text 0 example_connect ''h'' (word_of_int 6767) True) = Inr client"
    by (rule example_created)
  then have "c_inverse_topic_map client = Map.empty"
    unfolding example_native(1) by (auto simp: bus_client_ctor_def example_connected)
  then obtain c' g where p: "py_poll Little (Some (ENET_EVENT_TYPE_RECEIVE 30 example_packet)) client =
      (Inr (Some \<lparr>fm_topic_key = 5, fm_topic = ''unknown'', fm_payload = byte_span ''hi''\<rparr>), c', g)"
    using example_polled by blast
  have m: "message_of ascii_text \<lparr>fm_topic_key = 5, fm_topic = ''unknown'', fm_payload = byte_span ''hi''\<rparr> = Inr example_message"
    using payload_bytes_span [of "\<lparr>fm_topic_key = 5, fm_topic = ''unknown'', fm_payload = byte_span ''hi''\<rparr>" "''hi''"]
    by (simp add: message_of_def py_topic_def py_topic_key_def ascii_text_def example_message_def)
  show ?thesis
    using c p m
    by (simp add: example_schedule_def async_defs poll_messages_def post_message_def async_recv_def require_messages_def
        recv_resume_def Let_def)
qed

theorem async_calls_tracked_witness:
  "\<exists>s s1. async_run Little ascii_text (AsyncClient_init ''h'' 6767) example_schedule s \<and>
     async_call (Subscribe_request ''t'') s = (Inr 3, s1) \<and> (futures s1 3 \<noteq> Pending \<or> open_call s1 3)"
proof -
  obtain s where s: "exec_all Little ascii_text example_schedule (AsyncClient_init ''h'' 6767) = Some s"
    "ensure_running s = Inr ()" "a_loop s" "next_id s = 3"
    using example_received by blast
  then obtain s1 where s1: "async_call (Subscribe_request ''t'') s = (Inr 3, s1)"
    by (simp add: async_call_def require_loop_def put_command_def Let_def)
  show ?thesis
    using async_calls_tracked [OF exec_run [OF s(1)] s1 runs.none runs.none] exec_run [OF s(1)] s1 by blast
qed

end
