(* ===== verification/Topic_Cache.thy ===== *)
theory Topic_Cache
  imports Bus_Client Topic_Map
begin

text \<open>
  The client's two caches against the server's topic table. The client relies on the contract
  \<open>key_allocator\<close> of the table: keys stay, and no two names share one. \<open>topic_service\<close> is that
  contract for names and 64-bit keys; inside it the caches are shown to agree with the table
  while the table grows and while lookups are answered from it. The contract is interpreted on
  \<^verbatim>\<open>TopicMap\<close>.
\<close>

definition mirrors :: "(string \<rightharpoonup> u64) \<Rightarrow> bus_client \<Rightarrow> bool" where
  "mirrors table s \<longleftrightarrow>
     (\<forall>n k. c_topic_map s n = Some k \<longleftrightarrow> c_inverse_topic_map s k = Some n) \<and>
     (\<forall>n k. c_topic_map s n = Some k \<longrightarrow> table n = Some k)"

text \<open>The answer of a lookup comes from the table: a response names a topic with the table's key.\<close>

definition answered_from :: "endian \<Rightarrow> (string \<rightharpoonup> u64) \<Rightarrow> topic_lookup \<Rightarrow> bool" where
  "answered_from e table net \<longleftrightarrow> (\<forall>n k. lookup_answer e net = Inr (n, k) \<longrightarrow> table n = Some k)"

lemma mirrors_emit [simp]: "mirrors table (emit calls s) \<longleftrightarrow> mirrors table s"
  by (simp add: mirrors_def)

lemma mirrors_constructor [simp]: "mirrors table (s\<lparr>c_protocol_constructor := b\<rparr>) \<longleftrightarrow> mirrors table s"
  by (simp add: mirrors_def)

lemma mirrors_publish_key [simp]: "mirrors table (publish_key e k p s) \<longleftrightarrow> mirrors table s"
  by (simp add: mirrors_def)

lemma mirrors_mono: "\<lbrakk>mirrors table s; \<And>n k. table n = Some k \<Longrightarrow> table' n = Some k\<rbrakk> \<Longrightarrow> mirrors table' s"
  by (auto simp: mirrors_def)

lemma mirrors_learn:
  assumes m: "mirrors table s" and n: "table n = Some k"
    and inj: "\<And>n'. table n' = Some k \<Longrightarrow> n' = n"
  shows "mirrors table (learn (n, k) s)"
proof -
  have "c_inverse_topic_map s k' = Some n \<Longrightarrow> k' = k" for k'
    using m n by (auto simp: mirrors_def)
  moreover have "c_topic_map s n' = Some k \<Longrightarrow> n' = n" for n'
    using m inj by (auto simp: mirrors_def)
  ultimately show ?thesis
    using m n by (auto simp: mirrors_def)
qed

locale topic_service = key_allocator alloc lookup room inv
  for alloc :: "string \<Rightarrow> 's \<Rightarrow> u64 \<times> 's" and lookup room inv
begin

lemma mirrors_alloc:
  assumes "mirrors (\<lambda>n. lookup n t) s"
  shows "mirrors (\<lambda>n. lookup n (alloc_all alloc ns t)) s"
  using assms by (rule mirrors_mono) (rule alloc_all_stable)

lemma mirrors_lookup:
  assumes "inv t" and m: "mirrors (\<lambda>n. lookup n t) s" and a: "answered_from e (\<lambda>n. lookup n t) net"
    and g: "get_topic_key e net topic s = (r, s')"
  shows "mirrors (\<lambda>n. lookup n t) s'"
proof (cases "c_topic_map s topic")
  case None
  have "mirrors (\<lambda>n. lookup n t) (learn (n, k) (s\<lparr>c_protocol_constructor := b\<rparr>))"
    if "lookup_answer e net = Inr (n, k)" for n k b
  proof (rule mirrors_learn)
    show "lookup n t = Some k" using a that by (simp add: answered_from_def)
    then show "\<And>n'. lookup n' t = Some k \<Longrightarrow> n' = n" using lookup_inject [OF \<open>inv t\<close>] by blast
  qed (use m in simp)
  then show ?thesis
    using None g m
    by (auto simp: get_topic_key_uncached Let_def packet_factory_defs split: prod.splits sum.splits)
next
  case (Some k)
  with g m show ?thesis by (simp add: get_topic_key_cached)
qed

lemma resolved_key:
  assumes "mirrors (\<lambda>n. lookup n t) s" and "answered_from e (\<lambda>n. lookup n t) net"
    and "\<And>n k. lookup_answer e net = Inr (n, k) \<Longrightarrow> n = topic"
    and "get_topic_key e net topic s = (Inr k, s')"
  shows "lookup topic t = Some k"
  using assms
  by (cases "c_topic_map s topic")
    (auto simp: get_topic_key_cached get_topic_key_uncached Let_def packet_factory_defs mirrors_def
      answered_from_def split: prod.splits sum.splits)

end

interpretation service: topic_service get_or_create get "\<lambda>tm. m_next_key tm \<noteq> 0" "\<lambda>tm. \<exists>ns. names_of tm ns"
  by unfold_locales

section \<open>Properties\<close>

lemma example_table: "names_of \<lparr>m_map = [''a'' \<mapsto> 1], m_next_key = 2\<rparr> [''a'']"
  by (simp add: names_of_def abstract_key_def fun_eq_iff)

text \<open>C25: The client's two caches stay mirror images of each other and agree with the server's topic table:
  through every lookup that is answered from the table, and while the table goes on registering topics, in
  any order.\<close>

theorem caches_mirror_table:
  assumes "names_of tm ns" and "mirrors (\<lambda>n. get n tm) s" and "answered_from e (\<lambda>n. get n tm) net"
    and "get_topic_key e net topic s = (r, s')"
  shows "mirrors (\<lambda>n. get n (alloc_all get_or_create later tm)) s'"
  using service.mirrors_alloc [OF service.mirrors_lookup [OF _ assms(2-4)]] assms(1) by blast

theorem caches_mirror_table_witness:
  "mirrors (\<lambda>n. get n (alloc_all get_or_create [''b''] \<lparr>m_map = [''a'' \<mapsto> 1], m_next_key = 2\<rparr>))
     (snd (get_topic_key Big (example_net (fst (construct_topic_response Big Constructor_ctor 1 ''a'' Origin_server)))
        ''a'' example_client))"
proof -
  let ?net = "example_net (fst (construct_topic_response Big Constructor_ctor 1 ''a'' Origin_server))"
  let ?tm = "\<lparr>m_map = [''a'' \<mapsto> 1], m_next_key = 2\<rparr>"
  have m: "mirrors (\<lambda>n. get n ?tm) example_client"
    by (simp add: mirrors_def)
  have a: "answered_from Big (\<lambda>n. get n ?tm) ?net"
    by (simp add: answered_from_def lookup_answer_def example_net_def get_def del: construct_simp)
  show ?thesis
    using caches_mirror_table [OF example_table m a, of "''a''"]
    by (cases "get_topic_key Big ?net ''a'' example_client") auto
qed

end
