(* ===== verification/System.thy ===== *)
theory System
  imports Bus_Server Topic_Cache "HOL-Library.Sublist"
begin

text \<open>
  The server and its clients together. The first sections collect what the properties across the
  components need: how the server reads the packets the clients build, on hosts of any byte order, and
  how subscriptions evolve under the broker.

  The system itself is an inductive step relation over the server of \<open>Bus_Server\<close> and any number of
  clients of \<open>Bus_Client\<close>, one step per call of an operation of the code: connecting, publishing,
  subscribing, resolving, the server's \<^verbatim>\<open>process\<close> on one event, and polling, in any interleaving; calls that fail are steps
  too. Other peers may connect that do not use this client library and send any bytes at all. Of
  ENet it assumes what its documentation says of reliable packets on one channel: while a connection lasts they arrive
  unchanged, in order and once. A disconnect loses what is in flight. The relation is guarded by \<open>ready\<close>, so it covers the
  runs in which the 64-bit counters have not wrapped.

  The histories \<open>pub\<close>, \<open>served\<close> and \<open>got\<close> record what each client published, in which order the server
  processed it, and what each client's \<^verbatim>\<open>poll\<close> returned.
\<close>

section \<open>Subsequences\<close>

lemma subseq_left: "subseq (xs @ ys) zs \<Longrightarrow> subseq xs zs"
  by (meson subseq_order.order_refl subseq_order.order_trans subseq_rev_drop_many)

lemma subseq_set: "subseq xs ys \<Longrightarrow> set xs \<subseteq> set ys"
  by (induction rule: list_emb.induct) auto

section \<open>Packets between hosts\<close>

lemma request_of_publish:
  "request_of e' (fst (construct_publish e c k p org)) = Publish k p"
  by (simp add: request_of_def packet_factory_defs header_factory_defs enum_defs)

lemma request_of_topic_request:
  "request_of e' (fst (construct_topic_request e c n org)) = Resolve n"
  by (simp add: request_of_def packet_factory_defs header_factory_defs)

lemma request_of_subscribe:
  "request_of e' (fst (construct_subscribe e c k org)) = Subscribe k"
  using packet_view_ctor [of e' e org Type_subscribe k "[]"]
  by (simp add: request_of_def packet_factory_defs header_factory_defs enum_defs)

section \<open>Subscriptions over time\<close>

definition subscribed :: "ENetPeer \<Rightarrow> u64 \<Rightarrow> broker \<Rightarrow> bool" where
  "subscribed p k b \<longleftrightarrow> (\<exists>S. (p, S) \<in> set (b_sessions b) \<and> k \<in> S)"

fun keeps :: "ENetPeer \<Rightarrow> u64 \<Rightarrow> broker_event \<Rightarrow> bool" where
  "keeps p k (Leave q) = (q \<noteq> p)"
| "keeps p k (Request q (Unsubscribe k')) = (q \<noteq> p \<or> k' \<noteq> k)"
| "keeps p k _ = True"

lemma subscribed_change:
  assumes "subscribed p k b" and "\<And>S. \<lbrakk>q = p; k \<in> S\<rbrakk> \<Longrightarrow> k \<in> f S"
  shows "subscribed p k (change_subs q f b)"
proof -
  from assms(1) obtain S where S: "(p, S) \<in> set (b_sessions b)" "k \<in> S" by (auto simp: subscribed_def)
  then have "(p, if p = q then f S else S) \<in> set (b_sessions (change_subs q f b))"
    by (force simp: change_subs_def)
  with S assms(2) show ?thesis by (auto simp: subscribed_def split: if_splits)
qed

lemma subscribed_step:
  "\<lbrakk>subscribed p k b; keeps p k ev\<rbrakk> \<Longrightarrow> subscribed p k (snd (broker_step ev b))"
proof (induction ev b rule: broker_step.induct)
  case (4 q k' b)
  then show ?case by (auto intro: subscribed_change)
next
  case (5 q k' b)
  then show ?case by (auto intro: subscribed_change)
qed (auto simp: subscribed_def Let_def)

lemma subscribed_run:
  "\<lbrakk>subscribed p k b; \<forall>ev \<in> set evs. keeps p k ev\<rbrakk> \<Longrightarrow> subscribed p k (snd (broker_run evs b))"
  by (induction evs arbitrary: b) (auto simp: subscribed_step case_prod_beta)

lemma subscribed_request:
  "p \<in> fst ` set (b_sessions b) \<Longrightarrow> subscribed p k (snd (broker_step (Request p (Subscribe k)) b))"
  by (force simp: subscribed_def change_subs_def)

lemma sessions_peers: "map fst (sessions s) = connected_peers s"
proof -
  have "map fst (List.map_filter (session s) ps) = List.map_filter (\<lambda>p. map_option cl_peer (deref s p)) ps" for ps
    by (induction ps) (auto simp: session_def split: option.split)
  then show ?thesis by (simp add: sessions_def connected_peers_def)
qed

lemma sessions_distinct:
  assumes "net_inv s"
  shows "distinct (map fst (sessions s))"
proof -
  have "inj_on (\<lambda>p. cl_peer (the (deref s p))) (set (m_clients s))"
  proof (rule inj_onI)
    fix p q
    assume "p \<in> set (m_clients s)" "q \<in> set (m_clients s)"
      and eq: "cl_peer (the (deref s p)) = cl_peer (the (deref s q))"
    then obtain i j c d where ptr: "p = Some i" "q = Some j"
      and c: "m_client_map s i = Some c" and d: "m_client_map s j = Some d"
      using assms by (auto simp: net_inv_def)
    from c d assms have "peer_data s (cl_peer c) = Some i" "peer_data s (cl_peer d) = Some j"
      by (simp_all add: net_inv_def)
    with eq ptr c d show "p = q" by (simp add: deref_def)
  qed
  moreover have "map fst (sessions s) = map (\<lambda>p. cl_peer (the (deref s p))) (m_clients s)"
    using deref_live [OF assms] by (fastforce simp: sessions_eq [OF assms] session_def)
  moreover have "distinct (m_clients s)" using assms by (simp add: net_inv_def)
  ultimately show ?thesis by (simp add: distinct_map)
qed

text \<open>The replies for one peer to a publish request, when each peer has one session.\<close>

lemma fanout_for_peer:
  assumes "distinct (map fst (b_sessions b))"
  shows "filter (\<lambda>x. fst x = p) (on_wire e (fst (broker_step (Request q (Publish k m)) b))) =
    (if subscribed p k b \<and> p \<noteq> q then [(p, reply_bytes e (Fanout_of k m))] else [])"
proof -
  have "filter (\<lambda>x. fst x = p) (on_wire e (map (\<lambda>(q, S). (q, Fanout_of k m)) (filter (\<lambda>(r, S). r \<noteq> q \<and> k \<in> S) ss))) =
      (if (\<exists>S. (p, S) \<in> set ss \<and> k \<in> S) \<and> p \<noteq> q then [(p, reply_bytes e (Fanout_of k m))] else [])"
    if "distinct (map fst ss)" for ss
    using that
  proof (induction ss)
    case (Cons x ss)
    then show ?case
      by (cases x) (auto simp: on_wire_def rev_image_eqI)
  qed (simp add: on_wire_def)
  with assms show ?thesis by (simp add: subscribed_def)
qed

lemma abstract_key_register:
  "abstract_key ns n = Some k \<Longrightarrow> abstract_key (register ns m) n = Some k"
  by (auto simp: abstract_key_def register_def position_snoc dest: position_Some)

text \<open>The server on one published packet.\<close>

lemma server_publishes:
  assumes "ready b [ENET_EVENT_TYPE_RECEIVE p q] s" and "request_of e (packet_data q) = Publish k m"
  shows "\<exists>s'. bus_process e [ENET_EVENT_TYPE_RECEIVE p q] s = (Inr (), s') \<and>
    sends (enet_calls s') = sends (enet_calls s) @
      on_wire e (map (\<lambda>(r, S). (r, Fanout_of k m)) (filter (\<lambda>(r, S). r \<noteq> p \<and> k \<in> S) (b_sessions b)))"
  using ready_process [of b "[ENET_EVENT_TYPE_RECEIVE p q]" "[]" s e] assms by (auto simp: case_prod_beta)

text \<open>What the server does with a temporary connection that asks for a topic.\<close>

lemma server_resolves:
  assumes "ready b [ENET_EVENT_TYPE_CONNECT p, ENET_EVENT_TYPE_RECEIVE p \<lparr>packet_ptr = x, packet_data = d\<rparr>] s"
    and "request_of eS d = Resolve topic"
  obtains s' k where
    "bus_process eS [ENET_EVENT_TYPE_CONNECT p, ENET_EVENT_TYPE_RECEIVE p \<lparr>packet_ptr = x, packet_data = d\<rparr>] s = (Inr (), s')"
    and "sends (enet_calls s') = sends (enet_calls s) @
      [(p, fst (construct_topic_response eS Constructor_ctor k topic Origin_server))]"
    and "get topic (m_topic_map s') = Some k" and "\<exists>ns. names_of (m_topic_map s') ns"
    and "\<And>n k'. get n (m_topic_map s) = Some k' \<Longrightarrow> get n (m_topic_map s') = Some k'"
proof -
  let ?evs = "[ENET_EVENT_TYPE_CONNECT p, ENET_EVENT_TYPE_RECEIVE p \<lparr>packet_ptr = x, packet_data = d\<rparr>]"
  let ?ns = "register (b_names b) topic"
  have r: "ready b (?evs @ []) s" using assms(1) by simp
  from ready_process [OF r, of eS] assms(2) obtain s' where
    s': "bus_process eS ?evs s = (Inr (), s')"
    and abs: "names_of (m_topic_map s') ?ns"
    and out: "sends (enet_calls s') = sends (enet_calls s) @
      [(p, fst (construct_topic_response eS Constructor_ctor (the (abstract_key ?ns topic)) topic Origin_server))]"
    by (auto simp: ready_def bus_abs_def on_wire_def Let_def)
  have "topic \<in> set ?ns" by (simp add: register_def)
  then have "abstract_key ?ns topic \<noteq> None" by (simp add: abstract_key_def)
  then have "get topic (m_topic_map s') = Some (the (abstract_key ?ns topic))"
    using abs by (simp add: get_def names_of_def)
  moreover have "get n (m_topic_map s') = Some k'" if "get n (m_topic_map s) = Some k'" for n k'
    using that abs assms(1) abstract_key_register by (simp add: get_def names_of_def ready_def bus_abs_def)
  ultimately show ?thesis
    using s' abs out by (intro that [of s' "the (abstract_key ?ns topic)"]) blast+
qed

section \<open>Steps of the system\<close>

record system =
  sy_server :: bus_server
  sy_clients :: "ENetPeer \<rightharpoonup> bus_client"
  up :: "ENetPeer \<Rightarrow> bytes list"
  down :: "ENetPeer \<Rightarrow> bytes list"
  answers :: "(string \<times> bytes) list"
  pub :: "ENetPeer \<Rightarrow> (u64 \<times> bytes) list"
  served :: "(ENetPeer \<times> u64 \<times> bytes) list"
  got :: "ENetPeer \<Rightarrow> FanoutMessage list"

text \<open>The packets that an operation added to the ENet calls.\<close>

definition new_sends :: "enet_call list \<Rightarrow> enet_call list \<Rightarrow> (ENetPeer \<times> bytes) list" where
  "new_sends before after = drop (length (sends before)) (sends after)"

definition published_by :: "ENetPeer \<Rightarrow> request \<Rightarrow> (ENetPeer \<times> u64 \<times> bytes) list" where
  "published_by p r = (case r of Publish k m \<Rightarrow> [(p, k, m)] | _ \<Rightarrow> [])"

inductive sys_step :: "endian \<Rightarrow> (ENetPeer \<Rightarrow> endian) \<Rightarrow> system \<Rightarrow> system \<Rightarrow> bool" for eS ec where
  connect: "\<lbrakk>bus_client_ctor res host port = (Inr c, calls);
     ready b [ENET_EVENT_TYPE_CONNECT p] (sy_server y);
     bus_process eS [ENET_EVENT_TYPE_CONNECT p] (sy_server y) = (Inr (), s)\<rbrakk> \<Longrightarrow>
   sys_step eS ec y (y\<lparr>sy_server := s, sy_clients := (sy_clients y)(p \<mapsto> c),
     up := (up y)(p := []), down := (down y)(p := [])\<rparr>)"
| disconnect: "\<lbrakk>ready b [ENET_EVENT_TYPE_DISCONNECT p] (sy_server y);
     bus_process eS [ENET_EVENT_TYPE_DISCONNECT p] (sy_server y) = (Inr (), s)\<rbrakk> \<Longrightarrow>
   sys_step eS ec y (y\<lparr>sy_server := s, sy_clients := (sy_clients y)(p := None),
     up := (up y)(p := []), down := (down y)(p := [])\<rparr>)"
| foreign_connect: "\<lbrakk>ready b [ENET_EVENT_TYPE_CONNECT p] (sy_server y);
     bus_process eS [ENET_EVENT_TYPE_CONNECT p] (sy_server y) = (Inr (), s)\<rbrakk> \<Longrightarrow>
   sys_step eS ec y (y\<lparr>sy_server := s, sy_clients := (sy_clients y)(p := None),
     up := (up y)(p := []), down := (down y)(p := [])\<rparr>)"
| foreign_send: "sy_clients y p = None \<Longrightarrow>
   sys_step eS ec y (y\<lparr>up := (up y)(p := up y p @ [d]),
     pub := (pub y)(p := pub y p @ map snd (published_by p (request_of eS d)))\<rparr>)"
| publish_by_key: "\<lbrakk>sy_clients y p = Some c; publish_key (ec p) k m c = c'\<rbrakk> \<Longrightarrow>
   sys_step eS ec y (y\<lparr>sy_clients := (sy_clients y)(p \<mapsto> c'),
     up := (up y)(p := up y p @ map snd (new_sends (c_calls c) (c_calls c'))),
     pub := (pub y)(p := pub y p @ [(k, m)])\<rparr>)"
| publish_by_name: "\<lbrakk>sy_clients y p = Some c; c_topic_map c topic = Some k;
     publish (ec p) net topic m c = (Inr (), c')\<rbrakk> \<Longrightarrow>
   sys_step eS ec y (y\<lparr>sy_clients := (sy_clients y)(p \<mapsto> c'),
     up := (up y)(p := up y p @ map snd (new_sends (c_calls c) (c_calls c'))),
     pub := (pub y)(p := pub y p @ [(k, m)])\<rparr>)"
| subscribe_by_name: "\<lbrakk>sy_clients y p = Some c; c_topic_map c topic = Some k;
     subscribe (ec p) net topic c = (Inr (), c')\<rbrakk> \<Longrightarrow>
   sys_step eS ec y (y\<lparr>sy_clients := (sy_clients y)(p \<mapsto> c'),
     up := (up y)(p := up y p @ map snd (new_sends (c_calls c) (c_calls c')))\<rparr>)"
| ask: "\<lbrakk>events = [ENET_EVENT_TYPE_CONNECT q, ENET_EVENT_TYPE_RECEIVE q \<lparr>packet_ptr = x,
       packet_data = fst (construct_topic_request e Constructor_ctor topic Origin_client)\<rparr>];
     ready b events (sy_server y); bus_process eS events (sy_server y) = (Inr (), s)\<rbrakk> \<Longrightarrow>
   sys_step eS ec y (y\<lparr>sy_server := s, sy_clients := (sy_clients y)(q := None),
     up := (up y)(q := []), down := (down y)(q := []),
     answers := answers y @ map (\<lambda>x. (topic, snd x)) (new_sends (enet_calls (sy_server y)) (enet_calls s))\<rparr>)"
| resolve: "\<lbrakk>sy_clients y p = Some c; (topic, d) \<in> set (answers y);
     tl_recv net = Some (ENET_EVENT_TYPE_RECEIVE r \<lparr>packet_ptr = x, packet_data = d\<rparr>);
     get_topic_key (ec p) net topic c = (Inr k, c')\<rbrakk> \<Longrightarrow>
   sys_step eS ec y (y\<lparr>sy_clients := (sy_clients y)(p \<mapsto> c')\<rparr>)"
| lookup_fails: "\<lbrakk>sy_clients y p = Some c; get_topic_key (ec p) net topic c = (Inl err, c')\<rbrakk> \<Longrightarrow>
   sys_step eS ec y (y\<lparr>sy_clients := (sy_clients y)(p \<mapsto> c')\<rparr>)"
| poll_nothing: "\<lbrakk>sy_clients y p = Some c; ev = None \<or> ev = Some (ENET_EVENT_TYPE_DISCONNECT r);
     poll (ec p) ev c = (m, c')\<rbrakk> \<Longrightarrow>
   sys_step eS ec y (y\<lparr>sy_clients := (sy_clients y)(p \<mapsto> c')\<rparr>)"
| serve: "\<lbrakk>up y p = d # rest; ready b [ENET_EVENT_TYPE_RECEIVE p \<lparr>packet_ptr = x, packet_data = d\<rparr>] (sy_server y);
     bus_process eS [ENET_EVENT_TYPE_RECEIVE p \<lparr>packet_ptr = x, packet_data = d\<rparr>] (sy_server y) = (Inr (), s)\<rbrakk> \<Longrightarrow>
   sys_step eS ec y (y\<lparr>sy_server := s, up := (up y)(p := rest),
     down := (\<lambda>q. down y q @ map snd (filter (\<lambda>x. fst x = q) (new_sends (enet_calls (sy_server y)) (enet_calls s)))),
     served := served y @ published_by p (request_of eS d)\<rparr>)"
| poll: "\<lbrakk>sy_clients y p = Some c; down y p = d # rest;
     poll (ec p) (Some (ENET_EVENT_TYPE_RECEIVE r \<lparr>packet_ptr = x, packet_data = d\<rparr>)) c = (Inr m, c')\<rbrakk> \<Longrightarrow>
   sys_step eS ec y (y\<lparr>sy_clients := (sy_clients y)(p \<mapsto> c'), down := (down y)(p := rest),
     got := (got y)(p := got y p @ (case m of None \<Rightarrow> [] | Some m \<Rightarrow> [m]))\<rparr>)"

definition sys_start :: "bus_server \<Rightarrow> system" where
  "sys_start s = \<lparr>sy_server = s, sy_clients = Map.empty, up = (\<lambda>_. []), down = (\<lambda>_. []), answers = [],
     pub = (\<lambda>_. []), served = [], got = (\<lambda>_. [])\<rparr>"

inductive sys_reachable :: "endian \<Rightarrow> (ENetPeer \<Rightarrow> endian) \<Rightarrow> system \<Rightarrow> bool" for eS ec where
  start: "fst (bus_server_ctor quill port host lg) = Inr s \<Longrightarrow> sys_reachable eS ec (sys_start s)"
| step: "\<lbrakk>sys_reachable eS ec y; sys_step eS ec y y'\<rbrakk> \<Longrightarrow> sys_reachable eS ec y'"

section \<open>What the steps preserve\<close>

text \<open>One call of \<^verbatim>\<open>process\<close> in a ready state, as the steps see it.\<close>

lemma broker_step_table:
  "abstract_key (b_names b) n = Some k \<Longrightarrow> abstract_key (b_names (snd (broker_step ev b))) n = Some k"
  by (induction ev b rule: broker_step.induct) (simp_all add: Let_def abstract_key_register change_subs_def)

lemma broker_run_table:
  "abstract_key (b_names b) n = Some k \<Longrightarrow> abstract_key (b_names (snd (broker_run evs b))) n = Some k"
  by (induction evs arbitrary: b) (simp_all add: broker_step_table case_prod_beta)

lemma server_step:
  assumes r: "ready b events s" and s': "bus_process eS events s = (Inr (), s')"
  shows "bus_abs s' (snd (broker_run (map (broker_event_of eS) events) b))"
    and "new_sends (enet_calls s) (enet_calls s') =
      on_wire eS (fst (broker_run (map (broker_event_of eS) events) b))"
    and "get n (m_topic_map s) = Some k \<Longrightarrow> get n (m_topic_map s') = Some k"
proof -
  let ?b' = "snd (broker_run (map (broker_event_of eS) events) b)"
  from r have "ready b (events @ []) s" by simp
  from ready_process [OF this, of eS] s' show abs: "bus_abs s' ?b'"
    and "new_sends (enet_calls s) (enet_calls s') =
      on_wire eS (fst (broker_run (map (broker_event_of eS) events) b))"
    by (auto simp: ready_def new_sends_def)
  show "get n (m_topic_map s) = Some k \<Longrightarrow> get n (m_topic_map s') = Some k"
    using r abs broker_run_table [of b n k "map (broker_event_of eS) events"]
    by (simp add: ready_def bus_abs_def names_of_def get_def)
qed

lemma new_sends_append [simp]: "new_sends cs (cs @ ds) = sends ds"
  by (simp add: new_sends_def)

lemma new_sends_publish_key [simp]:
  "new_sends (c_calls c) (c_calls (publish_key e k m c)) =
     [(mc_peer (c_client c), fst (construct_publish e Constructor_ctor k m Origin_client))]"
  by (simp add: new_sends_def)

lemma publish_cached:
  "c_topic_map c topic = Some k \<Longrightarrow> publish e net topic m c = (Inr (), publish_key e k m c)"
  by (simp add: publish_after_lookup get_topic_key_cached)

lemma subscribe_cached:
  assumes "c_topic_map c topic = Some k" and "subscribe e net topic c = (r, c')"
  shows "new_sends (c_calls c) (c_calls c') =
      [(mc_peer (c_client c), fst (construct_subscribe e Constructor_ctor k Origin_client))]"
    and "c_topic_map c' = c_topic_map c" and "c_inverse_topic_map c' = c_inverse_topic_map c"
  using assms by (auto simp: subscribe_def get_topic_key_cached Let_def packet_factory_defs)

subsection \<open>Topic names\<close>

definition table :: "system \<Rightarrow> string \<rightharpoonup> u64" where
  "table y n = get n (m_topic_map (sy_server y))"

definition labelled :: "(string \<rightharpoonup> u64) \<Rightarrow> FanoutMessage \<Rightarrow> bool" where
  "labelled t m \<longleftrightarrow> fm_topic m = ''unknown'' \<or> t (fm_topic m) = Some (fm_topic_key m)"

definition names_inv :: "endian \<Rightarrow> system \<Rightarrow> bool" where
  "names_inv eS y \<longleftrightarrow>
     (\<exists>b. bus_abs (sy_server y) b) \<and>
     (\<forall>p c. sy_clients y p = Some c \<longrightarrow> mirrors (table y) c) \<and>
     (\<forall>t d. (t, d) \<in> set (answers y) \<longrightarrow>
        (\<exists>k. table y t = Some k \<and> d = fst (construct_topic_response eS Constructor_ctor k t Origin_server))) \<and>
     (\<forall>p. \<forall>m \<in> set (got y p). labelled (table y) m)"

text \<open>A step of the server that answers no question keeps the invariant.\<close>

lemma names_inv_server:
  assumes inv: "names_inv eS y" and r: "ready b events (sy_server y)"
    and s: "bus_process eS events (sy_server y) = (Inr (), sy_server y')"
    and same: "\<And>p c. sy_clients y' p = Some c \<Longrightarrow> sy_clients y p = Some c \<or> c_topic_map c = Map.empty \<and> c_inverse_topic_map c = Map.empty"
    and "got y' = got y"
    and ans: "\<And>t d. (t, d) \<in> set (answers y') \<Longrightarrow> (t, d) \<in> set (answers y) \<or>
      (\<exists>k. table y' t = Some k \<and> d = fst (construct_topic_response eS Constructor_ctor k t Origin_server))"
  shows "names_inv eS y'"
proof -
  have mono: "table y n = Some k \<Longrightarrow> table y' n = Some k" for n k
    using server_step(3) [OF r s] by (simp add: table_def)
  have "mirrors (table y') c" if "sy_clients y' p = Some c" for p c
    using same [OF that]
  proof
    assume "sy_clients y p = Some c"
    then have "mirrors (table y) c" using inv by (simp add: names_inv_def)
    then show ?thesis using mono by (rule mirrors_mono)
  qed (simp add: mirrors_def)
  moreover have "\<exists>k. table y' t = Some k \<and> d = fst (construct_topic_response eS Constructor_ctor k t Origin_server)"
    if "(t, d) \<in> set (answers y')" for t d
    using ans [OF that] inv mono unfolding names_inv_def by blast
  moreover have "labelled (table y') m" if "m \<in> set (got y' p)" for p m
    using that inv mono assms(5) unfolding names_inv_def labelled_def by metis
  ultimately show ?thesis
    using server_step(1) [OF r s] unfolding names_inv_def by blast
qed

text \<open>A step of one client keeps the invariant when its caches still mirror the table.\<close>

lemma names_inv_client:
  assumes "names_inv eS y" and "mirrors (table y) c'" and "\<forall>m \<in> set ms. labelled (table y) m"
    and "sy_server y' = sy_server y" and "sy_clients y' = (sy_clients y)(p \<mapsto> c')" and "answers y' = answers y"
    and "got y' = (got y)(p := got y p @ ms)"
  shows "names_inv eS y'"
proof -
  have "table y' = table y" using assms(4) by (simp add: table_def fun_eq_iff)
  with assms show ?thesis by (auto simp: names_inv_def)
qed

lemma poll_labels:
  assumes "mirrors t c" and "poll e (Some (ENET_EVENT_TYPE_RECEIVE r q)) c = (Inr (Some m), c')"
  shows "labelled t m"
  using assms
  by (auto simp: poll_result poll_answer_def labelled_def mirrors_def split: sum.splits prod.splits if_splits option.splits)

lemma ask_answered:
  assumes "ready b [ENET_EVENT_TYPE_CONNECT q, ENET_EVENT_TYPE_RECEIVE q \<lparr>packet_ptr = x,
      packet_data = fst (construct_topic_request e Constructor_ctor topic Origin_client)\<rparr>] s0"
    and "bus_process eS [ENET_EVENT_TYPE_CONNECT q, ENET_EVENT_TYPE_RECEIVE q \<lparr>packet_ptr = x,
      packet_data = fst (construct_topic_request e Constructor_ctor topic Origin_client)\<rparr>] s0 = (Inr (), s)"
  obtains k where "get topic (m_topic_map s) = Some k"
    and "new_sends (enet_calls s0) (enet_calls s) =
      [(q, fst (construct_topic_response eS Constructor_ctor k topic Origin_server))]"
proof (rule server_resolves [OF assms(1) request_of_topic_request [of eS]])
qed (use assms(2) that in \<open>simp add: new_sends_def del: construct_simp\<close>)

lemma resolve_mirrors:
  assumes inv: "names_inv eS y" and "mirrors (table y) c" and "(topic, d) \<in> set (answers y)"
    and "tl_recv net = Some (ENET_EVENT_TYPE_RECEIVE r \<lparr>packet_ptr = x, packet_data = d\<rparr>)"
    and "get_topic_key e net topic c = (Inr k, c')"
  shows "mirrors (table y) c'"
proof -
  obtain k' where "table y topic = Some k'"
    and "d = fst (construct_topic_response eS Constructor_ctor k' topic Origin_server)"
    using inv assms(3) unfolding names_inv_def by blast
  then have "answered_from e (table y) net"
    using assms(4) by (simp add: answered_from_def lookup_answer_def del: construct_simp)
  moreover have "\<exists>ns. names_of (m_topic_map (sy_server y)) ns"
    using inv by (auto simp: names_inv_def bus_abs_def)
  ultimately show ?thesis
    using service.mirrors_lookup [of "m_topic_map (sy_server y)" c e net topic "Inr k" c'] assms(2,5)
    by (simp add: table_def [abs_def])
qed

lemma names_inv_step:
  assumes inv: "names_inv eS y" and "sys_step eS ec y y'"
  shows "names_inv eS y'"
  using assms(2)
proof cases
  case (connect res host port c calls b p s)
  then have "c_topic_map c = Map.empty \<and> c_inverse_topic_map c = Map.empty"
    by (auto simp: bus_client_ctor_def split: prod.splits sum.splits)
  with connect show ?thesis
    by (intro names_inv_server [OF inv, of b "[ENET_EVENT_TYPE_CONNECT p]"]) (auto split: if_splits)
next
  case (disconnect b p s)
  then show ?thesis
    by (intro names_inv_server [OF inv, of b "[ENET_EVENT_TYPE_DISCONNECT p]"]) (auto split: if_splits)
next
  case (foreign_connect b p s)
  then show ?thesis
    by (intro names_inv_server [OF inv, of b "[ENET_EVENT_TYPE_CONNECT p]"]) (auto split: if_splits)
next
  case (foreign_send p d)
  then have "table y' = table y" by (simp add: table_def fun_eq_iff)
  with foreign_send inv show ?thesis by (simp add: names_inv_def)
next
  case (lookup_fails p c net topic err c')
  then have "mirrors (table y) c'"
    using inv get_topic_key_fails [OF lookup_fails(3)] by (simp add: names_inv_def mirrors_def)
  with lookup_fails show ?thesis by (intro names_inv_client [OF inv, of c' "[]" _ p]) auto
next
  case (poll_nothing p c ev r m c')
  then have "mirrors (table y) c'" using inv by (auto simp: names_inv_def poll_result)
  with poll_nothing show ?thesis by (intro names_inv_client [OF inv, of c' "[]" _ p]) auto
next
  case (publish_by_key p c k m c')
  then show ?thesis
    using inv by (intro names_inv_client [OF inv, of c' "[]" _ p]) (auto simp: names_inv_def)
next
  case (publish_by_name p c topic k net m c')
  then show ?thesis
    using inv by (intro names_inv_client [OF inv, of c' "[]" _ p]) (auto simp: names_inv_def publish_cached)
next
  case (subscribe_by_name p c topic k net c')
  then have "mirrors (table y) c" using inv by (simp add: names_inv_def)
  then have "mirrors (table y) c'"
    using subscribe_cached(2,3) [OF subscribe_by_name(3,4)] by (simp add: mirrors_def)
  with subscribe_by_name show ?thesis
    by (intro names_inv_client [OF inv, of c' "[]" _ p]) auto
next
  case (ask events q x e topic b s)
  obtain k where "get topic (m_topic_map s) = Some k"
    and "new_sends (enet_calls (sy_server y)) (enet_calls s) =
      [(q, fst (construct_topic_response eS Constructor_ctor k topic Origin_server))]"
    using ask_answered [OF ask(3,4) [unfolded ask(2)]] by blast
  with ask show ?thesis
    by (intro names_inv_server [OF inv, of b events]) (auto simp: table_def split: if_splits)
next
  case (resolve p c topic d net r x k c')
  have m: "mirrors (table y) c" using inv resolve by (simp add: names_inv_def)
  have "mirrors (table y) c'" by (rule resolve_mirrors [OF inv m resolve(3-5)])
  with resolve show ?thesis
    by (intro names_inv_client [OF inv, of c' "[]" _ p]) auto
next
  case (serve p d rest b x s)
  then show ?thesis
    by (intro names_inv_server [OF inv, of b "[ENET_EVENT_TYPE_RECEIVE p \<lparr>packet_ptr = x, packet_data = d\<rparr>]"])
      (auto split: if_splits)
next
  case (poll p c d rest r x m c')
  have mi: "mirrors (table y) c" using inv poll by (simp add: names_inv_def)
  then have "mirrors (table y) c'" using poll by (auto simp: poll_result)
  moreover have "\<forall>f \<in> set (case m of None \<Rightarrow> [] | Some m \<Rightarrow> [m]). labelled (table y) f"
    using poll_labels [OF mi] poll by (auto split: option.splits)
  ultimately show ?thesis
    using poll by (intro names_inv_client [OF inv, of c' "case m of None \<Rightarrow> [] | Some m \<Rightarrow> [m]" _ p]) auto
qed

subsection \<open>From the publisher to the server\<close>

text \<open>The clients of this library only send publish and subscribe requests over their connection.\<close>

fun is_op :: "request \<Rightarrow> bool" where
  "is_op (Publish k m) = True"
| "is_op (Subscribe k) = True"
| "is_op _ = False"

definition messages :: "ENetPeer \<Rightarrow> (ENetPeer \<times> u64 \<times> bytes) list \<Rightarrow> (u64 \<times> bytes) list" where
  "messages q xs = map snd (filter (\<lambda>x. fst x = q) xs)"

definition publishes :: "request list \<Rightarrow> (u64 \<times> bytes) list" where
  "publishes rs = concat (map (\<lambda>r. map snd (published_by 0 r)) rs)"

lemma messages_append [simp]: "messages q (xs @ ys) = messages q xs @ messages q ys"
  by (simp add: messages_def)

lemma publishes_simps [simp]:
  "publishes [] = []" "publishes (r # rs) = map snd (published_by 0 r) @ publishes rs"
  "publishes (rs @ rs') = publishes rs @ publishes rs'"
  by (simp_all add: publishes_def)

lemma messages_published_by [simp]:
  "messages q (published_by p r) = (if p = q then map snd (published_by 0 r) else [])"
  by (simp add: messages_def published_by_def split: request.split)

definition up_inv :: "endian \<Rightarrow> system \<Rightarrow> bool" where
  "up_inv eS y \<longleftrightarrow>
     (\<forall>p. (sy_clients y p \<noteq> None \<longrightarrow> (\<forall>d \<in> set (up y p). is_op (request_of eS d))) \<and>
        subseq (messages p (served y) @ publishes (map (request_of eS) (up y p))) (pub y p))"

lemma up_inv_send:
  assumes "up_inv eS y" and "sy_clients y p \<noteq> None \<longrightarrow> is_op (request_of eS d)"
    and "dom (sy_clients y') = dom (sy_clients y)"
    and "up y' = (up y)(p := up y p @ [d])" and "served y' = served y"
    and "pub y' = (pub y)(p := pub y p @ map snd (published_by 0 (request_of eS d)))"
  shows "up_inv eS y'"
proof -
  have "subseq ((messages p (served y) @ publishes (map (request_of eS) (up y p))) @ map snd (published_by 0 (request_of eS d)))
      (pub y p @ map snd (published_by 0 (request_of eS d)))"
    using assms(1) unfolding up_inv_def by (simp only: subseq_append)
  moreover have "sy_clients y' q \<noteq> None \<longleftrightarrow> sy_clients y q \<noteq> None" for q
    using assms(3) by blast
  ultimately show ?thesis
    using assms(1,2,4-6) by (auto simp: up_inv_def)
qed

lemma up_inv_reset:
  assumes "up_inv eS y" and "up y' = (up y)(p := [])" and "served y' = served y" and "pub y' = pub y"
    and "\<And>q. q \<noteq> p \<Longrightarrow> sy_clients y' q = sy_clients y q"
  shows "up_inv eS y'"
  using assms by (auto simp: up_inv_def intro: subseq_left)

lemma up_inv_serve:
  assumes "up_inv eS y" and d: "up y p = d # rest" and "sy_clients y' = sy_clients y"
    and "up y' = (up y)(p := rest)" and "served y' = served y @ published_by p (request_of eS d)" and "pub y' = pub y"
  shows "up_inv eS y'"
proof -
  have "subseq (messages p (served y) @ publishes (map (request_of eS) (d # rest))) (pub y p)"
    using assms(1) d by (metis up_inv_def)
  with assms show ?thesis by (auto simp: up_inv_def)
qed

lemma up_inv_step:
  assumes inv: "up_inv eS y" and "sys_step eS ec y y'"
  shows "up_inv eS y'"
  using assms(2)
proof cases
  case (connect res host port c calls b p s)
  then show ?thesis by (intro up_inv_reset [OF inv, of _ p]) auto
next
  case (disconnect b p s)
  then show ?thesis by (intro up_inv_reset [OF inv, of _ p]) auto
next
  case (foreign_connect b p s)
  then show ?thesis by (intro up_inv_reset [OF inv, of _ p]) auto
next
  case (foreign_send p d)
  then show ?thesis
    by (intro up_inv_send [OF inv, of p d]) (auto simp: published_by_def split: request.split)
next
  case (publish_by_key p c k m c')
  then show ?thesis
    by (intro up_inv_send [OF inv, of p "fst (construct_publish (ec p) Constructor_ctor k m Origin_client)"])
      (auto simp: published_by_def request_of_publish simp del: construct_simp)
next
  case (publish_by_name p c topic k net m c')
  then show ?thesis
    by (intro up_inv_send [OF inv, of p "fst (construct_publish (ec p) Constructor_ctor k m Origin_client)"])
      (auto simp: published_by_def request_of_publish publish_cached simp del: construct_simp)
next
  case (subscribe_by_name p c topic k net c')
  then show ?thesis
    using subscribe_cached(1) [OF subscribe_by_name(3,4)]
    by (intro up_inv_send [OF inv, of p "fst (construct_subscribe (ec p) Constructor_ctor k Origin_client)"])
      (auto simp: published_by_def request_of_subscribe simp del: construct_simp)
next
  case (ask events q x e topic b s)
  then show ?thesis by (intro up_inv_reset [OF inv, of _ q]) auto
next
  case (serve p d rest b x s)
  then show ?thesis by (intro up_inv_serve [OF inv, of p d rest]) auto
qed (use inv in \<open>auto simp: up_inv_def\<close>)

subsection \<open>From the server to the subscribers\<close>

definition wire :: "endian \<Rightarrow> ENetPeer \<times> u64 \<times> bytes \<Rightarrow> bytes" where
  "wire eS x = reply_bytes eS (Fanout_of (fst (snd x)) (snd (snd x)))"

definition content :: "FanoutMessage \<Rightarrow> u64 \<times> bytes" where
  "content m = (fm_topic_key m, fm_payload m)"

text \<open>
  What a client has polled and, while it is connected, what is on its way to it. Peers that are no clients of this library
  may also get answers to other requests.
\<close>

definition flows :: "endian \<Rightarrow> system \<Rightarrow> ENetPeer \<Rightarrow> (ENetPeer \<times> u64 \<times> bytes) list \<Rightarrow> (ENetPeer \<times> u64 \<times> bytes) list \<Rightarrow> bool" where
  "flows eS y p ys zs \<longleftrightarrow>
     map snd ys = map content (got y p) \<and> (sy_clients y p \<noteq> None \<longrightarrow> down y p = map (wire eS) zs) \<and>
     subseq (ys @ zs) (served y) \<and> (\<forall>x \<in> set (ys @ zs). fst x \<noteq> p)"

definition down_inv :: "endian \<Rightarrow> system \<Rightarrow> bool" where
  "down_inv eS y \<longleftrightarrow> (\<forall>p. \<exists>ys zs. flows eS y p ys zs)"

lemma flows_same:
  assumes "flows eS y p ys zs" and "got y' p = got y p" and "down y' p = down y p" and "served y' = served y"
    and "sy_clients y' p \<noteq> None \<Longrightarrow> sy_clients y p \<noteq> None"
  shows "flows eS y' p ys zs"
  using assms by (auto simp: flows_def)

lemma flows_reset:
  assumes "flows eS y p ys zs" and "down y' p = []" and "served y' = served y" and "got y' p = got y p"
  shows "flows eS y' p ys []"
  using assms by (auto simp: flows_def intro: subseq_left)

lemma down_inv_same:
  assumes "down_inv eS y" and "got y' = got y" and "down y' = down y" and "served y' = served y"
    and "dom (sy_clients y') \<subseteq> dom (sy_clients y)"
  shows "down_inv eS y'"
  using assms flows_same [of eS y _ _ _ y'] unfolding down_inv_def by (metis domIff subsetD)

lemma down_inv_reset:
  assumes "down_inv eS y" and "down y' = (down y)(p := [])" and "served y' = served y" and "got y' = got y"
    and "\<And>q. q \<noteq> p \<Longrightarrow> sy_clients y' q = sy_clients y q"
  shows "down_inv eS y'"
  unfolding down_inv_def
proof
  fix q
  from assms(1) obtain ys zs where i: "flows eS y q ys zs" unfolding down_inv_def by blast
  show "\<exists>ys zs. flows eS y' q ys zs"
  proof (cases "q = p")
    case True
    have "flows eS y' q ys []" by (rule flows_reset [OF i]) (simp_all add: assms True)
    then show ?thesis by blast
  next
    case False
    have "flows eS y' q ys zs" by (rule flows_same [OF i]) (simp_all add: assms False)
    then show ?thesis by blast
  qed
qed

text \<open>The server extends the queue of each other subscriber by the message it serves, or leaves it.\<close>

lemma down_inv_serve:
  assumes "down_inv eS y" and "served y' = served y @ xs" and "got y' = got y" and "sy_clients y' = sy_clients y"
    and "\<And>q. sy_clients y q \<noteq> None \<Longrightarrow> down y' q = down y q \<or> down y' q = down y q @ map (wire eS) xs \<and> (\<forall>x \<in> set xs. fst x \<noteq> q)"
  shows "down_inv eS y'"
  unfolding down_inv_def
proof
  fix q
  from assms(1) obtain ys zs where i: "flows eS y q ys zs" unfolding down_inv_def by blast
  then have sub: "subseq (ys @ zs) (served y)" by (simp add: flows_def)
  have kept: "subseq (ys @ zs) (served y @ xs)" and longer: "subseq ((ys @ zs) @ xs) (served y @ xs)"
    using sub by (simp only: subseq_rev_drop_many) (use sub in \<open>simp only: subseq_append\<close>)
  consider "sy_clients y q = None \<or> down y' q = down y q"
    | "down y' q = down y q @ map (wire eS) xs" "\<forall>x \<in> set xs. fst x \<noteq> q"
    using assms(5) by blast
  then show "\<exists>ys zs. flows eS y' q ys zs"
  proof cases
    case 1
    with i kept assms(2-4) have "flows eS y' q ys zs" by (auto simp: flows_def)
    then show ?thesis by blast
  next
    case 2
    with i longer assms(2-4) have "flows eS y' q ys (zs @ xs)" by (auto simp: flows_def)
    then show ?thesis by blast
  qed
qed

lemma wire_polled:
  assumes "poll e (Some (ENET_EVENT_TYPE_RECEIVE r \<lparr>packet_ptr = x, packet_data = wire eS z\<rparr>)) c = (Inr m, c')"
  shows "\<exists>f. m = Some f \<and> content f = snd z"
  using assms by (cases z) (auto simp: poll_result poll_answer_def wire_def content_def)

lemma down_inv_poll:
  assumes "down_inv eS y" and "sy_clients y p \<noteq> None" and "down y p = d # rest"
    and "poll e (Some (ENET_EVENT_TYPE_RECEIVE r \<lparr>packet_ptr = x, packet_data = d\<rparr>)) c = (Inr m, c')"
    and "down y' = (down y)(p := rest)" and "served y' = served y" and "dom (sy_clients y') \<subseteq> dom (sy_clients y)"
    and "got y' = (got y)(p := got y p @ (case m of None \<Rightarrow> [] | Some m \<Rightarrow> [m]))"
  shows "down_inv eS y'"
  unfolding down_inv_def
proof
  fix q
  from assms(1) obtain ys zs where i: "flows eS y q ys zs" unfolding down_inv_def by blast
  show "\<exists>ys zs. flows eS y' q ys zs"
  proof (cases "q = p")
    case True
    with i assms(2,3) obtain z zs' where z: "zs = z # zs'" "d = wire eS z" "rest = map (wire eS) zs'"
      by (cases zs) (auto simp: flows_def)
    with wire_polled assms(4) obtain f where "m = Some f" "content f = snd z" by blast
    with True i z assms have "flows eS y' q (ys @ [z]) zs'" by (auto simp: flows_def)
    then show ?thesis by blast
  next
    case False
    have "flows eS y' q ys zs" by (rule flows_same [OF i]) (use assms False in auto)
    then show ?thesis by blast
  qed
qed

lemma serve_targets:
  assumes "ready b [ENET_EVENT_TYPE_RECEIVE p \<lparr>packet_ptr = x, packet_data = d\<rparr>] s"
    and "bus_process eS [ENET_EVENT_TYPE_RECEIVE p \<lparr>packet_ptr = x, packet_data = d\<rparr>] s = (Inr (), s')"
    and "q = p \<Longrightarrow> is_op (request_of eS d)"
    and out: "out = map snd (filter (\<lambda>x. fst x = q) (new_sends (enet_calls s) (enet_calls s')))"
    and xs: "xs = published_by p (request_of eS d)"
  shows "out = [] \<or> out = map (wire eS) xs \<and> (\<forall>x \<in> set xs. fst x \<noteq> q)"
proof -
  have d: "distinct (map fst (b_sessions b))"
    using assms(1) sessions_distinct [of s] by (simp add: ready_def bus_abs_def)
  have "new_sends (enet_calls s) (enet_calls s') = on_wire eS (fst (broker_step (Request p (request_of eS d)) b))"
    using server_step(2) [OF assms(1,2)] by (simp add: case_prod_beta)
  then show ?thesis
    using assms(3) fanout_for_peer [OF d, of q eS p]
    by (cases "request_of eS d") (auto simp: out xs published_by_def wire_def on_wire_def Let_def
        simp del: reply_bytes.simps broker_step.simps(6))
qed

lemma down_inv_step:
  assumes inv: "down_inv eS y" and ups: "up_inv eS y" and "sys_step eS ec y y'"
  shows "down_inv eS y'"
  using assms(3)
proof cases
  case (connect res host port c calls b p s)
  then show ?thesis by (intro down_inv_reset [OF inv, of _ p]) auto
next
  case (disconnect b p s)
  then show ?thesis by (intro down_inv_reset [OF inv, of _ p]) auto
next
  case (foreign_connect b p s)
  then show ?thesis by (intro down_inv_reset [OF inv, of _ p]) auto
next
  case (ask events q x e topic b s)
  then show ?thesis by (intro down_inv_reset [OF inv, of _ q]) auto
next
  case (serve p d rest b x s)
  have op: "is_op (request_of eS d)" if "sy_clients y p \<noteq> None"
    using ups that serve(2) unfolding up_inv_def by (metis list.set_intros(1))
  show ?thesis
  proof (rule down_inv_serve [OF inv])
    show "served y' = served y @ published_by p (request_of eS d)" and "got y' = got y" and "sy_clients y' = sy_clients y"
      using serve by simp_all
    show "down y' q = down y q \<or> down y' q = down y q @ map (wire eS) (published_by p (request_of eS d)) \<and>
        (\<forall>x \<in> set (published_by p (request_of eS d)). fst x \<noteq> q)" if "sy_clients y q \<noteq> None" for q
      using serve_targets [OF serve(3,4) _ refl refl, of q] op that serve(1) by auto
  qed
next
  case (poll p c d rest r x m c')
  then show ?thesis by (intro down_inv_poll [OF inv, of p d rest "ec p" r x c m c']) auto
qed (rule down_inv_same [OF inv]; auto)+

section \<open>Reachable states\<close>

definition sys_inv :: "endian \<Rightarrow> system \<Rightarrow> bool" where
  "sys_inv eS y \<longleftrightarrow> names_inv eS y \<and> up_inv eS y \<and> down_inv eS y"

lemma sys_inv_start: "fst (bus_server_ctor quill port host lg) = Inr s \<Longrightarrow> sys_inv eS (sys_start s)"
  using bus_server_ctor_Inr [of quill port host lg s]
  by (auto simp: sys_inv_def sys_start_def names_inv_def up_inv_def down_inv_def flows_def messages_def)

lemma sys_reachable_inv: "sys_reachable eS ec y \<Longrightarrow> sys_inv eS y"
proof (induction rule: sys_reachable.induct)
  case (start port host s)
  then show ?case by (rule sys_inv_start)
next
  case (step y y')
  then show ?case
    using names_inv_step up_inv_step down_inv_step by (simp add: sys_inv_def) blast
qed

lemma served_published:
  assumes "sys_reachable eS ec y" and "(q, m) \<in> set (served y)"
  shows "m \<in> set (pub y q)"
proof -
  have "m \<in> set (messages q (served y))" using assms(2) by (force simp: messages_def)
  moreover have "subseq (messages q (served y)) (pub y q)"
    using sys_reachable_inv [OF assms(1)] unfolding sys_inv_def up_inv_def by (blast intro: subseq_left)
  ultimately show ?thesis using subseq_set by blast
qed

section \<open>A run of the system\<close>

text \<open>
  Two clients connect, the topic \<open>t\<close> is asked for over a temporary connection, the second client resolves
  and subscribes to it, the first publishes under its key, and the second polls the message.
\<close>

lemma ready_first: "ready b (events @ later) s \<Longrightarrow> ready b events s"
proof -
  have "enet_protocol C (es @ fs) \<Longrightarrow> enet_protocol C es" for C es fs
    by (induction C es rule: enet_protocol.induct) simp_all
  then show "ready b (events @ later) s \<Longrightarrow> ready b events s"
    by (auto simp: ready_def)
qed

definition run_events_example :: "ENetEvent list" where
  "run_events_example =
     [ENET_EVENT_TYPE_CONNECT 1, ENET_EVENT_TYPE_CONNECT 2, ENET_EVENT_TYPE_CONNECT 9,
      ENET_EVENT_TYPE_RECEIVE 9 \<lparr>packet_ptr = 0, packet_data = fst (construct_topic_request Little Constructor_ctor ''t'' Origin_client)\<rparr>,
      ENET_EVENT_TYPE_RECEIVE 2 \<lparr>packet_ptr = 0, packet_data = fst (construct_subscribe Little Constructor_ctor 1 Origin_client)\<rparr>,
      ENET_EVENT_TYPE_RECEIVE 1 \<lparr>packet_ptr = 0, packet_data = fst (construct_publish Little Constructor_ctor 1 [7] Origin_client)\<rparr>]"

lemma server_turn:
  assumes "ready b (events @ later) s"
  obtains s' where "bus_process e events s = (Inr (), s')" and "ready b events s"
    and "ready (snd (broker_run (map (broker_event_of e) events) b)) later s'"
    and "new_sends (enet_calls s) (enet_calls s') = on_wire e (fst (broker_run (map (broker_event_of e) events) b))"
  using ready_process [OF assms, of e] ready_first [OF assms] by (auto simp: new_sends_def)

lemma example_client_ctor:
  "\<exists>calls. bus_client_ctor example_connect ''localhost'' 6767 = (Inr example_client, calls)"
  by (simp add: example_client_def bus_client_ctor_def example_connected)

lemma example_joined:
  "\<exists>y. sys_reachable Little (\<lambda>_. Little) y \<and>
     ready \<lparr>b_names = [''t''], b_sessions = [(1, {}), (2, {}), (9, {})]\<rparr> (drop 4 run_events_example) (sy_server y) \<and>
     sy_clients y = [1 \<mapsto> example_client, 2 \<mapsto> example_client] \<and> up y = (\<lambda>_. []) \<and> down y = (\<lambda>_. []) \<and>
     answers y = [(''t'', reply_bytes Little (Key_for 1 ''t''))] \<and>
     pub y = (\<lambda>_. []) \<and> served y = [] \<and> got y = (\<lambda>_. [])"
proof -
  obtain calls where c: "bus_client_ctor example_connect ''localhost'' 6767 = (Inr example_client, calls)"
    using example_client_ctor ..
  let ?y0 = "sys_start example_server"
  have "enet_protocol {} run_events_example" by (simp add: run_events_example_def)
  then have "ready empty_broker (take 1 run_events_example @ drop 1 run_events_example) example_server"
    using example_start by (simp add: ready_def empty_broker_def) (simp add: run_events_example_def)
  then obtain s1 where s1: "bus_process Little (take 1 run_events_example) example_server = (Inr (), s1)"
    "ready empty_broker (take 1 run_events_example) example_server"
    "ready (snd (broker_run (map (broker_event_of Little) (take 1 run_events_example)) empty_broker)) (drop 1 run_events_example) s1"
    by (rule server_turn)
  then have "ready \<lparr>b_names = [], b_sessions = [(1, {})]\<rparr> ([ENET_EVENT_TYPE_CONNECT 2] @ drop 2 run_events_example) s1"
    by (simp add: run_events_example_def empty_broker_def del: construct_simp)
  then obtain s2 where s2: "bus_process Little [ENET_EVENT_TYPE_CONNECT 2] s1 = (Inr (), s2)"
    "ready \<lparr>b_names = [], b_sessions = [(1, {})]\<rparr> [ENET_EVENT_TYPE_CONNECT 2] s1"
    "ready (snd (broker_run (map (broker_event_of Little) [ENET_EVENT_TYPE_CONNECT 2]) \<lparr>b_names = [], b_sessions = [(1, {})]\<rparr>)) (drop 2 run_events_example) s2"
    by (rule server_turn)
  let ?asked = "take 2 (drop 2 run_events_example)"
  from s2 have "ready \<lparr>b_names = [], b_sessions = [(1, {}), (2, {})]\<rparr> (?asked @ drop 4 run_events_example) s2"
    by (simp add: run_events_example_def del: construct_simp)
  then obtain s3 where s3: "bus_process Little ?asked s2 = (Inr (), s3)"
    "ready \<lparr>b_names = [], b_sessions = [(1, {}), (2, {})]\<rparr> ?asked s2"
    "ready (snd (broker_run (map (broker_event_of Little) ?asked) \<lparr>b_names = [], b_sessions = [(1, {}), (2, {})]\<rparr>)) (drop 4 run_events_example) s3"
    "new_sends (enet_calls s2) (enet_calls s3) =
      on_wire Little (fst (broker_run (map (broker_event_of Little) ?asked) \<lparr>b_names = [], b_sessions = [(1, {}), (2, {})]\<rparr>))"
    by (rule server_turn)
  have run: "broker_run (map (broker_event_of Little) ?asked) \<lparr>b_names = [], b_sessions = [(1, {}), (2, {})]\<rparr> =
      ([(9, Key_for 1 ''t'')], \<lparr>b_names = [''t''], b_sessions = [(1, {}), (2, {}), (9, {})]\<rparr>)"
    by (simp add: run_events_example_def request_of_topic_request register_def abstract_key_def del: construct_simp)
  let ?y1 = "?y0\<lparr>sy_server := s1, sy_clients := [1 \<mapsto> example_client]\<rparr>"
  let ?y2 = "?y1\<lparr>sy_server := s2, sy_clients := [1 \<mapsto> example_client, 2 \<mapsto> example_client]\<rparr>"
  let ?y3 = "?y2\<lparr>sy_server := s3, answers := [(''t'', reply_bytes Little (Key_for 1 ''t''))]\<rparr>"
  have r0: "sys_reachable Little (\<lambda>_. Little) ?y0"
    by (rule sys_reachable.start [OF example_server_started])
  have "sys_step Little (\<lambda>_. Little) ?y0 ?y1"
    using sys_step.connect [OF c, of empty_broker 1 ?y0 Little s1] s1
    by (simp add: sys_start_def run_events_example_def fun_upd_idem)
  with r0 have r1: "sys_reachable Little (\<lambda>_. Little) ?y1" by (rule sys_reachable.step)
  have "sys_step Little (\<lambda>_. Little) ?y1 ?y2"
    using sys_step.connect [OF c, of "\<lparr>b_names = [], b_sessions = [(1, {})]\<rparr>" 2 ?y1 Little s2] s2
    by (simp add: sys_start_def fun_upd_idem)
  with r1 have r2: "sys_reachable Little (\<lambda>_. Little) ?y2" by (rule sys_reachable.step)
  have "sys_step Little (\<lambda>_. Little) ?y2 ?y3"
    using sys_step.ask [OF refl, of "\<lparr>b_names = [], b_sessions = [(1, {}), (2, {})]\<rparr>" 9 0 Little "''t''" ?y2 Little s3] s3 run
    by (simp add: sys_start_def run_events_example_def fun_upd_idem on_wire_def fun_upd_twist del: construct_simp reply_bytes.simps)
  with r2 have "sys_reachable Little (\<lambda>_. Little) ?y3" by (rule sys_reachable.step)
  with s3 run show ?thesis
    by (intro exI [where x = ?y3]) (simp add: sys_start_def)
qed

lemma example_resolved:
  "\<exists>c'. get_topic_key Little (example_net (reply_bytes Little (Key_for 1 ''t''))) ''t'' example_client = (Inr 1, c') \<and>
     c_topic_map c' = [''t'' \<mapsto> 1] \<and> c_inverse_topic_map c' = [1 \<mapsto> ''t'']"
proof -
  have "lookup_answer Little (example_net (reply_bytes Little (Key_for 1 ''t''))) = Inr (''t'', 1)"
    by (simp add: lookup_answer_def example_net_def del: construct_simp)
  then show ?thesis
    by (simp add: get_topic_key_uncached Let_def packet_factory_defs)
      (simp add: example_net_def example_connected)
qed

lemma example_subscribed:
  "\<exists>y c. sys_reachable Little (\<lambda>_. Little) y \<and>
     ready \<lparr>b_names = [''t''], b_sessions = [(1, {}), (2, {1}), (9, {})]\<rparr> (drop 5 run_events_example) (sy_server y) \<and>
     sy_clients y = [1 \<mapsto> example_client, 2 \<mapsto> c] \<and> c_inverse_topic_map c = [1 \<mapsto> ''t''] \<and>
     up y = (\<lambda>_. []) \<and> down y = (\<lambda>_. []) \<and> pub y = (\<lambda>_. []) \<and> served y = [] \<and> got y = (\<lambda>_. [])"
proof -
  obtain y where r: "sys_reachable Little (\<lambda>_. Little) y"
    and rdy: "ready \<lparr>b_names = [''t''], b_sessions = [(1, {}), (2, {}), (9, {})]\<rparr> (drop 4 run_events_example) (sy_server y)"
    and y: "sy_clients y = [1 \<mapsto> example_client, 2 \<mapsto> example_client]" "up y = (\<lambda>_. [])" "down y = (\<lambda>_. [])"
      "answers y = [(''t'', reply_bytes Little (Key_for 1 ''t''))]" "pub y = (\<lambda>_. [])" "served y = []" "got y = (\<lambda>_. [])"
    using example_joined by blast
  obtain c1 where c1: "get_topic_key Little (example_net (reply_bytes Little (Key_for 1 ''t''))) ''t'' example_client = (Inr 1, c1)"
    and m1: "c_topic_map c1 ''t'' = Some 1" "c_inverse_topic_map c1 = [1 \<mapsto> ''t'']"
    using example_resolved by auto
  let ?y1 = "y\<lparr>sy_clients := [1 \<mapsto> example_client, 2 \<mapsto> c1]\<rparr>"
  have "sys_step Little (\<lambda>_. Little) y ?y1"
    using sys_step.resolve [of y 2 example_client "''t''" _ _ _ _ "\<lambda>_. Little", OF _ _ _ c1] y
    by (simp add: example_net_def)
  with r have r1: "sys_reachable Little (\<lambda>_. Little) ?y1" by (rule sys_reachable.step)
  obtain c2 where c2: "subscribe Little (example_net []) ''t'' c1 = (Inr (), c2)"
    using m1(1) by (simp add: subscribe_def get_topic_key_cached Let_def packet_factory_defs)
  note sub = subscribe_cached [OF m1(1) c2]
  let ?d = "fst (construct_subscribe Little Constructor_ctor 1 Origin_client)"
  let ?y2 = "?y1\<lparr>sy_clients := [1 \<mapsto> example_client, 2 \<mapsto> c2], up := (\<lambda>_. [])(2 := [?d])\<rparr>"
  have "sys_step Little (\<lambda>_. Little) ?y1 ?y2"
    using sys_step.subscribe_by_name [of ?y1 2 c1 "''t''" 1 "\<lambda>_. Little", OF _ m1(1) c2] y sub
    by (simp del: construct_simp)
  with r1 have r2: "sys_reachable Little (\<lambda>_. Little) ?y2" by (rule sys_reachable.step)
  let ?b = "\<lparr>b_names = [''t''], b_sessions = [(1, {}), (2, {}), (9, {})]\<rparr>"
  let ?ev = "ENET_EVENT_TYPE_RECEIVE 2 \<lparr>packet_ptr = 0, packet_data = ?d\<rparr>"
  from rdy have "ready ?b ([?ev] @ drop 5 run_events_example) (sy_server y)"
    by (simp add: run_events_example_def del: construct_simp)
  then obtain s where s: "bus_process Little [?ev] (sy_server y) = (Inr (), s)" "ready ?b [?ev] (sy_server y)"
    "ready (snd (broker_run (map (broker_event_of Little) [?ev]) ?b)) (drop 5 run_events_example) s"
    "new_sends (enet_calls (sy_server y)) (enet_calls s) = on_wire Little (fst (broker_run (map (broker_event_of Little) [?ev]) ?b))"
    by (rule server_turn)
  have run: "broker_run (map (broker_event_of Little) [?ev]) ?b = ([], \<lparr>b_names = [''t''], b_sessions = [(1, {}), (2, {1}), (9, {})]\<rparr>)"
    by (simp add: request_of_subscribe change_subs_def del: construct_simp)
  let ?y3 = "?y2\<lparr>sy_server := s, up := (\<lambda>_. []), down := (\<lambda>_. []), served := []\<rparr>"
  have "sys_step Little (\<lambda>_. Little) ?y2 ?y3"
    using sys_step.serve [of ?y2 2 ?d "[]" ?b 0 Little s] s run y
    by (simp add: request_of_subscribe published_by_def fun_upd_idem del: construct_simp)
  with r2 have "sys_reachable Little (\<lambda>_. Little) ?y3" by (rule sys_reachable.step)
  with s run y sub m1 show ?thesis
    by (intro exI [where x = ?y3] exI [where x = c2]) simp
qed

text \<open>The first client publishes, the server forwards, and the second client polls the message.\<close>

lemma example_steps:
  "\<exists>y y1 y2 y3. sys_reachable Little (\<lambda>_. Little) y \<and> sys_step Little (\<lambda>_. Little) y y1 \<and>
     sys_step Little (\<lambda>_. Little) y1 y2 \<and> sys_step Little (\<lambda>_. Little) y2 y3 \<and>
     (\<forall>z \<in> {y, y1, y2, y3}. sessions (sy_server z) = [(1, {}), (2, {1}), (9, {})] \<and> sy_clients z 2 \<noteq> None) \<and>
     served y = [] \<and> got y = (\<lambda>_. []) \<and> down y = (\<lambda>_. []) \<and>
     down y3 2 = [] \<and> pub y3 1 = [(1, [7])] \<and> served y3 = [(1, 1, [7])] \<and>
     got y3 2 = [\<lparr>fm_topic_key = 1, fm_topic = ''t'', fm_payload = [7]\<rparr>]"
proof -
  obtain y c where r: "sys_reachable Little (\<lambda>_. Little) y"
    and rdy: "ready \<lparr>b_names = [''t''], b_sessions = [(1, {}), (2, {1}), (9, {})]\<rparr> (drop 5 run_events_example) (sy_server y)"
    and y: "sy_clients y = [1 \<mapsto> example_client, 2 \<mapsto> c]" "c_inverse_topic_map c = [1 \<mapsto> ''t'']"
      "up y = (\<lambda>_. [])" "down y = (\<lambda>_. [])" "pub y = (\<lambda>_. [])" "served y = []" "got y = (\<lambda>_. [])"
    using example_subscribed by blast
  let ?d = "fst (construct_publish Little Constructor_ctor 1 [7] Origin_client)"
  let ?c1 = "publish_key Little 1 [7] example_client"
  let ?y1 = "y\<lparr>sy_clients := [1 \<mapsto> ?c1, 2 \<mapsto> c], up := (\<lambda>_. [])(1 := [?d]), pub := (\<lambda>_. [])(1 := [(1, [7])])\<rparr>"
  have r1: "sys_step Little (\<lambda>_. Little) y ?y1"
    using sys_step.publish_by_key [of y 1 example_client "\<lambda>_. Little" 1 "[7]", OF _ refl, of Little] y
    by (simp add: fun_upd_twist del: construct_simp)
  let ?b = "\<lparr>b_names = [''t''], b_sessions = [(1, {}), (2, {1}), (9, {})]\<rparr>"
  let ?ev = "ENET_EVENT_TYPE_RECEIVE 1 \<lparr>packet_ptr = 0, packet_data = ?d\<rparr>"
  let ?f = "reply_bytes Little (Fanout_of 1 [7])"
  from rdy have "ready ?b ([?ev] @ []) (sy_server y)"
    by (simp add: run_events_example_def del: construct_simp)
  then obtain s where s: "bus_process Little [?ev] (sy_server y) = (Inr (), s)" "ready ?b [?ev] (sy_server y)"
    "ready (snd (broker_run (map (broker_event_of Little) [?ev]) ?b)) [] s"
    "new_sends (enet_calls (sy_server y)) (enet_calls s) = on_wire Little (fst (broker_run (map (broker_event_of Little) [?ev]) ?b))"
    by (rule server_turn)
  have run: "broker_run (map (broker_event_of Little) [?ev]) ?b = ([(2, Fanout_of 1 [7])], ?b)"
    by (simp add: request_of_publish del: construct_simp)
  let ?y2 = "?y1\<lparr>sy_server := s, up := (\<lambda>_. []), down := (\<lambda>q. if q = 2 then [?f] else []), served := [(1, 1, [7])]\<rparr>"
  have r2: "sys_step Little (\<lambda>_. Little) ?y1 ?y2"
    using sys_step.serve [of ?y1 1 ?d "[]" ?b 0 Little s] s run y
    by (simp add: request_of_publish published_by_def fun_upd_idem on_wire_def if_distrib cong: if_cong
        del: construct_simp reply_bytes.simps)
  let ?m = "\<lparr>fm_topic_key = 1, fm_topic = ''t'', fm_payload = [7]\<rparr>"
  obtain c2 where c2: "poll Little (Some (ENET_EVENT_TYPE_RECEIVE 30 \<lparr>packet_ptr = 0, packet_data = ?f\<rparr>)) c = (Inr (Some ?m), c2)"
    using y(2) by (simp add: poll_result poll_answer_def)
  have "sessions (sy_server y) = b_sessions ?b" "sessions s = b_sessions ?b"
    using s(2,3) run by (simp_all add: ready_def bus_abs_def)
  moreover have "\<exists>y3. sys_step Little (\<lambda>_. Little) ?y2 y3 \<and> got y3 2 = [?m] \<and> pub y3 = pub ?y2 \<and> served y3 = served ?y2 \<and>
      down y3 2 = [] \<and> sy_server y3 = s \<and> sy_clients y3 2 \<noteq> None"
    using sys_step.poll [of ?y2 2 c ?f "[]" "\<lambda>_. Little" 30 0 "Some ?m" c2 Little] c2 y
    by (intro exI conjI) (auto simp del: reply_bytes.simps)
  then obtain y3 where "sys_step Little (\<lambda>_. Little) ?y2 y3" "got y3 2 = [?m]" "pub y3 = pub ?y2" "served y3 = served ?y2"
    "down y3 2 = []" "sy_server y3 = s" "sy_clients y3 2 \<noteq> None" by blast
  ultimately show ?thesis
    using r r1 r2 y(1,4,6,7)
    by (intro exI [where x = y] exI [where x = ?y1] exI [where x = ?y2] exI [where x = y3]) simp
qed

lemma example_delivered:
  "\<exists>y. sys_reachable Little (\<lambda>_. Little) y \<and> pub y 1 = [(1, [7])] \<and> served y = [(1, 1, [7])] \<and>
     got y 2 = [\<lparr>fm_topic_key = 1, fm_topic = ''t'', fm_payload = [7]\<rparr>]"
  using example_steps by (blast intro: sys_reachable.step)

end
