(* ===== verification/Delivery.thy ===== *)
theory Delivery
  imports System
begin

text \<open>
  Complete delivery. \<open>System\<close> shows that nothing is invented, duplicated or reordered; here, that nothing is missing:
  while a client stays connected after its subscription to a key was processed, the messages of that key that it has
  polled, followed by those on their way to it, are exactly those it had before, followed by the messages of the key that other clients
  published and the server processed since, in the server's order.
\<close>

section \<open>A client that stays connected\<close>

definition connected :: "ENetPeer \<Rightarrow> system \<Rightarrow> bool" where
  "connected p y \<longleftrightarrow> p \<in> set (connected_peers (sy_server y)) \<and> sy_clients y p \<noteq> None"

inductive sys_while :: "endian \<Rightarrow> (ENetPeer \<Rightarrow> endian) \<Rightarrow> ENetPeer \<Rightarrow> system \<Rightarrow> system \<Rightarrow> bool" for eS ec p where
  stay: "connected p y \<Longrightarrow> sys_while eS ec p y y"
| step: "\<lbrakk>sys_while eS ec p y y'; sys_step eS ec y' y''; connected p y''\<rbrakk> \<Longrightarrow> sys_while eS ec p y y''"

definition subscribed_at :: "ENetPeer \<Rightarrow> u64 \<Rightarrow> system \<Rightarrow> bool" where
  "subscribed_at p k y \<longleftrightarrow> (\<exists>S. (p, S) \<in> set (sessions (sy_server y)) \<and> k \<in> S)"

text \<open>The messages of a key among what a client polled and what is on its way to it.\<close>

definition arriving :: "endian \<Rightarrow> bytes \<Rightarrow> (u64 \<times> bytes) list" where
  "arriving e d =
     (case packet_view e d of
        Inl _ \<Rightarrow> []
      | Inr (t, _, k, m) \<Rightarrow> if t = Type_fanout then [(k, m)] else [])"

definition inbox :: "endian \<Rightarrow> ENetPeer \<Rightarrow> u64 \<Rightarrow> system \<Rightarrow> (u64 \<times> bytes) list" where
  "inbox eS p k y =
     filter (\<lambda>x. fst x = k) (map content (got y p) @ concat (map (arriving eS) (down y p)))"

definition from_others :: "ENetPeer \<Rightarrow> u64 \<Rightarrow> (ENetPeer \<times> u64 \<times> bytes) list \<Rightarrow> (u64 \<times> bytes) list" where
  "from_others p k xs = map snd (filter (\<lambda>(q, k', m). q \<noteq> p \<and> k' = k) xs)"

lemma from_others_simps [simp]:
  "from_others p k [] = []" "from_others p k (xs @ ys) = from_others p k xs @ from_others p k ys"
  by (simp_all add: from_others_def)

lemma arriving_wire [simp]: "arriving e (wire eS x) = [snd x]"
  by (simp add: arriving_def wire_def)

lemma subscribed_ready: "ready b events (sy_server y) \<Longrightarrow> subscribed_at p k y \<longleftrightarrow> subscribed p k b"
  by (simp add: subscribed_at_def subscribed_def ready_def bus_abs_def)

lemma subscribed_peer: "subscribed_at p k y \<Longrightarrow> p \<in> set (connected_peers (sy_server y))"
  by (force simp: subscribed_at_def simp flip: sessions_peers)

text \<open>What the server's steps leave of a subscription.\<close>

lemma subscribed_server_step:
  assumes "ready b events (sy_server y)" and "bus_process eS events (sy_server y) = (Inr (), sy_server y')"
    and "subscribed_at p k y" and "\<forall>ev \<in> set events. keeps p k (broker_event_of eS ev)"
  shows "subscribed_at p k y'"
proof -
  have "subscribed p k (snd (broker_run (map (broker_event_of eS) events) b))"
    using subscribed_run [of p k b] assms(1,3,4) subscribed_ready by simp
  with server_step(1) [OF assms(1,2)] show ?thesis
    by (simp add: subscribed_at_def subscribed_def bus_abs_def)
qed

lemma ready_not_subscribed:
  "\<lbrakk>ready b (ENET_EVENT_TYPE_CONNECT q # events) (sy_server y); subscribed_at p k y\<rbrakk> \<Longrightarrow> q \<noteq> p"
  using subscribed_peer by (auto simp: ready_def)

section \<open>One step\<close>

definition advances :: "endian \<Rightarrow> ENetPeer \<Rightarrow> u64 \<Rightarrow> system \<Rightarrow> system \<Rightarrow> bool" where
  "advances eS p k y y' \<longleftrightarrow> subscribed_at p k y' \<and>
     (\<exists>new. served y' = served y @ new \<and> inbox eS p k y' = inbox eS p k y @ from_others p k new)"

lemma advances_quiet:
  assumes "subscribed_at p k y'" and "served y' = served y" and "got y' p = got y p" and "down y' p = down y p"
  shows "advances eS p k y y'"
  using assms by (simp add: advances_def inbox_def)

lemma advances_serve:
  assumes "ready b [ENET_EVENT_TYPE_RECEIVE q d] (sy_server y)"
    and s: "bus_process eS [ENET_EVENT_TYPE_RECEIVE q d] (sy_server y) = (Inr (), sy_server y')"
    and op: "q = p \<longrightarrow> is_op (request_of eS (packet_data d))" and "subscribed_at p k y"
    and y': "got y' = got y" "served y' = served y @ published_by q (request_of eS (packet_data d))"
      "down y' p = down y p @ map snd (filter (\<lambda>x. fst x = p) (new_sends (enet_calls (sy_server y)) (enet_calls (sy_server y'))))"
  shows "advances eS p k y y'"
proof -
  let ?r = "request_of eS (packet_data d)"
  have "subscribed_at p k y'"
    using op by (intro subscribed_server_step [OF assms(1) s assms(4)]) (cases ?r; simp)
  moreover have "filter (\<lambda>x. fst x = k) (concat (map (arriving eS) (map snd (filter (\<lambda>x. fst x = p)
      (new_sends (enet_calls (sy_server y)) (enet_calls (sy_server y'))))))) = from_others p k (published_by q ?r)"
  proof (cases ?r)
    case (Publish k' m)
    have dist: "distinct (map fst (b_sessions b))"
      using assms(1) sessions_distinct [of "sy_server y"] by (simp add: ready_def bus_abs_def)
    have sub: "subscribed p k b" using assms(1,4) subscribed_ready by blast
    have "new_sends (enet_calls (sy_server y)) (enet_calls (sy_server y')) = on_wire eS (fst (broker_step (Request q ?r) b))"
      using server_step(2) [OF assms(1) s] by (simp add: case_prod_beta)
    with fanout_for_peer [OF dist, of p eS q k' m] sub Publish show ?thesis
      using arriving_wire [of eS eS "(q, k', m)"]
      by (auto simp: from_others_def published_by_def wire_def simp del: reply_bytes.simps arriving_wire broker_step.simps)
  qed (use op server_step(2) [OF assms(1) s] in \<open>auto simp: on_wire_def from_others_def published_by_def Let_def\<close>)
  ultimately show ?thesis
    using y' by (auto simp: advances_def inbox_def)
qed


text \<open>Polling moves the first packet on its way to the messages polled.\<close>

lemma advances_poll:
  assumes "down_inv eS y" and "sy_clients y q \<noteq> None" and "down y q = d # rest"
    and "poll e (Some (ENET_EVENT_TYPE_RECEIVE r \<lparr>packet_ptr = x, packet_data = d\<rparr>)) c = (Inr m, c')"
    and "down y' = (down y)(q := rest)" and "served y' = served y" and "sy_server y' = sy_server y"
    and "got y' = (got y)(q := got y q @ (case m of None \<Rightarrow> [] | Some m \<Rightarrow> [m]))" and "subscribed_at p k y"
  shows "advances eS p k y y'"
proof -
  from assms(1,2) obtain zs where "down y q = map (wire eS) zs" unfolding down_inv_def flows_def by blast
  with assms(3) obtain z where z: "d = wire eS z" by (cases zs) auto
  with wire_polled assms(4) have "\<exists>f. m = Some f \<and> content f = snd z" by blast
  with assms z show ?thesis
    by (auto simp: advances_def inbox_def subscribed_at_def)
qed

lemma sys_step_advances:
  assumes inv: "sys_inv eS y" and "sys_step eS ec y y'" and sub: "subscribed_at p k y"
    and conn: "connected p y" "connected p y'"
  shows "advances eS p k y y'"
  using assms(2)
proof cases
  case (connect res host port c calls b q s)
  moreover have "subscribed_at p k y'"
    using connect sub by (intro subscribed_server_step [of b "[ENET_EVENT_TYPE_CONNECT q]" y eS y']) simp_all
  ultimately show ?thesis using ready_not_subscribed [OF _ sub] by (intro advances_quiet) auto
next
  case (foreign_connect b q s)
  moreover have "subscribed_at p k y'"
    using foreign_connect sub by (intro subscribed_server_step [of b "[ENET_EVENT_TYPE_CONNECT q]" y eS y']) simp_all
  ultimately show ?thesis using ready_not_subscribed [OF _ sub] by (intro advances_quiet) auto
next
  case (disconnect b q s)
  with conn have q: "q \<noteq> p" by (auto simp: connected_def)
  moreover have "subscribed_at p k y'"
    using disconnect sub q by (intro subscribed_server_step [of b "[ENET_EVENT_TYPE_DISCONNECT q]" y eS y']) simp_all
  ultimately show ?thesis using disconnect by (intro advances_quiet) simp_all
next
  case (ask events q x e topic b s)
  moreover have "subscribed_at p k y'"
    using ask sub
    by (intro subscribed_server_step [of b events y eS y']) (simp_all add: request_of_topic_request del: construct_simp)
  ultimately show ?thesis using ready_not_subscribed [OF _ sub] by (intro advances_quiet) auto
next
  case (serve q d rest b x s)
  have "q = p \<longrightarrow> is_op (request_of eS d)"
    using inv conn(1) serve(2) unfolding sys_inv_def up_inv_def connected_def by (metis list.set_intros(1))
  with serve sub show ?thesis
    by (intro advances_serve [of b q "\<lparr>packet_ptr = x, packet_data = d\<rparr>" y eS y']) simp_all
next
  case (poll q c d rest r x m c')
  with inv sub show ?thesis
    by (intro advances_poll [of eS y q d rest "ec q" r x c m c']) (simp_all add: sys_inv_def)
qed (use sub in \<open>auto simp: subscribed_at_def intro!: advances_quiet\<close>)

lemma sys_while_reachable: "\<lbrakk>sys_while eS ec p y y'; sys_reachable eS ec y\<rbrakk> \<Longrightarrow> sys_reachable eS ec y'"
  by (induction rule: sys_while.induct) (auto intro: sys_reachable.step)

lemma sys_while_advances:
  "\<lbrakk>sys_while eS ec p y y'; sys_reachable eS ec y; subscribed_at p k y\<rbrakk> \<Longrightarrow> advances eS p k y y'"
proof (induction rule: sys_while.induct)
  case (stay y)
  then show ?case by (intro advances_quiet) simp_all
next
  case (step y y' y'')
  then have adv: "advances eS p k y y'" by blast
  then have "subscribed_at p k y'" by (simp add: advances_def)
  moreover have "connected p y'" using step.hyps(1) by (cases rule: sys_while.cases) simp_all
  ultimately have "advances eS p k y' y''"
    using step sys_while_reachable sys_reachable_inv by (intro sys_step_advances) blast+
  with adv show ?case by (auto simp: advances_def)
qed

section \<open>Properties\<close>

text \<open>C3: Complete and exactly-once delivery: from any moment at which a client is subscribed to a key, and as long as it stays connected, under
  any interleaving with all other clients and peers, what it has polled of the key together with what is on its way to it is what it was at
  that moment, followed by every message of the key that another peer published and the server processed since, once each and in the
  server's order. When nothing is on its way any more, it has polled exactly these.\<close>

theorem delivery_complete:
  assumes "sys_reachable eS ec y" and "subscribed_at p k y" and "sys_while eS ec p y y'"
  shows "subscribed_at p k y' \<and> (\<exists>new. served y' = served y @ new \<and>
    inbox eS p k y' = inbox eS p k y @ from_others p k new \<and>
    (down y' p = [] \<longrightarrow>
      filter (\<lambda>x. fst x = k) (map content (got y' p)) = inbox eS p k y @ from_others p k new))"
proof -
  from sys_while_advances [OF assms(3,1,2)] obtain new where "subscribed_at p k y'"
    "served y' = served y @ new" "inbox eS p k y' = inbox eS p k y @ from_others p k new"
    by (auto simp: advances_def)
  then show ?thesis by (auto simp: inbox_def)
qed


theorem delivery_complete_witness:
  "\<exists>y y'. sys_reachable Little (\<lambda>_. Little) y \<and> sys_while Little (\<lambda>_. Little) 2 y y' \<and>
     served y' = [(1, 1, [7])] \<and> filter (\<lambda>x. fst x = 1) (map content (got y' 2)) = from_others 2 1 (served y')"
proof -
  obtain y y1 y2 y3 where r: "sys_reachable Little (\<lambda>_. Little) y"
    and steps: "sys_step Little (\<lambda>_. Little) y y1" "sys_step Little (\<lambda>_. Little) y1 y2" "sys_step Little (\<lambda>_. Little) y2 y3"
    and ss: "\<forall>z \<in> {y, y1, y2, y3}. sessions (sy_server z) = [(1, {}), (2, {1}), (9, {})] \<and> sy_clients z 2 \<noteq> None"
    and y: "served y = []" "got y = (\<lambda>_. [])" "down y = (\<lambda>_. [])" "down y3 2 = []" "served y3 = [(1, 1, [7])]"
    using example_steps by blast
  have conn: "connected 2 z" if "z \<in> {y, y1, y2, y3}" for z
    using ss that by (simp add: connected_def flip: sessions_peers) auto
  have sub: "subscribed_at 2 1 y" using ss by (simp add: subscribed_at_def)
  have run: "sys_while Little (\<lambda>_. Little) 2 y y3"
    using steps conn by (meson insertI1 insertI2 sys_while.stay sys_while.step)
  have "inbox Little 2 1 y = []" using y(2,3) by (simp add: inbox_def)
  with delivery_complete [OF r sub run] y(1,4)
  have "filter (\<lambda>x. fst x = 1) (map content (got y3 2)) = from_others 2 1 (served y3)" by auto
  with r run y(5) show ?thesis by blast
qed

end
