(* ===== verification/Async_System.thy ===== *)
theory Async_System
  imports Async_Client Delivery
begin

text \<open>
  Asyncio clients on the bus: any number of \<^verbatim>\<open>AsyncClient\<close> objects of \<open>Async_Client\<close>, whose worker threads own native clients that are
  connected to the server of \<open>System\<close>, next to other clients and peers. A step of the whole is a step of the server or of another peer,
  or one step of an asyncio client; where its worker calls the native client, the call acts on the system, and the events it
  is given are those the system has for it.

  \<open>link\<close> holds the connection of each live worker, \<open>conn\<close> remembers it after it ended. The whole refines \<open>System\<close>, and each client is a
  run of \<open>Async_Client\<close>, so the results on both carry over; together they give the order and origin of what \<^verbatim>\<open>recv\<close> returns.

  Coroutines are taken to close a client one at a time: with concurrent calls of \<^verbatim>\<open>close\<close> a late one can detach the worker of
  a newer session, as shown at the end of this theory.
\<close>

section \<open>One worker at a time\<close>

definition session_inv :: "'u async_client \<Rightarrow> bool" where
  "session_inv s \<longleftrightarrow>
     length (closing s) \<le> 1 \<and> (\<forall>c \<in> set (closing s). a_thread s = Some (snd c)) \<and>
     (\<forall>t. is_alive s t \<longrightarrow> a_thread s = Some t) \<and>
     (\<forall>t. a_thread s = Some t \<longrightarrow> (\<exists>q. t = Suc (Suc q) \<and> a_messages s = Some q))"

lemma session_init: "session_inv (AsyncClient_init host port)"
  by (simp add: session_inv_def AsyncClient_init_def is_alive_def)

lemma alive_cong: "workers s' = workers s \<Longrightarrow> is_alive s' = is_alive s"
  by (simp add: is_alive_def fun_eq_iff)

lemma session_same:
  assumes "session_inv s" and "closing s' = closing s" and "a_thread s' = a_thread s" and "a_messages s' = a_messages s"
    and "\<And>t. is_alive s' t \<Longrightarrow> is_alive s t"
  shows "session_inv s'"
  using assms unfolding session_inv_def by auto

lemma session_connect:
  assumes "async_connect s = (f, s')" and inv: "session_inv s"
  shows "session_inv s'"
proof (cases "a_thread s")
  case None
  with inv have "closing s = []" and dead: "\<And>t. \<not> is_alive s t" by (cases "closing s"; force simp: session_inv_def)+
  moreover have "w_pc w = Finished" if "workers s t = Some w" for t w
    using dead [of t] that by (simp add: is_alive_def)
  ultimately show ?thesis
    using None assms(1)
    by (auto simp: session_inv_def async_connect_def Let_def is_alive_def split: if_splits option.splits)
qed (use assms in \<open>simp add: async_connect_def\<close>)

lemma session_close:
  assumes close: "async_close s = (r, s')" and inv: "session_inv s" and one: "closing s = []"
  shows "session_inv s'"
proof (cases "a_thread s")
  case None
  with close inv show ?thesis by (auto simp: async_close_def session_inv_def is_alive_def)
next
  case (Some t)
  show ?thesis
  proof (cases "is_alive s t")
    case True
    with Some close have "workers s' = workers s \<and> a_thread s' = a_thread s \<and> a_messages s' = a_messages s \<and>
        (closing s' = closing s \<or> (\<exists>f. closing s' = closing s @ [(f, t)]))"
      by (auto simp: async_close_def put_command_def Let_def split: sum.splits)
    with inv one Some alive_cong [of s' s] show ?thesis by (auto simp: session_inv_def)
  next
    case False
    with inv Some have "\<not> is_alive s u" for u by (auto simp: session_inv_def)
    moreover have "s' = s\<lparr>a_thread := None, a_closed := True\<rparr>" using Some False close by (simp add: async_close_def)
    ultimately show ?thesis using one alive_cong [of s' s] by (simp add: session_inv_def)
  qed
qed

lemma session_closing: "\<lbrakk>session_inv s; c \<in> set (closing s)\<rbrakk> \<Longrightarrow> closing s = [c] \<and> a_thread s = Some (snd c)"
  by (cases "closing s"; force simp: session_inv_def)

lemma session_closed:
  assumes "c \<in> set (closing s)" and inv: "session_inv s"
    and ended: "\<forall>v. futures s (fst c) = Done (Inr v) \<longrightarrow> \<not> is_alive s (snd c)"
  shows "session_inv (close_resume c s)"
proof (cases "\<exists>v. futures s (fst c) = Done (Inr v)")
  case True
  note a = session_closing [OF inv assms(1)]
  from True ended have "\<not> is_alive s (snd c)" by blast
  with inv a have "\<not> is_alive s t" for t by (auto simp: session_inv_def)
  with True a show ?thesis by (auto simp: close_resume_def session_inv_def is_alive_def Let_def)
next
  case False
  with session_closing [OF inv assms(1)] inv show ?thesis
    by (auto simp: close_resume_def session_inv_def is_alive_def Let_def split: future_state.splits sum.splits)
qed

lemma session_step:
  assumes "async_step e py s l s'" and inv: "session_inv s" and one: "l = Close \<longrightarrow> closing s = []"
  shows "session_inv s'"
  using assms(1)
proof (cases rule: async_step.cases)
  case (connect f)
  from connect(2) inv show ?thesis by (rule session_connect)
next
  case (close r)
  with one have "closing s = []" by simp
  with close(2) inv show ?thesis by (rule session_close)
next
  case (closed c)
  from session_closed [OF closed(3) inv closed(5)] closed(2) show ?thesis by simp
next
  case (cancel_close c v)
  from session_closing [OF inv this(3)] cancel_close inv show ?thesis by (auto simp: session_inv_def is_alive_def)
next
  case (call r x)
  with inv show ?thesis
    by (intro session_same [OF inv])
      (auto simp: async_call_def put_command_def is_alive_def Let_def split: sum.splits prod.splits)
next
  case (recv x)
  with inv show ?thesis by (intro session_same [OF inv]) (auto simp: async_recv_def is_alive_def split: sum.splits)
next
  case (received q x)
  then show ?thesis
    by (intro session_same [OF inv]; cases "hd (queues s q)") (auto simp: recv_resume_def is_alive_def)
next
  case (callback cb rest)
  then show ?thesis
    by (intro session_same [OF inv]; cases cb) (auto simp: is_alive_def split: future_state.splits)
next
  case (work t w inp)
  note same = worker_step_frame [OF work(3)]
  have "is_alive s u" if "is_alive s' u" for u
    using that same work(2) by (cases "u = t") (auto simp: is_alive_def)
  with same show ?thesis by (intro session_same [OF inv]) simp_all
qed (use inv in \<open>auto simp: session_inv_def is_alive_def\<close>)

section \<open>The whole\<close>

text \<open>What a call of the native client does to the system: \<open>c\<close> is the client, connected as peer \<open>p\<close>.\<close>

definition looked_up :: "ENetPeer \<Rightarrow> bus_client \<Rightarrow> system \<Rightarrow> system" where
  "looked_up p c y = y\<lparr>sy_clients := (sy_clients y)(p \<mapsto> c)\<rparr>"

definition sent :: "ENetPeer \<Rightarrow> bus_client \<Rightarrow> bus_client \<Rightarrow> (u64 \<times> bytes) list \<Rightarrow> system \<Rightarrow> system" where
  "sent p c1 c2 ms y =
     y\<lparr>sy_clients := (sy_clients y)(p \<mapsto> c2),
       up := (up y)(p := up y p @ map snd (new_sends (c_calls c1) (c_calls c2))),
       pub := (pub y)(p := pub y p @ ms)\<rparr>"

fun call_effect ::
    "endian \<Rightarrow> 'u py_text \<Rightarrow> topic_lookup \<Rightarrow> 'u request_kind \<Rightarrow> ENetPeer \<Rightarrow> bus_client \<Rightarrow> system \<Rightarrow> system" where
  "call_effect e py net (Publish_request topic payload) p c y =
     (case to_utf8 py topic of
        None \<Rightarrow> y
      | Some name \<Rightarrow>
          (case get_topic_key e net name c of
             (Inl _, c1) \<Rightarrow> looked_up p c1 y
           | (Inr k, c1) \<Rightarrow> sent p c1 (snd (publish e net name (byte_span payload) c)) [(k, byte_span payload)] y))"
| "call_effect e py net (Subscribe_request topic) p c y =
     (case to_utf8 py topic of
        None \<Rightarrow> y
      | Some name \<Rightarrow>
          (case get_topic_key e net name c of
             (Inl _, c1) \<Rightarrow> looked_up p c1 y
           | (Inr _, c1) \<Rightarrow> sent p c1 (snd (subscribe e net name c)) [] y))"
| "call_effect e py net (Key_request topic) p c y =
     (case to_utf8 py topic of
        None \<Rightarrow> y
      | Some name \<Rightarrow> looked_up p (snd (get_topic_key e net name c)) y)"
| "call_effect e py net _ p c y = y"

text \<open>The topic a call looks up, and that a lookup only succeeds with an answer the server gave to this topic.\<close>

fun call_topic :: "'u py_text \<Rightarrow> 'u request_kind \<Rightarrow> string option" where
  "call_topic py (Publish_request topic _) = to_utf8 py topic"
| "call_topic py (Subscribe_request topic) = to_utf8 py topic"
| "call_topic py (Key_request topic) = to_utf8 py topic"
| "call_topic py _ = None"

definition server_answers :: "endian \<Rightarrow> topic_lookup \<Rightarrow> string option \<Rightarrow> bus_client \<Rightarrow> system \<Rightarrow> bool" where
  "server_answers e net topic c y \<longleftrightarrow>
     (\<forall>name k c'. topic = Some name \<and> c_topic_map c name = None \<and> get_topic_key e net name c = (Inr k, c') \<longrightarrow>
        (\<exists>r x d. (name, d) \<in> set (answers y) \<and>
           tl_recv net = Some (ENET_EVENT_TYPE_RECEIVE r \<lparr>packet_ptr = x, packet_data = d\<rparr>)))"

text \<open>What a poll does to the system, for the events that the connection can report.\<close>

fun reportable :: "ENetEvent option \<Rightarrow> bytes list \<Rightarrow> bool" where
  "reportable None ds = True"
| "reportable (Some (ENET_EVENT_TYPE_DISCONNECT r)) ds = True"
| "reportable (Some (ENET_EVENT_TYPE_RECEIVE r packet)) ds = (ds \<noteq> [] \<and> packet_data packet = hd ds)"
| "reportable (Some _) ds = False"

definition poll_effect :: "endian \<Rightarrow> ENetEvent option \<Rightarrow> ENetPeer \<Rightarrow> bus_client \<Rightarrow> system \<Rightarrow> system" where
  "poll_effect e event p c y =
     (case poll e event c of
        (r, c') \<Rightarrow>
          (case event of
             Some (ENET_EVENT_TYPE_RECEIVE _ _) \<Rightarrow>
               y\<lparr>sy_clients := (sy_clients y)(p \<mapsto> c'), down := (down y)(p := tl (down y p)),
                 got := (got y)(p := got y p @ (case r of Inr (Some m) \<Rightarrow> [m] | _ \<Rightarrow> []))\<rparr>
           | _ \<Rightarrow> looked_up p c' y))"

record 'u async_system =
  shared :: system
  loops :: "nat \<Rightarrow> 'u async_client"
  link :: "nat \<Rightarrow> nat \<rightharpoonup> ENetPeer"
  conn :: "nat \<Rightarrow> nat \<rightharpoonup> ENetPeer"

text \<open>Labels of steps that do not call the native client.\<close>

fun local_label :: "'u async_label \<Rightarrow> bool" where
  "local_label (Work t Nothing) = True"
| "local_label (Work t _) = False"
| "local_label _ = True"

definition worker_client :: "'u async_client \<Rightarrow> nat \<Rightarrow> bus_client option" where
  "worker_client s t = (case workers s t of None \<Rightarrow> None | Some w \<Rightarrow> w_client w)"

text \<open>A worker that drops its native client leaves its connection.\<close>

definition unlink :: "'u async_client \<Rightarrow> (nat \<rightharpoonup> ENetPeer) \<Rightarrow> nat \<rightharpoonup> ENetPeer" where
  "unlink s m t = (if worker_client s t = None then None else m t)"

inductive joint_step ::
    "endian \<Rightarrow> (ENetPeer \<Rightarrow> endian) \<Rightarrow> (nat \<Rightarrow> endian) \<Rightarrow> 'u py_text \<Rightarrow> 'u async_system \<Rightarrow> 'u async_system \<Rightarrow> bool"
  for eS ec ce py where
  others: "\<lbrakk>sys_step eS ec (shared x) y;
     \<And>i t p. link x i t = Some p \<Longrightarrow> sy_clients y p = sy_clients (shared x) p \<and> got y p = got (shared x) p\<rbrakk> \<Longrightarrow>
   joint_step eS ec ce py x (x\<lparr>shared := y\<rparr>)"
| dropped: "\<lbrakk>link x i t = Some p; ready b [ENET_EVENT_TYPE_DISCONNECT p] (sy_server (shared x));
     bus_process eS [ENET_EVENT_TYPE_DISCONNECT p] (sy_server (shared x)) = (Inr (), s)\<rbrakk> \<Longrightarrow>
   joint_step eS ec ce py x (x\<lparr>shared := (shared x)\<lparr>sy_server := s, sy_clients := (sy_clients (shared x))(p := None),
       up := (up (shared x))(p := []), down := (down (shared x))(p := [])\<rparr>,
     link := (link x)(i := (link x i)(t := None))\<rparr>)"
| local: "\<lbrakk>async_step (ce i) py (loops x i) l s'; local_label l; l = Close \<longrightarrow> closing (loops x i) = []\<rbrakk> \<Longrightarrow>
   joint_step eS ec ce py x (x\<lparr>loops := (loops x)(i := s'), link := (link x)(i := unlink s' (link x i))\<rparr>)"
| create_fails: "\<lbrakk>async_step (ce i) py (loops x i) (Work t (Created result res once_done)) s'; worker_client s' t = None\<rbrakk> \<Longrightarrow>
   joint_step eS ec ce py x (x\<lparr>loops := (loops x)(i := s')\<rparr>)"
| created: "\<lbrakk>async_step (ce i) py (loops x i) (Work t (Created result res once_done)) s'; worker_client s' t = Some c;
     ec p = ce i; ready b [ENET_EVENT_TYPE_CONNECT p] (sy_server (shared x));
     bus_process eS [ENET_EVENT_TYPE_CONNECT p] (sy_server (shared x)) = (Inr (), s)\<rbrakk> \<Longrightarrow>
   joint_step eS ec ce py x (x\<lparr>shared := (shared x)\<lparr>sy_server := s, sy_clients := (sy_clients (shared x))(p \<mapsto> c),
       up := (up (shared x))(p := []), down := (down (shared x))(p := [])\<rparr>,
     loops := (loops x)(i := s'), link := (link x)(i := (link x i)(t \<mapsto> p)), conn := (conn x)(i := (conn x i)(t \<mapsto> p))\<rparr>)"
| handled: "\<lbrakk>async_step (ce i) py (loops x i) (Work t (Answered net)) s'; link x i t = Some p;
     workers (loops x i) t = Some \<lparr>w_pc = Handling command, w_client = Some c\<rparr>;
     server_answers (ce i) net (call_topic py (cmd_request command)) c (shared x)\<rbrakk> \<Longrightarrow>
   joint_step eS ec ce py x (x\<lparr>shared := call_effect (ce i) py net (cmd_request command) p c (shared x), loops := (loops x)(i := s')\<rparr>)"
| handled_cut: "\<lbrakk>async_step (ce i) py (loops x i) (Work t (Answered net)) s'; link x i t = None\<rbrakk> \<Longrightarrow>
   joint_step eS ec ce py x (x\<lparr>loops := (loops x)(i := s')\<rparr>)"
| polls: "\<lbrakk>async_step (ce i) py (loops x i) (Work t (Reported event)) s'; link x i t = Some p;
     worker_client (loops x i) t = Some c; reportable event (down (shared x) p)\<rbrakk> \<Longrightarrow>
   joint_step eS ec ce py x (x\<lparr>shared := poll_effect (ce i) event p c (shared x), loops := (loops x)(i := s')\<rparr>)"
| polls_cut: "\<lbrakk>async_step (ce i) py (loops x i) (Work t (Reported event)) s'; link x i t = None; reportable event []\<rbrakk> \<Longrightarrow>
   joint_step eS ec ce py x (x\<lparr>loops := (loops x)(i := s')\<rparr>)"

definition joint_start :: "bus_server \<Rightarrow> (nat \<Rightarrow> 'u) \<Rightarrow> (nat \<Rightarrow> int) \<Rightarrow> 'u async_system" where
  "joint_start s host port = \<lparr>shared = sys_start s, loops = (\<lambda>i. AsyncClient_init (host i) (port i)),
     link = (\<lambda>_. Map.empty), conn = (\<lambda>_. Map.empty)\<rparr>"

inductive joint_reachable ::
    "endian \<Rightarrow> (ENetPeer \<Rightarrow> endian) \<Rightarrow> (nat \<Rightarrow> endian) \<Rightarrow> 'u py_text \<Rightarrow> (nat \<Rightarrow> 'u) \<Rightarrow> (nat \<Rightarrow> int) \<Rightarrow> 'u async_system \<Rightarrow> bool"
  for eS ec ce py host port where
  start: "fst (bus_server_ctor quill sport shost lg) = Inr s \<Longrightarrow> joint_reachable eS ec ce py host port (joint_start s host port)"
| step: "\<lbrakk>joint_reachable eS ec ce py host port x; joint_step eS ec ce py x x'\<rbrakk> \<Longrightarrow> joint_reachable eS ec ce py host port x'"

section \<open>Clients are connected\<close>

lemma peer_stays_step:
  "\<lbrakk>p \<in> fst ` set (b_sessions b) \<or> ev = Join p; ev \<noteq> Leave p\<rbrakk> \<Longrightarrow> p \<in> fst ` set (b_sessions (snd (broker_step ev b)))"
  by (induction ev b rule: broker_step.induct) (force simp: change_subs_def Let_def)+

lemma peer_stays_run:
  "\<lbrakk>p \<in> fst ` set (b_sessions b) \<or> Join p \<in> set evs; Leave p \<notin> set evs\<rbrakk> \<Longrightarrow>
     p \<in> fst ` set (b_sessions (snd (broker_run evs b)))"
proof (induction evs arbitrary: b)
  case (Cons ev evs)
  then have "p \<in> fst ` set (b_sessions (snd (broker_step ev b))) \<or> Join p \<in> set evs"
    using peer_stays_step [of p b ev] by auto
  with Cons show ?case by (simp add: case_prod_beta)
qed simp

lemma peer_stays:
  assumes "ready b events s" and "bus_process eS events s = (Inr (), s')"
    and "p \<in> set (connected_peers s) \<or> ENET_EVENT_TYPE_CONNECT p \<in> set events"
    and "ENET_EVENT_TYPE_DISCONNECT p \<notin> set events"
  shows "p \<in> set (connected_peers s')"
proof -
  have peers: "set (connected_peers z) = fst ` set (sessions z)" for z
    using sessions_peers [of z] by (metis set_map)
  have "b_sessions b = sessions s" using assms(1) by (simp add: ready_def bus_abs_def)
  moreover have "Join p \<in> set (map (broker_event_of eS) events)" if "ENET_EVENT_TYPE_CONNECT p \<in> set events"
    using that by force
  moreover have "Leave p \<noteq> broker_event_of eS ev" if "ev \<in> set events" for ev
    using that assms(4) by - (cases ev, auto)
  ultimately have "p \<in> fst ` set (b_sessions (snd (broker_run (map (broker_event_of eS) events) b)))"
    using assms(3) peers by (intro peer_stays_run) auto
  with server_step(1) [OF assms(1,2)] peers show ?thesis by (simp add: bus_abs_def)
qed

lemma client_connected: "sys_reachable eS ec y \<Longrightarrow> sy_clients y p \<noteq> None \<Longrightarrow> p \<in> set (connected_peers (sy_server y))"
proof (induction rule: sys_reachable.induct)
  case (step y y')
  from step.hyps(2) show ?case
  proof cases
    case (connect res host port c calls b q s)
    with step have "p \<in> set (connected_peers s)" by (intro peer_stays [OF connect(3,4)]) (auto split: if_splits)
    with connect show ?thesis by simp
  next
    case (foreign_connect b q s)
    with step have "p \<in> set (connected_peers s)" by (intro peer_stays [OF foreign_connect(2,3)]) (auto split: if_splits)
    with foreign_connect show ?thesis by simp
  next
    case (disconnect b q s)
    with step have "p \<in> set (connected_peers s)" by (intro peer_stays [OF disconnect(2,3)]) (auto split: if_splits)
    with disconnect show ?thesis by simp
  next
    case (ask events q x e topic b s)
    with step have "p \<in> set (connected_peers s)" by (intro peer_stays [OF ask(3,4)]) (auto split: if_splits)
    with ask show ?thesis by simp
  next
    case (serve q d rest b x s)
    with step have "p \<in> set (connected_peers s)" by (intro peer_stays [OF serve(3,4)]) auto
    with serve show ?thesis by simp
  qed (use step in \<open>auto split: if_splits\<close>)
qed (simp add: sys_start_def)

section \<open>Native calls are steps of the system\<close>

lemma subscribe_after_lookup:
  assumes "get_topic_key e net topic c = (Inr k, c1)" and "c_topic_map c1 topic = Some k"
  shows "subscribe e net topic c = subscribe e net' topic c1"
  using assms by (simp add: subscribe_def get_topic_key_cached)

text \<open>A successful lookup answered by the server leaves the topic in the cache, and is a step or none.\<close>

lemma lookup_step:
  assumes r: "sys_reachable eS ec y" and c: "sy_clients y p = Some c"
    and g: "get_topic_key (ec p) net name c = (Inr k, c1)" and a: "server_answers (ec p) net (Some name) c y"
  shows "(sys_step eS ec)\<^sup>*\<^sup>* y (looked_up p c1 y) \<and> c_topic_map c1 name = Some k"
proof (cases "c_topic_map c name")
  case None
  with a g obtain r' x d where d: "(name, d) \<in> set (answers y)"
    and net: "tl_recv net = Some (ENET_EVENT_TYPE_RECEIVE r' \<lparr>packet_ptr = x, packet_data = d\<rparr>)"
    unfolding server_answers_def by blast
  have "sys_step eS ec y (looked_up p c1 y)"
    unfolding looked_up_def by (rule sys_step.resolve) (fact c d net g)+
  moreover from r d obtain k' where "d = fst (construct_topic_response eS Constructor_ctor k' name Origin_server)"
    using sys_reachable_inv unfolding sys_inv_def names_inv_def by blast
  with net have "lookup_answer (ec p) net = Inr (name, k')" by (simp add: lookup_answer_def del: construct_simp)
  with None g have "c_topic_map c1 name = Some k"
    by (auto simp: get_topic_key_uncached Let_def packet_factory_defs split: prod.splits sum.splits)
  ultimately show ?thesis by blast
next
  case (Some k')
  with g c show ?thesis by (auto simp: get_topic_key_cached looked_up_def fun_upd_idem)
qed

lemma publish_effect:
  assumes "sys_reachable eS ec y" and "sy_clients y p = Some c" and "server_answers (ec p) net (Some name) c y"
    and g: "get_topic_key (ec p) net name c = (Inr k, c1)"
  shows "(sys_step eS ec)\<^sup>*\<^sup>* y (sent p c1 (snd (publish (ec p) net name m c)) [(k, m)] y)"
proof -
  have "sys_step eS ec (looked_up p c1 y) (sent p c1 (publish_key (ec p) k m c1) [(k, m)] y)"
    using sys_step.publish_by_key [of "looked_up p c1 y" p c1 ec k m, OF _ refl] by (simp add: looked_up_def sent_def)
  with lookup_step [OF assms(1,2) g assms(3)] g show ?thesis
    by (auto simp: publish_after_lookup)
qed

lemma subscribe_effect:
  assumes "sys_reachable eS ec y" and "sy_clients y p = Some c" and "server_answers (ec p) net (Some name) c y"
    and g: "get_topic_key (ec p) net name c = (Inr k, c1)"
  shows "(sys_step eS ec)\<^sup>*\<^sup>* y (sent p c1 (snd (subscribe (ec p) net name c)) [] y)"
proof -
  note l = lookup_step [OF assms(1,2) g assms(3)]
  obtain c2 where c2: "subscribe (ec p) net name c1 = (Inr (), c2)"
    using l by (simp add: subscribe_def get_topic_key_cached case_prod_beta)
  have "sys_step eS ec (looked_up p c1 y) (sent p c1 c2 [] y)"
    using sys_step.subscribe_by_name [of "looked_up p c1 y" p c1 name k ec net c2] l c2 by (simp add: looked_up_def sent_def)
  with l subscribe_after_lookup [OF g] c2 show ?thesis by fastforce
qed

lemma call_effect_steps:
  assumes "sys_reachable eS ec y" and c: "sy_clients y p = Some c"
    and "server_answers (ec p) net (call_topic py r) c y"
  shows "(sys_step eS ec)\<^sup>*\<^sup>* y (call_effect (ec p) py net r p c y)"
proof -
  have fails: "(sys_step eS ec)\<^sup>*\<^sup>* y (looked_up p c1 y)" if "get_topic_key (ec p) net name c = (Inl err, c1)" for name err c1
    unfolding looked_up_def by (rule r_into_rtranclp, rule sys_step.lookup_fails) (fact c that)+
  have looks: "(sys_step eS ec)\<^sup>*\<^sup>* y (looked_up p (snd (get_topic_key (ec p) net name c)) y)"
    if "server_answers (ec p) net (Some name) c y" for name
    using fails lookup_step [OF assms(1,2) _ that] by (cases "get_topic_key (ec p) net name c"; cases "fst (get_topic_key (ec p) net name c)") auto
  show ?thesis
    using assms fails looks publish_effect [OF assms(1,2)] subscribe_effect [OF assms(1,2)]
    by (cases r) (auto split: option.split prod.split sum.split)
qed

lemma call_effect_frame:
  "got (call_effect e py net r p c y) = got y"
  "q \<noteq> p \<Longrightarrow> sy_clients (call_effect e py net r p c y) q = sy_clients y q"
  by (cases r; simp add: looked_up_def sent_def split: option.split prod.split sum.split)+

lemma call_effect_client:
  "sy_clients y p = Some c \<Longrightarrow> sy_clients (call_effect e py net r p c y) p = Some (snd (native_call e py net r c))"
  by (cases r) (auto simp: looked_up_def sent_def py_publish_def py_subscribe_def py_get_topic_key_def
      publish_after_lookup subscribe_def Let_def case_prod_beta split: option.split prod.split sum.split)

lemma poll_wire:
  "poll e (Some (ENET_EVENT_TYPE_RECEIVE r \<lparr>packet_ptr = x, packet_data = wire eS z\<rparr>)) c = (Inl err, c') \<Longrightarrow> False"
  by (cases z) (auto simp: poll_result poll_answer_def wire_def)

lemma poll_effect_step:
  assumes r: "sys_reachable eS ec y" and c: "sy_clients y p = Some c" and "reportable event (down y p)"
  shows "sys_step eS ec y (poll_effect (ec p) event p c y)"
proof (cases event)
  case None
  obtain m c' where m: "poll (ec p) event c = (m, c')" by fastforce
  with None sys_step.poll_nothing [where y = y and p = p and ec = ec, OF c _ m] show ?thesis
    by (simp add: poll_effect_def looked_up_def)
next
  case (Some ev)
  show ?thesis
  proof (cases ev)
    case (ENET_EVENT_TYPE_DISCONNECT q)
    obtain m c' where m: "poll (ec p) event c = (m, c')" by fastforce
    with Some ENET_EVENT_TYPE_DISCONNECT sys_step.poll_nothing [where y = y and p = p and ec = ec, OF c _ m] show ?thesis
      by (simp add: poll_effect_def looked_up_def)
  next
    case (ENET_EVENT_TYPE_RECEIVE q packet)
    obtain x d where packet: "packet = \<lparr>packet_ptr = x, packet_data = d\<rparr>" by (cases packet)
    with ENET_EVENT_TYPE_RECEIVE Some assms(3) obtain rest where down: "down y p = d # rest"
      by (cases "down y p") auto
    from sys_reachable_inv [OF r] c obtain zs where "down y p = map (wire eS) zs"
      unfolding sys_inv_def down_inv_def flows_def by blast
    with down have "d \<in> wire eS ` set zs" by (metis list.set_intros(1) list.set_map)
    then obtain z where z: "d = wire eS z" by blast
    obtain m c' where m: "poll (ec p) (Some (ENET_EVENT_TYPE_RECEIVE q packet)) c = (Inr m, c')"
      by (cases "poll (ec p) (Some (ENET_EVENT_TYPE_RECEIVE q packet)) c"; cases "fst (poll (ec p) (Some (ENET_EVENT_TYPE_RECEIVE q packet)) c)")
        (auto simp: packet z dest: poll_wire)
    have "sys_step eS ec y (y\<lparr>sy_clients := (sy_clients y)(p \<mapsto> c'), down := (down y)(p := rest),
        got := (got y)(p := got y p @ (case m of None \<Rightarrow> [] | Some m \<Rightarrow> [m]))\<rparr>)"
      by (rule sys_step.poll [OF c down]) (use m packet in simp)
    with Some ENET_EVENT_TYPE_RECEIVE down m show ?thesis by (cases m) (simp_all add: poll_effect_def)
  qed (use Some assms(3) in simp_all)
qed

section \<open>What the steps of an asyncio client change\<close>

definition posting :: "'u async_client \<Rightarrow> nat \<Rightarrow> bool" where
  "posting s t =
     (case workers s t of
        None \<Rightarrow> False
      | Some w \<Rightarrow> (case w_pc w of Waiting \<Rightarrow> True | Handling _ \<Rightarrow> True | Polling \<Rightarrow> True | _ \<Rightarrow> False))"

lemmas worker_part_defs =
  run_start_def run_next_def handle_command_def poll_messages_def fail_pending_def set_pc_def complete_def
  call_soon_def post_message_def publish_worker_error_def Let_def

lemma polled_step:
  assumes "async_step e py s l s'" and "\<And>t event. l \<noteq> Work t (Reported event)"
  shows "polled s' = polled s"
  using assms(1)
proof (cases rule: async_step.cases)
  case (received q x)
  then show ?thesis by (cases "hd (queues s q)") (auto simp: recv_resume_def)
next
  case (callback cb rest)
  then show ?thesis by (cases cb) (auto split: future_state.splits)
next
  case (work t w inp)
  with assms(2) show ?thesis
    by (cases "(e, py, inp, t, w_pc w, w_client w, s)" rule: worker_step.cases)
      (auto simp: worker_part_defs split: sum.splits prod.splits list.splits option.splits)
qed (auto simp: async_connect_def async_close_def async_call_def async_recv_def put_command_def close_resume_def Let_def
    split: if_splits option.splits sum.splits prod.splits future_state.splits)

text \<open>A step that does not call the native client leaves every worker its client, or drops it, and starts no posting.\<close>

lemma local_step:
  assumes "async_step e py s l s'" and "local_label l"
  shows "worker_client s' t = Some c \<Longrightarrow> worker_client s t = Some c" and "posting s' t \<Longrightarrow> posting s t"
proof -
  have "(worker_client s' t = Some c \<longrightarrow> worker_client s t = Some c) \<and> (posting s' t \<longrightarrow> posting s t)"
    using assms(1)
  proof (cases rule: async_step.cases)
    case (received q x)
    then show ?thesis by (cases "hd (queues s q)") (auto simp: recv_resume_def worker_client_def posting_def)
  next
    case (callback cb rest)
    then show ?thesis by (cases cb) (auto simp: worker_client_def posting_def split: future_state.splits)
  next
    case (work u w inp)
    with assms(2) have "inp = Nothing" by (cases inp) simp_all
    with work show ?thesis
      by (cases "(e, py, inp, u, w_pc w, w_client w, s)" rule: worker_step.cases)
        (auto simp: worker_part_defs worker_client_def posting_def split: list.splits option.splits if_splits)
  qed (auto simp: async_connect_def async_close_def async_call_def async_recv_def put_command_def close_resume_def Let_def
      worker_client_def posting_def split: if_splits option.splits sum.splits prod.splits future_state.splits)
  then show "worker_client s' t = Some c \<Longrightarrow> worker_client s t = Some c" and "posting s' t \<Longrightarrow> posting s t" by blast+
qed

text \<open>The other steps concern one worker, which is alive; the session's queue follows from its number.\<close>

lemma work_step:
  assumes "async_step e py s (Work t inp) s'"
  obtains w where "workers s t = Some w" and "worker_step e py inp t (w_pc w) (w_client w) s = Some s'" and "is_alive s t"
    and "\<And>u. u \<noteq> t \<Longrightarrow> workers s' u = workers s u"
  using assms
proof (cases rule: async_step.cases)
  case (work w)
  with worker_step_frame [OF work(2)] show thesis by (intro that [of w]) (simp_all add: is_alive_def)
qed

lemma answered_step:
  assumes "async_step e py s (Work t (Answered net)) s'"
  obtains command c where "workers s t = Some \<lparr>w_pc = Handling command, w_client = Some c\<rparr>"
    and "workers s' = (workers s)(t \<mapsto> \<lparr>w_pc = Polling, w_client = Some (snd (native_call e py net (cmd_request command) c))\<rparr>)"
proof (rule work_step [OF assms])
  fix w
  assume w: "workers s t = Some w" "worker_step e py (Answered net) t (w_pc w) (w_client w) s = Some s'"
  obtain pc cl where "w = \<lparr>w_pc = pc, w_client = cl\<rparr>" by (cases w)
  with w show thesis
    by (cases "(e, py, Answered net, t, pc, cl, s)" rule: worker_step.cases)
      (auto simp: handle_command_def set_pc_def complete_def call_soon_def case_prod_beta split: option.splits intro!: that)
qed

lemma answered_posting: "async_step e py s (Work t (Answered net)) s' \<Longrightarrow> posting s' u \<Longrightarrow> posting s u"
  by (erule answered_step) (auto simp: posting_def split: if_splits)

lemma reported_step:
  assumes "async_step e py s (Work t (Reported event)) s'"
  obtains c where "workers s t = Some \<lparr>w_pc = Polling, w_client = Some c\<rparr>"
    and "worker_client s' t = Some (snd (poll e event c))"
    and "\<And>u. u \<noteq> t \<Longrightarrow> workers s' u = workers s u" and "is_alive s t"
    and "\<And>m. fst (poll e event c) = Inr (Some m) \<Longrightarrow>
      (case message_of py m of
         Inl _ \<Rightarrow> polled s' = polled s \<and> \<not> posting s' t
       | Inr msg \<Rightarrow> \<forall>q. a_messages s = Some q \<longrightarrow> polled s' = (polled s)(q := polled s q @ [msg]))"
    and "\<forall>m. fst (poll e event c) \<noteq> Inr (Some m) \<Longrightarrow> polled s' = polled s"
proof (rule work_step [OF assms])
  fix w
  assume w: "workers s t = Some w" "worker_step e py (Reported event) t (w_pc w) (w_client w) s = Some s'"
    and alive: "is_alive s t" and frame: "\<And>u. u \<noteq> t \<Longrightarrow> workers s' u = workers s u"
  obtain pc cl where [simp]: "w = \<lparr>w_pc = pc, w_client = cl\<rparr>" by (cases w)
  from w obtain c where c: "pc = Polling" "cl = Some c" and s': "s' = poll_messages e py event t c s"
    by (cases "(e, py, Reported event, t, pc, cl, s)" rule: worker_step.cases) auto
  show thesis
  proof (rule that)
    show "workers s t = Some \<lparr>w_pc = Polling, w_client = Some c\<rparr>" using w c by simp
    show "worker_client s' t = Some (snd (poll e event c))"
      by (auto simp: s' poll_messages_def py_poll_def set_pc_def worker_client_def split: prod.split sum.split option.split)
  qed (use alive frame in \<open>auto simp: s' poll_messages_def py_poll_def set_pc_def posting_def post_message_def call_soon_def
      split: prod.splits sum.splits option.splits\<close>)
qed

definition started :: "'u async_client \<Rightarrow> nat \<Rightarrow> bool" where
  "started s t = (case workers s t of None \<Rightarrow> False | Some w \<Rightarrow> w_pc w \<noteq> Starting)"

lemma created_step:
  assumes "async_step e py s (Work t (Created result res once_done)) s'"
  obtains w where "workers s t = Some w" and "w_pc w = Starting" and "polled s' = polled s" and "started s' t"
    and "\<And>u. u \<noteq> t \<Longrightarrow> workers s' u = workers s u" and "is_alive s t"
    and "\<And>c. worker_client s' t = Some c \<Longrightarrow> \<exists>host port calls. bus_client_ctor res host port = (Inr c, calls)"
proof (rule work_step [OF assms])
  fix w
  assume w: "workers s t = Some w" "worker_step e py (Created result res once_done) t (w_pc w) (w_client w) s = Some s'"
    and alive: "is_alive s t" and frame: "\<And>u. u \<noteq> t \<Longrightarrow> workers s' u = workers s u"
  then have pc: "w_pc w = Starting" and s': "s' = run_start t (native_init py result res once_done s) s"
    by (cases "(e, py, Created result res once_done, t, w_pc w, w_client w, s)" rule: worker_step.cases; simp)+
  show thesis
  proof (rule that)
    show "\<exists>host port calls. bus_client_ctor res host port = (Inr c, calls)" if "worker_client s' t = Some c" for c
      using that
      by (auto simp: s' run_start_def set_pc_def worker_client_def native_init_def py_client_init_def
          split: sum.splits if_splits option.splits prod.splits elim!: raised.elims)
    show "polled s' = polled s" and "started s' t"
      by (simp_all add: s' run_start_def set_pc_def complete_def call_soon_def started_def split: sum.split option.split)
  qed (use w pc alive frame in auto)
qed

lemma started_step: "\<lbrakk>async_step e py s l s'; fresh_inv s; started s t\<rbrakk> \<Longrightarrow> started s' t"
proof -
  assume step: "async_step e py s l s'" and fresh: "fresh_inv s" and st: "started s t"
  from step show "started s' t"
  proof (cases rule: async_step.cases)
    case (connect f)
    have "workers s (Suc (Suc (next_id s))) = None" using fresh by (simp add: fresh_inv_def)
    with connect st show ?thesis by (auto simp: async_connect_def started_def Let_def split: if_splits option.splits)
  next
    case (received q x)
    with st show ?thesis by (cases "hd (queues s q)") (auto simp: recv_resume_def started_def)
  next
    case (callback cb rest)
    with st show ?thesis by (cases cb) (auto simp: started_def split: future_state.splits)
  next
    case (work u w inp)
    with st show ?thesis
      by (cases "(e, py, inp, u, w_pc w, w_client w, s)" rule: worker_step.cases)
        (auto simp: worker_part_defs started_def split: sum.splits prod.splits list.splits option.splits if_splits)
  qed (use st in \<open>auto simp: async_close_def async_call_def async_recv_def put_command_def close_resume_def Let_def
      started_def split: if_splits option.splits sum.splits prod.splits future_state.splits\<close>)
qed

section \<open>The whole refines its parts\<close>

definition link_inv :: "(ENetPeer \<Rightarrow> endian) \<Rightarrow> (nat \<Rightarrow> endian) \<Rightarrow> 'u async_system \<Rightarrow> bool" where
  "link_inv ec ce x \<longleftrightarrow>
     (\<forall>i t p. link x i t = Some p \<longrightarrow> conn x i t = Some p \<and> ec p = ce i \<and>
        worker_client (loops x i) t \<noteq> None \<and> worker_client (loops x i) t = sy_clients (shared x) p) \<and>
     (\<forall>i t j u p. link x i t = Some p \<and> link x j u = Some p \<longrightarrow> i = j \<and> t = u) \<and>
     (\<forall>i t. conn x i t \<noteq> None \<longrightarrow> started (loops x i) t)"

lemma link_invD:
  assumes "link_inv ec ce x" and "link x i t = Some p"
  shows "conn x i t = Some p" and "ec p = ce i" and "worker_client (loops x i) t = sy_clients (shared x) p"
    and "sy_clients (shared x) p \<noteq> None"
  using assms unfolding link_inv_def by metis+

lemma link_inject: "\<lbrakk>link_inv ec ce x; link x i t = Some p; link x j u = Some p\<rbrakk> \<Longrightarrow> i = j \<and> t = u"
  unfolding link_inv_def by blast

text \<open>The parts of the state as the steps change them.\<close>

lemma joint_shared:
  assumes "joint_step eS ec ce py x x'" and r: "sys_reachable eS ec (shared x)" and link: "link_inv ec ce x"
  shows "(sys_step eS ec)\<^sup>*\<^sup>* (shared x) (shared x')"
  using assms(1)
proof (cases rule: joint_step.cases)
  case (dropped i t p b s)
  with sys_step.disconnect [OF dropped(3,4)] show ?thesis by auto
next
  case (created i t result res once_done s' c p b s)
  from created_step [OF created(2)] created(3) obtain host port calls where "bus_client_ctor res host port = (Inr c, calls)"
    by metis
  from sys_step.connect [OF this created(5,6)] created(1) show ?thesis by auto
next
  case (handled i t net s' p command c)
  with link_invD [OF link handled(3)] have "sy_clients (shared x) p = Some c" "ec p = ce i"
    by (simp_all add: worker_client_def)
  with call_effect_steps [OF r, of p c net py "cmd_request command"] handled show ?thesis by simp
next
  case (polls i t event s' p c)
  with link_invD [OF link polls(3)] have "sy_clients (shared x) p = Some c" "ec p = ce i"
    by simp_all
  with poll_effect_step [OF r, of p c event] polls show ?thesis by auto
qed auto

lemma joint_loops:
  assumes "joint_step eS ec ce py x x'"
  shows "loops x' i = loops x i \<or>
    (\<exists>l. async_step (ce i) py (loops x i) l (loops x' i) \<and> (l = Close \<longrightarrow> closing (loops x i) = []))"
  using assms by (cases rule: joint_step.cases) (auto simp: fun_upd_apply)

lemma reachable_steps: "\<lbrakk>(sys_step eS ec)\<^sup>*\<^sup>* y y'; sys_reachable eS ec y\<rbrakk> \<Longrightarrow> sys_reachable eS ec y'"
  by (induction rule: rtranclp_induct) (auto intro: sys_reachable.step)

lemma link_inv_mono:
  assumes inv: "link_inv ec ce x" and "conn x' = conn x"
    and "\<And>i t. started (loops x i) t \<Longrightarrow> started (loops x' i) t"
    and "\<And>i t p. link x' i t = Some p \<Longrightarrow> link x i t = Some p"
    and "\<And>i t p. link x' i t = Some p \<Longrightarrow>
      worker_client (loops x' i) t = sy_clients (shared x') p \<and> sy_clients (shared x') p \<noteq> None"
  shows "link_inv ec ce x'"
  unfolding link_inv_def
proof (intro conjI allI impI)
  fix i t p
  assume l: "link x' i t = Some p"
  from assms(4) [OF this] show "conn x' i t = Some p" "ec p = ce i"
    using link_invD(1,2) [OF inv, of i t p] assms(2) by simp_all
  from assms(5) [OF l] show "worker_client (loops x' i) t \<noteq> None" "worker_client (loops x' i) t = sy_clients (shared x') p"
    by simp_all
next
  fix i t j u p
  assume "link x' i t = Some p \<and> link x' j u = Some p"
  then show "i = j" "t = u" using assms(4) link_inject [OF inv] by blast+
next
  fix i t
  assume "conn x' i t \<noteq> None"
  then have "started (loops x i) t" using inv assms(2) unfolding link_inv_def by auto
  then show "started (loops x' i) t" by (rule assms(3))
qed

lemma starting_unlinked:
  assumes "link_inv ec ce x" and "workers (loops x i) t = Some w" and "w_pc w = Starting"
  shows "link x i t = None" and "conn x i t = None"
proof -
  have "\<not> started (loops x i) t" using assms(2,3) by (simp add: started_def)
  then show "conn x i t = None" using assms(1) unfolding link_inv_def by blast
  then show "link x i t = None" using link_invD(1) [OF assms(1)] by (cases "link x i t") auto
qed

lemma connecting_unlinked:
  assumes "link_inv ec ce x" and "sys_reachable eS ec (shared x)" and "ready b [ENET_EVENT_TYPE_CONNECT p] (sy_server (shared x))"
  shows "link x i t \<noteq> Some p"
  using link_invD(4) [OF assms(1), of i t p] client_connected [OF assms(2), of p] assms(3) by (auto simp: ready_def)

text \<open>A step of one worker.\<close>

lemma link_inv_one:
  assumes inv: "link_inv ec ce x" and "conn x' = conn x" and "link x' = link x"
    and st: "\<And>j u. started (loops x j) u \<Longrightarrow> started (loops x' j) u"
    and loops: "loops x' = (loops x)(i := s')" "\<And>u. u \<noteq> t \<Longrightarrow> workers s' u = workers (loops x i) u"
    and others: "\<And>q. link x i t \<noteq> Some q \<Longrightarrow> sy_clients (shared x') q = sy_clients (shared x) q"
    and own: "\<And>q. link x i t = Some q \<Longrightarrow>
      worker_client s' t = sy_clients (shared x') q \<and> sy_clients (shared x') q \<noteq> None"
  shows "link_inv ec ce x'"
proof (rule link_inv_mono [OF inv assms(2) st])
  fix j u q
  assume l: "link x' j u = Some q"
  show "link x j u = Some q" using l assms(3) by simp
  show "worker_client (loops x' j) u = sy_clients (shared x') q \<and> sy_clients (shared x') q \<noteq> None"
  proof (cases "j = i \<and> u = t")
    case True
    with own [of q] l assms(3) loops(1) show ?thesis by simp
  next
    case False
    with l assms(3) link_inject [OF inv] have "link x i t \<noteq> Some q" by fastforce
    moreover have "worker_client (loops x' j) u = worker_client (loops x j) u"
      using False loops by (auto simp: worker_client_def)
    ultimately show ?thesis using l assms(3) others link_invD(3,4) [OF inv, of j u q] by simp
  qed
qed assumption

lemma created_link:
  assumes inv: "link_inv ec ce x" and st: "\<And>j u. started (loops x j) u \<Longrightarrow> started (loops x' j) u"
    and w: "started s' t" "\<And>u. u \<noteq> t \<Longrightarrow> workers s' u = workers (loops x i) u"
    and new: "\<And>j u. link x j u \<noteq> Some p" and "ec p = ce i" and "worker_client s' t = Some c"
    and x': "loops x' = (loops x)(i := s')" "link x' = (link x)(i := (link x i)(t \<mapsto> p))"
      "conn x' = (conn x)(i := (conn x i)(t \<mapsto> p))" "sy_clients (shared x') = (sy_clients (shared x))(p \<mapsto> c)"
  shows "link_inv ec ce x'"
  unfolding link_inv_def
proof (intro conjI allI impI)
  fix j u q
  assume l: "link x' j u = Some q"
  consider "j = i" "u = t" "q = p" | "\<not> (j = i \<and> u = t)" "link x j u = Some q" "q \<noteq> p"
    using l x'(2) new by (auto split: if_splits)
  then have "conn x' j u = Some q \<and> ec q = ce j \<and> worker_client (loops x' j) u \<noteq> None \<and>
      worker_client (loops x' j) u = sy_clients (shared x') q"
  proof cases
    case 1
    with assms show ?thesis by simp
  next
    case 2
    then have "worker_client (loops x' j) u = worker_client (loops x j) u" "conn x' j u = conn x j u"
      using x' w(2) by (auto simp: worker_client_def)
    with 2 x'(4) link_invD [OF inv 2(2)] show ?thesis by simp
  qed
  then show "conn x' j u = Some q" "ec q = ce j" "worker_client (loops x' j) u \<noteq> None"
    "worker_client (loops x' j) u = sy_clients (shared x') q" by blast+
next
  fix j u k v q
  assume "link x' j u = Some q \<and> link x' k v = Some q"
  then show "j = k" "u = v" using x'(2) new link_inject [OF inv] by (auto split: if_splits)
next
  fix j u
  assume "conn x' j u \<noteq> None"
  then consider "j = i" "u = t" | "conn x j u \<noteq> None" using x'(3) by (auto split: if_splits)
  then show "started (loops x' j) u"
  proof cases
    case 2
    then have "started (loops x j) u" using inv unfolding link_inv_def by blast
    then show ?thesis by (rule st)
  qed (use x'(1) w(1) in simp)
qed

text \<open>A step that only loses links.\<close>

lemma link_inv_shrink:
  assumes inv: "link_inv ec ce x" and "conn x' = conn x" and st: "\<And>j u. started (loops x j) u \<Longrightarrow> started (loops x' j) u"
    and kept: "\<And>j u q. link x' j u = Some q \<Longrightarrow>
      link x j u = Some q \<and> worker_client (loops x' j) u = worker_client (loops x j) u \<and> sy_clients (shared x') q = sy_clients (shared x) q"
  shows "link_inv ec ce x'"
proof (rule link_inv_mono [OF inv assms(2) st])
  fix i t p
  assume "link x' i t = Some p"
  note kept [OF this]
  then show "link x i t = Some p" "worker_client (loops x' i) t = sy_clients (shared x') p \<and> sy_clients (shared x') p \<noteq> None"
    using link_invD(3,4) [OF inv, of i t p] by simp_all
qed assumption

lemma dropped_links:
  assumes "link_inv ec ce x" and "link x i t = Some p" and "((link x)(i := (link x i)(t := None))) j u = Some q"
  shows "link x j u = Some q \<and> q \<noteq> p"
proof -
  have "link x j u = Some q" "\<not> (j = i \<and> u = t)" using assms(3) by (auto split: if_splits)
  with link_inject [OF assms(1,2)] show ?thesis by blast
qed

lemma local_links:
  assumes "async_step (ce i) py (loops x i) l s'" and "local_label l" and "((link x)(i := unlink s' (link x i))) j u = Some q"
  shows "link x j u = Some q \<and> worker_client (((loops x)(i := s')) j) u = worker_client (loops x j) u"
proof (cases "j = i")
  case True
  with assms(3) have "link x i u = Some q" "worker_client s' u \<noteq> None" by (auto simp: unlink_def split: if_splits)
  with local_step(1) [OF assms(1,2), of u] True show ?thesis by auto
qed (use assms(3) in simp)

lemma handled_client:
  assumes "async_step (ce i) py (loops x i) (Work t (Answered net)) s'"
    and "workers (loops x i) t = Some \<lparr>w_pc = Handling command, w_client = Some c\<rparr>"
  shows "workers s' = (workers (loops x i))(t \<mapsto> \<lparr>w_pc = Polling, w_client = Some (snd (native_call (ce i) py net (cmd_request command) c))\<rparr>)"
  by (rule answered_step [OF assms(1)]) (use assms(2) in simp)

lemma polled_client:
  assumes "async_step (ce i) py (loops x i) (Work t (Reported event)) s'" and "worker_client (loops x i) t = Some c"
  shows "worker_client s' t = Some (snd (poll (ce i) event c))"
  by (rule reported_step [OF assms(1)]) (use assms(2) in \<open>simp add: worker_client_def\<close>)

lemma joint_link:
  assumes step: "joint_step eS ec ce py x x'" and r: "sys_reachable eS ec (shared x)" and inv: "link_inv ec ce x"
    and fresh: "\<And>i. fresh_inv (loops x i)"
  shows "link_inv ec ce x'"
proof -
  have st: "started (loops x' i) t" if "started (loops x i) t" for i t
    using joint_loops [OF step, of i] started_step [OF _ fresh that] that by auto
  from step show ?thesis
  proof (cases rule: joint_step.cases)
    case (others y)
    with link_invD [OF inv] show ?thesis by (intro link_inv_mono [OF inv _ st]) simp_all
  next
    case (dropped i t p b s)
    with dropped_links [OF inv dropped(2)] show ?thesis by (intro link_inv_shrink [OF inv _ st]) auto
  next
    case (local i l s')
    with local_links [where ce = ce and i = i, OF local(2,3)] show ?thesis by (intro link_inv_shrink [OF inv _ st]) auto
  next
    case (create_fails i t result res once_done s')
    obtain w where w: "workers (loops x i) t = Some w" "w_pc w = Starting" "\<And>u. u \<noteq> t \<Longrightarrow> workers s' u = workers (loops x i) u"
      using created_step [OF create_fails(2)] by metis
    show ?thesis
      by (rule link_inv_one [OF inv _ _ st, of i s' t]) (use create_fails(1) w starting_unlinked(1) [OF inv w(1,2)] in auto)
  next
    case (created i t result res once_done s' c p b s)
    obtain w where w: "workers (loops x i) t = Some w" "started s' t" "\<And>u. u \<noteq> t \<Longrightarrow> workers s' u = workers (loops x i) u"
      using created_step [OF created(2)] by metis
    with created connecting_unlinked [OF inv r created(5)] show ?thesis
      by (intro created_link [OF inv st, of s' t i p c]) auto
  next
    case (handled i t net s' p command c)
    note w = handled_client [where ce = ce and i = i, OF handled(2,4)]
    have c: "sy_clients (shared x) p = Some c" using link_invD(3) [OF inv handled(3)] handled(4) by (simp add: worker_client_def)
    show ?thesis
      by (rule link_inv_one [OF inv _ _ st, of i s' t])
        (use handled(1,3) w in \<open>auto simp: call_effect_frame(2) worker_client_def call_effect_client [OF c]\<close>)
  next
    case (polls i t event s' p c)
    note w = polled_client [where ce = ce and i = i, OF polls(2)] work_step [OF polls(2)]
    show ?thesis
      by (rule link_inv_one [OF inv _ _ st, of i s' t])
        (use polls(1,3,4) w in \<open>auto simp: worker_client_def poll_effect_def looked_up_def case_prod_beta split: option.split ENetEvent.split\<close>)
  next
    case (handled_cut i t net s')
    with work_step [OF handled_cut(2)] show ?thesis by (intro link_inv_one [OF inv _ _ st, of i s' t]) auto
  next
    case (polls_cut i t event s')
    with work_step [OF polls_cut(2)] show ?thesis by (intro link_inv_one [OF inv _ _ st, of i s' t]) auto
  qed
qed

section \<open>From the connection to the session's queue\<close>

text \<open>
  The messages polled for a session are a piece of what was polled on its connection: the last piece as long as the
  connection lasts and the worker has not failed.
\<close>

definition piece :: "'u py_text \<Rightarrow> FanoutMessage list \<Rightarrow> 'u async_message list \<Rightarrow> bool \<Rightarrow> bool" where
  "piece py all ms fin \<longleftrightarrow>
     (\<exists>pre mid post. all = pre @ mid @ post \<and> map (message_of py) mid = map Inr ms \<and> (fin \<longrightarrow> post = []))"

lemma piece_grows: "\<lbrakk>piece py all ms fin; fin' \<longrightarrow> fin \<and> extra = []\<rbrakk> \<Longrightarrow> piece py (all @ extra) ms fin'"
  unfolding piece_def by (metis append.assoc append.right_neutral)

lemma piece_post: "\<lbrakk>piece py all ms True; message_of py m = Inr msg\<rbrakk> \<Longrightarrow> piece py (all @ [m]) (ms @ [msg]) fin"
  unfolding piece_def by (metis append.assoc append.right_neutral list.simps(8,9) map_append)

lemma piece_empty: "piece py all [] fin"
  unfolding piece_def by (intro exI [of _ all] exI [of _ "[]"]) simp

definition session_flow :: "'u py_text \<Rightarrow> 'u async_system \<Rightarrow> nat \<Rightarrow> nat \<Rightarrow> bool" where
  "session_flow py x i q \<longleftrightarrow>
     (case conn x i (Suc (Suc q)) of
        None \<Rightarrow> polled (loops x i) q = []
      | Some p \<Rightarrow> piece py (got (shared x) p) (polled (loops x i) q)
          (link x i (Suc (Suc q)) = Some p \<and> posting (loops x i) (Suc (Suc q))))"

lemma session_flow_same:
  assumes "session_flow py x i q" and "conn x' i (Suc (Suc q)) = conn x i (Suc (Suc q))"
    and "polled (loops x' i) q = polled (loops x i) q"
    and "\<And>p. conn x i (Suc (Suc q)) = Some p \<Longrightarrow> \<exists>extra. got (shared x') p = got (shared x) p @ extra \<and>
      (link x' i (Suc (Suc q)) = Some p \<and> posting (loops x' i) (Suc (Suc q)) \<longrightarrow>
        link x i (Suc (Suc q)) = Some p \<and> posting (loops x i) (Suc (Suc q)) \<and> extra = [])"
  shows "session_flow py x' i q"
proof (cases "conn x i (Suc (Suc q))")
  case (Some p)
  with assms(4) obtain extra where "got (shared x') p = got (shared x) p @ extra"
    and "link x' i (Suc (Suc q)) = Some p \<and> posting (loops x' i) (Suc (Suc q)) \<longrightarrow>
      (link x i (Suc (Suc q)) = Some p \<and> posting (loops x i) (Suc (Suc q))) \<and> extra = []" by blast
  with assms(1-3) Some show ?thesis by (auto simp: session_flow_def intro: piece_grows)
qed (use assms(1-3) in \<open>simp add: session_flow_def\<close>)

lemma got_grows: "sys_step eS ec y y' \<Longrightarrow> \<exists>extra. got y' p = got y p @ extra"
  by (cases rule: sys_step.cases) auto

text \<open>The effect of a poll on the histories.\<close>

lemma poll_effect_got:
  "q \<noteq> p \<Longrightarrow> got (poll_effect e event p c y) q = got y q"
  "got (poll_effect e event p c y) p = got y p @ (case fst (poll e event c) of Inr (Some m) \<Rightarrow> [m] | _ \<Rightarrow> [])"
  by (auto simp: poll_effect_def looked_up_def poll_result poll_answer_def split: option.split ENetEvent.split sum.split prod.split)

lemma polls_flow:
  assumes flow: "session_flow py x i q" and x': "x' = x\<lparr>shared := poll_effect (ce i) event p c (shared x), loops := (loops x)(i := s')\<rparr>"
    and l: "link x i (Suc (Suc q)) = Some p" "conn x i (Suc (Suc q)) = Some p"
    and w: "posting (loops x i) (Suc (Suc q))"
    and msg: "\<And>m. fst (poll (ce i) event c) = Inr (Some m) \<Longrightarrow>
      (case message_of py m of
         Inl _ \<Rightarrow> polled s' = polled (loops x i) \<and> \<not> posting s' (Suc (Suc q))
       | Inr msg \<Rightarrow> polled s' = (polled (loops x i))(q := polled (loops x i) q @ [msg]))"
    and none: "\<forall>m. fst (poll (ce i) event c) \<noteq> Inr (Some m) \<Longrightarrow> polled s' = polled (loops x i)"
  shows "session_flow py x' i q"
proof -
  let ?all = "got (shared x) p" and ?ms = "polled (loops x i) q"
  have old: "piece py ?all ?ms True" using flow l w by (simp add: session_flow_def)
  have "piece py (?all @ (case fst (poll (ce i) event c) of Inr (Some m) \<Rightarrow> [m] | _ \<Rightarrow> [])) (polled s' q) (posting s' (Suc (Suc q)))"
  proof (cases "\<exists>m. fst (poll (ce i) event c) = Inr (Some m)")
    case True
    then obtain m where m: "fst (poll (ce i) event c) = Inr (Some m)" ..
    show ?thesis
    proof (cases "message_of py m")
      case (Inl err)
      with msg [OF m] m piece_grows [OF old, of False "[m]"] show ?thesis by simp
    next
      case (Inr a)
      with msg [OF m] m piece_post [OF old Inr] show ?thesis by simp
    qed
  next
    case False
    then have "(case fst (poll (ce i) event c) of Inr (Some m) \<Rightarrow> [m] | _ \<Rightarrow> []) = []"
      by (auto split: sum.split option.split)
    with False none piece_grows [OF old, of "posting s' (Suc (Suc q))" "[]"] show ?thesis by simp
  qed
  then show ?thesis by (simp add: session_flow_def x' l poll_effect_got(2))
qed

text \<open>A poll of one session leaves the others alone.\<close>

lemma polls_flow_any:
  assumes flow: "\<And>i q. session_flow py x i q" and inv: "link_inv ec ce x" and session: "session_inv (loops x i)"
    and x': "x' = x\<lparr>shared := poll_effect (ce i) event p c (shared x), loops := (loops x)(i := s')\<rparr>"
    and step: "async_step (ce i) py (loops x i) (Work t (Reported event)) s'" and l: "link x i t = Some p"
    and c: "worker_client (loops x i) t = Some c"
  shows "session_flow py x' j n"
proof -
  let ?t = "Suc (Suc n)"
  obtain c' where w: "workers (loops x i) t = Some \<lparr>w_pc = Polling, w_client = Some c'\<rparr>" "is_alive (loops x i) t"
      "\<And>u. u \<noteq> t \<Longrightarrow> workers s' u = workers (loops x i) u"
    and msg: "\<And>m. fst (poll (ce i) event c') = Inr (Some m) \<Longrightarrow>
      (case message_of py m of
         Inl _ \<Rightarrow> polled s' = polled (loops x i) \<and> \<not> posting s' t
       | Inr msg \<Rightarrow> \<forall>q. a_messages (loops x i) = Some q \<longrightarrow> polled s' = (polled (loops x i))(q := polled (loops x i) q @ [msg]))"
    and none: "\<forall>m. fst (poll (ce i) event c') \<noteq> Inr (Some m) \<Longrightarrow> polled s' = polled (loops x i)"
    by (rule reported_step [OF step]) (rule that; simp)
  with c have [simp]: "c' = c" by (simp add: worker_client_def)
  obtain q where q: "t = Suc (Suc q)" "a_messages (loops x i) = Some q"
    using session w(2) unfolding session_inv_def by blast
  have rest: "polled s' m = polled (loops x i) m" if "m \<noteq> q" for m
    using msg none q(2) that by (cases "\<exists>m. fst (poll (ce i) event c) = Inr (Some m)") (auto split: sum.splits)
  show ?thesis
  proof (cases "j = i \<and> n = q")
    case True
    have "session_flow py x' i q"
      by (rule polls_flow [where i = i and ce = ce, OF flow x'])
        (use msg none q link_invD(1) [OF inv] l w(1) in \<open>auto simp: posting_def split: sum.splits\<close>)
    with True show ?thesis by simp
  next
    case False
    then have other: "link x j ?t \<noteq> Some p" using link_inject [OF inv l, of j ?t] q(1) by auto
    moreover have "posting (loops x' j) ?t = posting (loops x j) ?t" using False w(3) q(1) by (auto simp: x' posting_def)
    ultimately have "\<exists>extra. got (shared x') p' = got (shared x) p' @ extra \<and>
        (link x' j ?t = Some p' \<and> posting (loops x' j) ?t \<longrightarrow> link x j ?t = Some p' \<and> posting (loops x j) ?t \<and> extra = [])" for p'
      by (cases "p' = p") (auto simp: x' poll_effect_got)
    then show ?thesis
      by (intro session_flow_same [OF flow]) (use False rest in \<open>auto simp: x'\<close>)
  qed
qed

lemma created_flow:
  assumes flow: "\<And>i q. session_flow py x i q" and inv: "link_inv ec ce x"
    and step: "async_step (ce i) py (loops x i) (Work t (Created result res once_done)) s'"
    and x': "loops x' = (loops x)(i := s')" "link x' = (link x)(i := (link x i)(t \<mapsto> p))"
      "conn x' = (conn x)(i := (conn x i)(t \<mapsto> p))" "got (shared x') = got (shared x)"
  shows "session_flow py x' j n"
proof -
  obtain w where w: "workers (loops x i) t = Some w" "w_pc w = Starting" "polled s' = polled (loops x i)"
      "\<And>u. u \<noteq> t \<Longrightarrow> workers s' u = workers (loops x i) u"
    using created_step [OF step] by metis
  show ?thesis
  proof (cases "j = i \<and> Suc (Suc n) = t")
    case True
    with flow [of i n] starting_unlinked(2) [OF inv w(1,2)] have "polled (loops x i) n = []" by (simp add: session_flow_def)
    with True w(3) show ?thesis by (simp add: session_flow_def x' piece_empty)
  next
    case False
    show ?thesis
      by (rule session_flow_same [OF flow]) (use False w(3,4) in \<open>auto simp: x' posting_def\<close>)
  qed
qed

lemma joint_flow:
  assumes step: "joint_step eS ec ce py x x'" and r: "sys_reachable eS ec (shared x)" and inv: "link_inv ec ce x"
    and fresh: "\<And>i. fresh_inv (loops x i)" and session: "\<And>i. session_inv (loops x i)" and flow: "\<And>i q. session_flow py x i q"
  shows "session_flow py x' j n"
  using step
proof (cases rule: joint_step.cases)
  case (others y)
  have "\<exists>extra. got y p = got (shared x) p @ extra \<and> (link x j (Suc (Suc n)) = Some p \<longrightarrow> extra = [])" for p
    using got_grows [OF others(2), of p] others(3) [of j "Suc (Suc n)" p] by auto
  then show ?thesis by (intro session_flow_same [OF flow]) (auto simp: others(1))
next
  case (dropped i t p b s)
  show ?thesis by (rule session_flow_same [OF flow]) (auto simp: dropped(1) split: if_splits)
next
  case (local i l s')
  have "\<And>u event. l \<noteq> Work u (Reported event)" using local(3) by auto
  note same = polled_step [OF local(2) this] local_step(2) [OF local(2,3), of "Suc (Suc n)"]
  show ?thesis by (rule session_flow_same [OF flow]) (use same in \<open>auto simp: local(1) unlink_def split: if_splits\<close>)
next
  case (create_fails i t result res once_done s')
  obtain w where w: "workers (loops x i) t = Some w" "w_pc w = Starting" "polled s' = polled (loops x i)"
      "\<And>u. u \<noteq> t \<Longrightarrow> workers s' u = workers (loops x i) u"
    using created_step [OF create_fails(2)] by metis
  show ?thesis
    by (rule session_flow_same [OF flow]; cases "Suc (Suc n) = t")
      (use w starting_unlinked(1) [OF inv w(1,2)] in \<open>auto simp: create_fails(1) posting_def\<close>)
next
  case (created i t result res once_done s' c p b s)
  then show ?thesis by (intro created_flow [where ce = ce and i = i, OF flow inv created(2)]) simp_all
next
  case (handled i t net s' p command c)
  note same = polled_step [OF handled(2)] answered_posting [OF handled(2), of "Suc (Suc n)"]
  show ?thesis
    by (rule session_flow_same [OF flow]) (use same in \<open>auto simp: handled(1) call_effect_frame(1)\<close>)
next
  case (handled_cut i t net s')
  note same = polled_step [OF handled_cut(2)] answered_posting [OF handled_cut(2), of "Suc (Suc n)"]
  show ?thesis
    by (rule session_flow_same [OF flow]) (use same in \<open>auto simp: handled_cut(1)\<close>)
next
  case (polls i t event s' p c)
  show ?thesis
    by (rule polls_flow_any [where ce = ce and i = i, OF flow inv session polls(1,2,3)])
      (use polls(4) in \<open>simp add: worker_client_def\<close>)
next
  case (polls_cut i t event s')
  obtain c where w: "\<And>u. u \<noteq> t \<Longrightarrow> workers s' u = workers (loops x i) u"
    and none: "\<forall>m. fst (poll (ce i) event c) \<noteq> Inr (Some m) \<Longrightarrow> polled s' = polled (loops x i)"
    by (rule reported_step [OF polls_cut(2)]) (rule that; simp)
  have "polled s' = polled (loops x i)"
    using polls_cut(4) by (intro none) (cases "(event, [] :: bytes list)" rule: reportable.cases, auto simp: poll_result poll_answer_def)
  then show ?thesis
    by (intro session_flow_same [OF flow]; cases "Suc (Suc n) = t") (use w polls_cut(3) in \<open>auto simp: polls_cut(1) posting_def\<close>)
qed

section \<open>Reachable states of the whole\<close>

definition joint_inv ::
    "endian \<Rightarrow> (ENetPeer \<Rightarrow> endian) \<Rightarrow> (nat \<Rightarrow> endian) \<Rightarrow> 'u py_text \<Rightarrow> (nat \<Rightarrow> 'u) \<Rightarrow> (nat \<Rightarrow> int) \<Rightarrow> 'u async_system \<Rightarrow> bool"
where
  "joint_inv eS ec ce py host port x \<longleftrightarrow>
     sys_reachable eS ec (shared x) \<and> link_inv ec ce x \<and>
     (\<forall>i. (\<exists>ls. async_run (ce i) py (AsyncClient_init (host i) (port i)) ls (loops x i)) \<and> session_inv (loops x i)) \<and>
     (\<forall>i q. session_flow py x i q)"

lemma joint_inv_start:
  "fst (bus_server_ctor quill sport shost lg) = Inr s \<Longrightarrow> joint_inv eS ec ce py host port (joint_start s host port)"
  by (auto simp: joint_inv_def joint_start_def link_inv_def session_flow_def session_init
      intro: sys_reachable.start runs.none) (simp add: AsyncClient_init_def)

lemma joint_inv_step:
  assumes inv: "joint_inv eS ec ce py host port x" and step: "joint_step eS ec ce py x x'"
  shows "joint_inv eS ec ce py host port x'"
proof -
  have r: "sys_reachable eS ec (shared x)" and link: "link_inv ec ce x" and session: "\<And>i. session_inv (loops x i)"
    and flow: "\<And>i q. session_flow py x i q"
    and run: "\<And>i. \<exists>ls. async_run (ce i) py (AsyncClient_init (host i) (port i)) ls (loops x i)"
    using inv by (auto simp: joint_inv_def)
  have fresh: "fresh_inv (loops x i)" for i
  proof -
    obtain ls where "async_run (ce i) py (AsyncClient_init (host i) (port i)) ls (loops x i)" using run by blast
    from fresh_run [OF this fresh_init] show ?thesis .
  qed
  have "(\<exists>ls. async_run (ce i) py (AsyncClient_init (host i) (port i)) ls (loops x' i)) \<and> session_inv (loops x' i)" for i
    using joint_loops [OF step, of i]
  proof
    assume "loops x' i = loops x i"
    with run session show ?thesis by simp
  next
    assume "\<exists>l. async_step (ce i) py (loops x i) l (loops x' i) \<and> (l = Close \<longrightarrow> closing (loops x i) = [])"
    then obtain l where l: "async_step (ce i) py (loops x i) l (loops x' i)" "l = Close \<longrightarrow> closing (loops x i) = []" by blast
    obtain ls where "async_run (ce i) py (AsyncClient_init (host i) (port i)) ls (loops x i)" using run by blast
    then have "async_run (ce i) py (AsyncClient_init (host i) (port i)) (ls @ [l]) (loops x' i)" using l(1) by (rule runs.snoc)
    with session_step [OF l(1) session l(2)] show ?thesis by blast
  qed
  with reachable_steps [OF joint_shared [OF step r link] r] joint_link [OF step r link fresh]
    joint_flow [OF step r link fresh session flow] show ?thesis
    by (simp add: joint_inv_def)
qed

lemma joint_reachable_inv: "joint_reachable eS ec ce py host port x \<Longrightarrow> joint_inv eS ec ce py host port x"
  by (induction rule: joint_reachable.induct) (auto intro: joint_inv_start joint_inv_step)

section \<open>What a session receives\<close>

text \<open>The content of a message as Python sees it, in the terms of the wire.\<close>

definition wire_content :: "'u async_message \<Rightarrow> u64 \<times> bytes" where
  "wire_content m = (am_topic_key m, byte_span (am_payload m))"

lemma message_of_content: "message_of py f = Inr m \<Longrightarrow> wire_content m = content f"
  by (auto simp: message_of_def wire_content_def content_def py_topic_key_def payload_bytes_def byte_span_def
      bytes_of_string_def [of "[]"] split: sum.splits if_splits)

lemma messages_content: "map (message_of py) fs = map Inr ms \<Longrightarrow> map content fs = map wire_content ms"
  by (induction fs arbitrary: ms) (auto simp: message_of_content Cons_eq_map_conv)

lemma session_piece:
  assumes "joint_inv eS ec ce py host port x" and "conn x i (Suc (Suc q)) = Some p"
  obtains pre mid post where "got (shared x) p = pre @ mid @ post"
    and "map (message_of py) mid = map Inr (polled (loops x i) q)"
proof -
  have "session_flow py x i q" using assms(1) unfolding joint_inv_def by blast
  with assms(2) that show thesis by (auto simp: session_flow_def piece_def)
qed

text \<open>What a session has polled, in the server's order.\<close>

lemma polled_served:
  assumes "joint_inv eS ec ce py host port x"
  obtains ys where "map snd ys = map wire_content (polled (loops x i) q)" and "subseq ys (served (shared x))"
    and "\<forall>z \<in> set ys. conn x i (Suc (Suc q)) \<noteq> Some (fst z)"
proof (cases "conn x i (Suc (Suc q))")
  case None
  moreover have "session_flow py x i q" using assms by (simp add: joint_inv_def)
  ultimately have "polled (loops x i) q = []" by (simp add: session_flow_def)
  then show thesis by (intro that [of "[]"]) simp_all
next
  case (Some p)
  obtain pre mid post where g: "got (shared x) p = pre @ mid @ post"
    and mid: "map (message_of py) mid = map Inr (polled (loops x i) q)"
    by (rule session_piece [OF assms Some])
  have c: "map content mid = map wire_content (polled (loops x i) q)"
    using mid by (rule messages_content)
  from assms sys_reachable_inv obtain ys zs where ys: "map snd ys = map content (got (shared x) p)"
    and sub: "subseq (ys @ zs) (served (shared x))" and other: "\<forall>z \<in> set (ys @ zs). fst z \<noteq> p"
    unfolding joint_inv_def sys_inv_def down_inv_def flows_def by blast
  from ys g have "map snd ys = map content pre @ map content mid @ map content post" by simp
  from map_eq_append_conv [THEN iffD1, OF this] obtain a b where a: "ys = a @ b" "map content mid @ map content post = map snd b" by blast
  from map_eq_append_conv [THEN iffD1, OF a(2) [symmetric]] obtain b1 b2 where "b = b1 @ b2" "map snd b1 = map content mid" by auto
  with a have ab: "ys = a @ b1 @ b2" "map snd b1 = map content mid" by simp_all
  have "subseq b1 (a @ b1 @ b2 @ zs)" by (meson list_emb_append2 subseq_order.order_refl subseq_rev_drop_many)
  then have "subseq b1 (ys @ zs)" by (simp add: ab)
  then have "subseq b1 (served (shared x))" using sub by (rule subseq_order.order_trans)
  with ab(2) c other ab(1) Some show thesis by (intro that [of b1]) auto
qed

lemma polled_named:
  assumes "joint_inv eS ec ce py host port x" and m: "m \<in> set (polled (loops x i) q)"
  shows "\<exists>name. from_utf8 py name = Some (am_topic m) \<and>
    (name = ''unknown'' \<or> get name (m_topic_map (sy_server (shared x))) = Some (am_topic_key m))"
proof -
  have flow: "session_flow py x i q" and r: "sys_reachable eS ec (shared x)" using assms(1) by (simp_all add: joint_inv_def)
  from flow m obtain p where p: "conn x i (Suc (Suc q)) = Some p" by (cases "conn x i (Suc (Suc q))") (auto simp: session_flow_def)
  obtain pre mid post where g: "got (shared x) p = pre @ mid @ post"
    and "map (message_of py) mid = map Inr (polled (loops x i) q)"
    by (rule session_piece [OF assms(1) p])
  then have "Inr m \<in> message_of py ` set mid" using m by (metis image_eqI list.set_map)
  then obtain f where f: "f \<in> set mid" "message_of py f = Inr m" by force
  have "f \<in> set (got (shared x) p)" using f(1) g by simp
  then have "labelled (table (shared x)) f"
    using sys_reachable_inv [OF r] unfolding sys_inv_def names_inv_def by blast
  with f(2) show ?thesis
    by (auto simp: message_of_def py_topic_def py_topic_key_def labelled_def table_def split: option.splits)
qed

text \<open>A topic that a call resolved has its key in the server's table.\<close>

lemma call_resolved:
  assumes "sys_reachable eS ec y" and "sy_clients y p = Some c"
    and "get_topic_key (ec p) net name c = (Inr k, c1)" and "server_answers (ec p) net (Some name) c y"
  shows "get name (m_topic_map (sy_server y)) = Some k"
proof -
  note l = lookup_step [OF assms]
  then have "sys_reachable eS ec (looked_up p c1 y)" using reachable_steps assms(1) by blast
  then have "names_inv eS (looked_up p c1 y)" using sys_reachable_inv by (simp add: sys_inv_def)
  moreover have "sy_clients (looked_up p c1 y) p = Some c1" by (simp add: looked_up_def)
  ultimately have "mirrors (table (looked_up p c1 y)) c1" unfolding names_inv_def by blast
  with l show ?thesis by (simp add: mirrors_def table_def looked_up_def)
qed

section \<open>Why one close at a time\<close>

text \<open>
  Of two coroutines that close the client at once, the second may resume only after the client was closed and connected again. It then
  marks the client as closed and forgets its thread, although the worker of the new session is alive; the next \<^verbatim>\<open>connect\<close> starts a
  second worker, and both put their messages into the same queue.
\<close>

lemma late_close_detaches_session:
  assumes "0 \<le> port" and "port \<le> 65535" and "fst (py_client_init py result res host (word_of_int port) once_done) = Inr client"
  shows "\<exists>s s'. async_run e py (AsyncClient_init host port)
      [Connect, Work 2 (Created result res once_done), Run_callback, Close, Close, Work 2 Nothing, Work 2 Nothing, Run_callback, Closed (3, 2),
       Connect, Work 7 (Created result res once_done), Run_callback, Work 7 Nothing, Work 7 Nothing, Run_callback, Close,
       Connect, Work 10 (Created result res once_done), Run_callback, Closed (4, 2)] s \<and>
    is_alive s 10 \<and> ensure_running s = Inl (Runtime ''spraybus client is closed'') \<and>
    async_step e py s Connect s' \<and> is_alive s' 10 \<and> is_alive s' 13 \<and> a_messages s' = Some 11"
proof -
  obtain s where s: "exec_all e py
      [Connect, Work 2 (Created result res once_done), Run_callback, Close, Close, Work 2 Nothing, Work 2 Nothing, Run_callback, Closed (3, 2),
       Connect, Work 7 (Created result res once_done), Run_callback, Work 7 Nothing, Work 7 Nothing, Run_callback, Close,
       Connect, Work 10 (Created result res once_done), Run_callback, Closed (4, 2)] (AsyncClient_init host port) = Some s"
    and st: "is_alive s 10" "ensure_running s = Inl (Runtime ''spraybus client is closed'')" "a_thread s = None" "next_id s = 11"
    using assms by (simp add: async_defs Let_def)
  have "async_step e py s Connect (snd (async_connect s))" by (rule async_step.connect [of _ "fst (async_connect s)"]) simp
  moreover have "is_alive (snd (async_connect s)) 10 \<and> is_alive (snd (async_connect s)) 13 \<and> a_messages (snd (async_connect s)) = Some 11"
    using st(1,3,4) by (simp add: async_connect_def is_alive_def Let_def)
  ultimately show ?thesis using exec_run [OF s] st(1,2) by blast
qed

end
