(* ===== verification/Async_Bus.thy ===== *)
theory Async_Bus
  imports Async_System
begin

text \<open>
  The results on asyncio clients on the bus, from the invariants of \<open>Async_System\<close>, and a run in which their hypotheses hold: a client
  connects, subscribes to the topic \<open>t\<close>, and receives a message that a peer without this client library publishes.
\<close>

section \<open>Steps of the event loop in a row\<close>

lemma local_clients:
  "\<lbrakk>exec_all e py ls s = Some s'; \<forall>l \<in> set ls. local_label l; worker_client s' t = Some c\<rbrakk> \<Longrightarrow> worker_client s t = Some c"
proof (induction ls arbitrary: s)
  case (Cons l ls)
  then obtain s1 where "exec e py l s = Some s1" "exec_all e py ls s1 = Some s'" by (auto split: option.splits)
  with Cons local_step(1) [OF exec_step] show ?case by fastforce
qed simp

lemma local_run:
  assumes "joint_reachable eS ec ce py host port x" and "exec_all (ce i) py ls (loops x i) = Some s'"
    and "\<forall>l \<in> set ls. local_label l \<and> l \<noteq> Close"
  shows "\<exists>x'. joint_reachable eS ec ce py host port x' \<and> loops x' = (loops x)(i := s') \<and> shared x' = shared x \<and>
    link x' = (link x)(i := unlink s' (link x i))"
  using assms
proof (induction ls arbitrary: x)
  case Nil
  from joint_reachable_inv [OF Nil.prems(1)] have "link_inv ec ce x" by (simp add: joint_inv_def)
  then have "unlink (loops x i) (link x i) t = link x i t" for t
    using link_invD(3,4) [of ec ce x i t] by (cases "link x i t") (auto simp: unlink_def)
  with Nil show ?case by (intro exI [of _ x]) (simp add: fun_eq_iff)
next
  case (Cons l ls)
  then obtain s1 where s1: "exec (ce i) py l (loops x i) = Some s1" "exec_all (ce i) py ls s1 = Some s'"
    by (auto split: option.splits)
  let ?x1 = "x\<lparr>loops := (loops x)(i := s1), link := (link x)(i := unlink s1 (link x i))\<rparr>"
  have "joint_step eS ec ce py x ?x1"
    using Cons.prems(3) by (intro joint_step.local [where ce = ce and i = i, OF exec_step [OF s1(1)]]) simp_all
  from Cons.IH [OF joint_reachable.step [OF Cons.prems(1) this]] s1(2) Cons.prems(3) obtain x' where
    x': "joint_reachable eS ec ce py host port x'" "loops x' = (loops x)(i := s')" "shared x' = shared x"
      "link x' = (link x)(i := unlink s' (unlink s1 (link x i)))" by (auto simp: fun_upd_same simp del: fun_upd_apply)
  have "worker_client s1 t \<noteq> None" if "worker_client s' t \<noteq> None" for t
    using local_clients [OF s1(2), of t] Cons.prems(3) that by auto
  then have "unlink s' (unlink s1 (link x i)) = unlink s' (link x i)" unfolding unlink_def fun_eq_iff by metis
  with x' show ?case by auto
qed

text \<open>A step of the server or of another peer.\<close>

lemma others_run:
  assumes "joint_reachable eS ec ce py host port x" and "sys_step eS ec (shared x) y"
    and "\<And>i t p. link x i t = Some p \<Longrightarrow> sy_clients y p = sy_clients (shared x) p \<and> got y p = got (shared x) p"
  shows "joint_reachable eS ec ce py host port (x\<lparr>shared := y\<rparr>)"
  using joint_reachable.step [OF assms(1) joint_step.others [OF assms(2,3)]] .

section \<open>The run\<close>

abbreviation example_step :: "string async_system \<Rightarrow> string async_system \<Rightarrow> bool" where
  "example_step \<equiv> joint_step Little (\<lambda>_. Little) (\<lambda>_. Little) ascii_text"

abbreviation example_reachable :: "string async_system \<Rightarrow> bool" where
  "example_reachable \<equiv> joint_reachable Little (\<lambda>_. Little) (\<lambda>_. Little) ascii_text (\<lambda>_. ''localhost'') (\<lambda>_. 6767)"

definition bus_events :: "ENetEvent list" where
  "bus_events =
     [ENET_EVENT_TYPE_CONNECT 9,
      ENET_EVENT_TYPE_RECEIVE 9 \<lparr>packet_ptr = 0, packet_data = fst (construct_topic_request Little Constructor_ctor ''t'' Origin_client)\<rparr>,
      ENET_EVENT_TYPE_CONNECT 1,
      ENET_EVENT_TYPE_RECEIVE 1 \<lparr>packet_ptr = 0, packet_data = fst (construct_subscribe Little Constructor_ctor 1 Origin_client)\<rparr>,
      ENET_EVENT_TYPE_CONNECT 2,
      ENET_EVENT_TYPE_RECEIVE 2 \<lparr>packet_ptr = 0, packet_data = fst (construct_publish Little Constructor_ctor 1 (byte_span ''hi'') Origin_client)\<rparr>]"

abbreviation loop_init :: "string async_client" where
  "loop_init \<equiv> AsyncClient_init ''localhost'' 6767"

text \<open>The topic is asked for over a temporary connection.\<close>

lemma bus_asked:
  "\<exists>s. ready \<lparr>b_names = [''t''], b_sessions = [(9, {})]\<rparr> (drop 2 bus_events) s \<and>
     example_reachable \<lparr>shared = (sys_start example_server)\<lparr>sy_server := s, answers := [(''t'', reply_bytes Little (Key_for 1 ''t''))]\<rparr>,
       loops = (\<lambda>_. loop_init), link = (\<lambda>_. Map.empty), conn = (\<lambda>_. Map.empty)\<rparr>"
proof -
  let ?evs = "take 2 bus_events" and ?y = "sys_start example_server"
  have "enet_protocol {} bus_events" by (simp add: bus_events_def)
  then have "ready empty_broker (?evs @ drop 2 bus_events) example_server"
    using example_start by (simp add: ready_def empty_broker_def) (simp add: bus_events_def)
  then obtain s where s: "bus_process Little ?evs example_server = (Inr (), s)" "ready empty_broker ?evs example_server"
    "ready (snd (broker_run (map (broker_event_of Little) ?evs) empty_broker)) (drop 2 bus_events) s"
    "new_sends (enet_calls example_server) (enet_calls s) = on_wire Little (fst (broker_run (map (broker_event_of Little) ?evs) empty_broker))"
    by (rule server_turn)
  have run: "broker_run (map (broker_event_of Little) ?evs) empty_broker =
      ([(9, Key_for 1 ''t'')], \<lparr>b_names = [''t''], b_sessions = [(9, {})]\<rparr>)"
    by (simp add: bus_events_def request_of_topic_request register_def abstract_key_def empty_broker_def del: construct_simp)
  have "sys_step Little (\<lambda>_. Little) ?y (?y\<lparr>sy_server := s, answers := [(''t'', reply_bytes Little (Key_for 1 ''t''))]\<rparr>)"
    using sys_step.ask [OF refl, of empty_broker 9 0 Little "''t''" ?y Little s] s run
    by (simp add: sys_start_def bus_events_def fun_upd_idem on_wire_def del: construct_simp reply_bytes.simps)
  moreover have "example_reachable (joint_start example_server (\<lambda>_. ''localhost'') (\<lambda>_. 6767))"
    by (rule joint_reachable.start [OF example_server_started])
  ultimately show ?thesis
    using others_run [of Little "\<lambda>_. Little" "\<lambda>_. Little" ascii_text] s(3) run
    by (force simp: joint_start_def)
qed

text \<open>The asyncio client connects as peer 1 and hands its worker the subscription.\<close>

definition handling :: "bus_client \<Rightarrow> string async_client \<Rightarrow> bool" where
  "handling c s \<longleftrightarrow> a_loop s \<and>
     workers s 2 = Some \<lparr>w_pc = Handling \<lparr>cmd_request = Subscribe_request ''t'', cmd_future = Some 3\<rparr>, w_client = Some c\<rparr> \<and>
     a_commands s = [] \<and> callbacks s = [] \<and> queues s 0 = [] \<and> receiving s = [] \<and> delivered s 0 = [] \<and> polled s 0 = [] \<and>
     \<not> a_closed s \<and> a_worker_error s = None \<and> a_thread s = Some 2 \<and> a_messages s = Some 0 \<and> futures s 3 = Pending"

lemma bus_opened:
  "\<exists>x. example_reachable x \<and> handling example_client (loops x 0) \<and> link x = (\<lambda>_. Map.empty)(0 := [2 \<mapsto> 1]) \<and>
     ready \<lparr>b_names = [''t''], b_sessions = [(9, {}), (1, {})]\<rparr> (drop 3 bus_events) (sy_server (shared x)) \<and>
     sy_clients (shared x) = [1 \<mapsto> example_client] \<and> up (shared x) = (\<lambda>_. []) \<and> down (shared x) = (\<lambda>_. []) \<and>
     answers (shared x) = [(''t'', reply_bytes Little (Key_for 1 ''t''))]"
proof -
  let ?b = "\<lparr>b_names = [''t''], b_sessions = [(9, {})]\<rparr>"
  obtain s x0 where rdy: "ready ?b (drop 2 bus_events) s" and x0: "example_reachable x0"
    and sh: "shared x0 = (sys_start example_server)\<lparr>sy_server := s, answers := [(''t'', reply_bytes Little (Key_for 1 ''t''))]\<rparr>"
    and "loops x0 = (\<lambda>_. loop_init)" "link x0 = (\<lambda>_. Map.empty)"
    using bus_asked by fastforce
  let ?s1 = "snd (async_connect loop_init)"
  have "exec_all Little ascii_text [Connect] (loops x0 0) = Some ?s1" by (simp add: \<open>loops x0 = _\<close>)
  from local_run [OF x0 this] obtain x1 where x1: "example_reachable x1" "loops x1 0 = ?s1" "shared x1 = shared x0"
    "link x1 = (\<lambda>_. Map.empty)"
    by (auto simp: \<open>link x0 = _\<close> unlink_def fun_eq_iff)
  let ?s2 = "run_start 2 (Inr example_client) ?s1"
  have "exec Little ascii_text (Work 2 (Created 0 example_connect True)) ?s1 = Some ?s2"
    using example_client_ctor
    by (auto simp: async_defs py_client_init_def ascii_text_def init_networking_once_def Let_def numeral_2_eq_2)
  note s2 = exec_step [OF this]
  from rdy have "ready ?b ([ENET_EVENT_TYPE_CONNECT 1] @ drop 3 bus_events) s"
    by (simp add: bus_events_def del: construct_simp)
  then obtain s' where s': "bus_process Little [ENET_EVENT_TYPE_CONNECT 1] s = (Inr (), s')" "ready ?b [ENET_EVENT_TYPE_CONNECT 1] s"
    "ready (snd (broker_run (map (broker_event_of Little) [ENET_EVENT_TYPE_CONNECT 1]) ?b)) (drop 3 bus_events) s'"
    by (rule server_turn)
  let ?x2 = "x1\<lparr>shared := (shared x1)\<lparr>sy_server := s', sy_clients := (sy_clients (shared x1))(1 \<mapsto> example_client),
        up := (up (shared x1))(1 := []), down := (down (shared x1))(1 := [])\<rparr>,
      loops := (loops x1)(0 := ?s2), link := (link x1)(0 := (link x1 0)(2 \<mapsto> 1)), conn := (conn x1)(0 := (conn x1 0)(2 \<mapsto> 1))\<rparr>"
  have "joint_step Little (\<lambda>_. Little) (\<lambda>_. Little) ascii_text x1 ?x2"
    by (rule joint_step.created [where t = 2 and result = 0 and res = example_connect and once_done = True and b = ?b])
      (use s2 s' x1 sh in \<open>simp_all add: run_start_def set_pc_def worker_client_def\<close>)
  with x1(1) have x2: "example_reachable ?x2" by (rule joint_reachable.step)
  obtain s3 where s3: "exec_all Little ascii_text [Run_callback, Call (Subscribe_request ''t''), Work 2 Nothing] ?s2 = Some s3"
    "handling example_client s3" "worker_client s3 = [2 \<mapsto> example_client]"
    by (auto simp: async_defs handling_def worker_client_def Let_def numeral_2_eq_2 fun_eq_iff)
  from s3(1) have "exec_all Little ascii_text [Run_callback, Call (Subscribe_request ''t''), Work 2 Nothing] (loops ?x2 0) = Some s3" by simp
  from local_run [OF x2 this] obtain x3 where x3: "example_reachable x3" "loops x3 0 = s3" "shared x3 = shared ?x2"
    "link x3 = (\<lambda>_. Map.empty)(0 := [2 \<mapsto> 1])"
    by (auto simp: x1(4) unlink_def s3(3) fun_eq_iff)
  then show ?thesis
    using s3 s'(3) sh x1(3) by (intro exI [of _ x3]) (simp add: sys_start_def fun_upd_idem)
qed

text \<open>The worker subscribes; the server takes the subscription.\<close>

definition polling :: "bus_client \<Rightarrow> string async_client \<Rightarrow> bool" where
  "polling c s \<longleftrightarrow> a_commands s = [] \<and> a_loop s \<and>
     workers s 2 = Some \<lparr>w_pc = Polling, w_client = Some c\<rparr> \<and> callbacks s = [Complete 3 (Inr No_value)] \<and> queues s 0 = [] \<and>
     receiving s = [] \<and> delivered s 0 = [] \<and> polled s 0 = [] \<and>
     \<not> a_closed s \<and> a_worker_error s = None \<and> a_thread s = Some 2 \<and> a_messages s = Some 0 \<and>
     futures s 3 = Pending"

lemma bus_subscribed:
  "\<exists>x c. example_reachable x \<and> polling c (loops x 0) \<and> link x = (\<lambda>_. Map.empty)(0 := [2 \<mapsto> 1]) \<and>
     ready \<lparr>b_names = [''t''], b_sessions = [(9, {}), (1, {1})]\<rparr> (drop 4 bus_events) (sy_server (shared x)) \<and>
     sy_clients (shared x) = [1 \<mapsto> c] \<and> c_inverse_topic_map c = [1 \<mapsto> ''t''] \<and> up (shared x) = (\<lambda>_. []) \<and> down (shared x) = (\<lambda>_. [])"
proof -
  let ?b = "\<lparr>b_names = [''t''], b_sessions = [(9, {}), (1, {})]\<rparr>"
  let ?net = "example_net (reply_bytes Little (Key_for 1 ''t''))"
  let ?cmd = "\<lparr>cmd_request = Subscribe_request ''t'', cmd_future = Some 3\<rparr>"
  let ?d = "fst (construct_subscribe Little Constructor_ctor 1 Origin_client)"
  obtain x where x: "example_reachable x" "handling example_client (loops x 0)" "link x = (\<lambda>_. Map.empty)(0 := [2 \<mapsto> 1])"
    and rdy: "ready ?b (drop 3 bus_events) (sy_server (shared x))"
    and sh: "sy_clients (shared x) = [1 \<mapsto> example_client]" "up (shared x) = (\<lambda>_. [])" "down (shared x) = (\<lambda>_. [])"
      "answers (shared x) = [(''t'', reply_bytes Little (Key_for 1 ''t''))]"
    using bus_opened by blast
  obtain c1 where c1: "get_topic_key Little ?net ''t'' example_client = (Inr 1, c1)"
    and m1: "c_topic_map c1 ''t'' = Some 1" "c_inverse_topic_map c1 = [1 \<mapsto> ''t'']"
    using example_resolved by auto
  obtain c2 where c2: "subscribe Little ?net ''t'' c1 = (Inr (), c2)"
    using m1(1) by (simp add: subscribe_def get_topic_key_cached Let_def packet_factory_defs)
  note sub = subscribe_cached [OF m1(1) c2]
  have c: "subscribe Little ?net ''t'' example_client = (Inr (), c2)"
    using subscribe_after_lookup [OF c1 m1(1)] c2 by simp
  let ?s1 = "handle_command Little ascii_text ?net 2 ?cmd example_client (loops x 0)"
  have w: "workers (loops x 0) 2 = Some \<lparr>w_pc = Handling ?cmd, w_client = Some example_client\<rparr>"
    using x(2) by (simp add: handling_def)
  then have "exec Little ascii_text (Work 2 (Answered ?net)) (loops x 0) = Some ?s1" by simp
  note s1 = exec_step [OF this]
  have utf: "to_utf8 ascii_text ''t'' = Some ''t''" by (simp add: ascii_text_def)
  let ?x1 = "x\<lparr>shared := call_effect Little ascii_text ?net (cmd_request ?cmd) 1 example_client (shared x), loops := (loops x)(0 := ?s1)\<rparr>"
  have "server_answers Little ?net (call_topic ascii_text (cmd_request ?cmd)) example_client (shared x)"
    by (auto simp: server_answers_def utf sh(4) example_net_def)
  with x(3) w s1 have "joint_step Little (\<lambda>_. Little) (\<lambda>_. Little) ascii_text x ?x1"
    by (intro joint_step.handled [where ce = "\<lambda>_. Little" and t = 2]) simp_all
  with x(1) have x1: "example_reachable ?x1" by (rule joint_reachable.step)
  have shared: "shared ?x1 = (shared x)\<lparr>sy_clients := [1 \<mapsto> c2], up := (\<lambda>_. [])(1 := [?d])\<rparr>"
    using c1 c sub(1) sh by (simp add: utf sent_def del: construct_simp)
  have p: "polling c2 ?s1"
    using x(2) c
    by (simp add: handling_def polling_def handle_command_def py_subscribe_def utf set_pc_def complete_def call_soon_def)
  let ?ev = "ENET_EVENT_TYPE_RECEIVE 1 \<lparr>packet_ptr = 0, packet_data = ?d\<rparr>"
  from rdy have "ready ?b ([?ev] @ drop 4 bus_events) (sy_server (shared x))"
    by (simp add: bus_events_def del: construct_simp)
  then obtain s where s: "bus_process Little [?ev] (sy_server (shared x)) = (Inr (), s)" "ready ?b [?ev] (sy_server (shared x))"
    "ready (snd (broker_run (map (broker_event_of Little) [?ev]) ?b)) (drop 4 bus_events) s"
    "new_sends (enet_calls (sy_server (shared x))) (enet_calls s) = on_wire Little (fst (broker_run (map (broker_event_of Little) [?ev]) ?b))"
    by (rule server_turn)
  have run: "broker_run (map (broker_event_of Little) [?ev]) ?b = ([], \<lparr>b_names = [''t''], b_sessions = [(9, {}), (1, {1})]\<rparr>)"
    by (simp add: request_of_subscribe change_subs_def del: construct_simp)
  let ?y = "(shared ?x1)\<lparr>sy_server := s, up := (\<lambda>_. []), down := (\<lambda>_. [])\<rparr>"
  have "sys_step Little (\<lambda>_. Little) (shared ?x1) ?y"
    using sys_step.serve [of "shared ?x1" 1 ?d "[]" ?b 0 Little s] s run sh unfolding shared
    by (simp add: request_of_subscribe published_by_def fun_upd_idem del: construct_simp)
  from others_run [OF x1 this] have "example_reachable (?x1\<lparr>shared := ?y\<rparr>)" by simp
  with p x(3) s(3) run m1 sub sh show ?thesis
    by (intro exI [of _ "?x1\<lparr>shared := ?y\<rparr>"] exI [of _ c2]) (simp add: shared [simplified] del: construct_simp)
qed

text \<open>A peer that uses no client of this library publishes; the worker polls the message, and \<^verbatim>\<open>recv\<close> returns it.\<close>

abbreviation bus_message :: "string async_message" where
  "bus_message \<equiv> \<lparr>am_topic_key = 1, am_topic = ''t'', am_payload = ''hi''\<rparr>"

lemma bus_publishes:
  "\<exists>x0 x1 x2 x c. example_reachable x0 \<and> example_step x0 x1 \<and> example_step x1 x2 \<and> example_step x2 x \<and>
     (\<forall>z \<in> {x0, x1, x2, x}. polling c (loops z 0) \<and> link z = (\<lambda>_. Map.empty)(0 := [2 \<mapsto> 1])) \<and>
     sessions (sy_server (shared x0)) = [(9, {}), (1, {1})] \<and> down (shared x0) = (\<lambda>_. []) \<and>
     sy_clients (shared x) 1 = Some c \<and> c_inverse_topic_map c = [1 \<mapsto> ''t''] \<and>
     served (shared x) = served (shared x0) @ [(2, 1, byte_span ''hi'')] \<and>
     down (shared x) 1 = [reply_bytes Little (Fanout_of 1 (byte_span ''hi''))]"
proof -
  let ?b = "\<lparr>b_names = [''t''], b_sessions = [(9, {}), (1, {1})]\<rparr>" and ?e = "\<lambda>_ :: ENetPeer. Little"
  let ?d = "fst (construct_publish Little Constructor_ctor 1 (byte_span ''hi'') Origin_client)"
  let ?ev = "ENET_EVENT_TYPE_RECEIVE 2 \<lparr>packet_ptr = 0, packet_data = ?d\<rparr>" and ?f = "reply_bytes Little (Fanout_of 1 (byte_span ''hi''))"
  obtain x c where x: "example_reachable x" "polling c (loops x 0)" "link x = (\<lambda>_. Map.empty)(0 := [2 \<mapsto> 1])"
    and rdy: "ready ?b (drop 4 bus_events) (sy_server (shared x))"
    and sh: "sy_clients (shared x) = [1 \<mapsto> c]" "c_inverse_topic_map c = [1 \<mapsto> ''t'']" "up (shared x) = (\<lambda>_. [])" "down (shared x) = (\<lambda>_. [])"
    using bus_subscribed by blast
  from rdy have "ready ?b ([ENET_EVENT_TYPE_CONNECT 2] @ [?ev]) (sy_server (shared x))"
    by (simp add: bus_events_def del: construct_simp)
  then obtain s1 where s1: "bus_process Little [ENET_EVENT_TYPE_CONNECT 2] (sy_server (shared x)) = (Inr (), s1)"
    "ready ?b [ENET_EVENT_TYPE_CONNECT 2] (sy_server (shared x))"
    "ready (snd (broker_run (map (broker_event_of Little) [ENET_EVENT_TYPE_CONNECT 2]) ?b)) [?ev] s1"
    by (rule server_turn)
  let ?b2 = "\<lparr>b_names = [''t''], b_sessions = [(9, {}), (1, {1}), (2, {})]\<rparr>"
  from s1(3) have "ready ?b2 ([?ev] @ []) s1" by (simp del: construct_simp)
  then obtain s2 where s2: "bus_process Little [?ev] s1 = (Inr (), s2)" "ready ?b2 [?ev] s1"
    "new_sends (enet_calls s1) (enet_calls s2) = on_wire Little (fst (broker_run (map (broker_event_of Little) [?ev]) ?b2))"
    by (rule server_turn)
  have run: "fst (broker_run (map (broker_event_of Little) [?ev]) ?b2) = [(1, Fanout_of 1 (byte_span ''hi''))]"
    by (simp add: request_of_publish del: construct_simp)
  let ?y1 = "(shared x)\<lparr>sy_server := s1\<rparr>"
  let ?y2 = "?y1\<lparr>up := (\<lambda>_. [])(2 := [?d]), pub := (pub (shared x))(2 := pub (shared x) 2 @ [(1, byte_span ''hi'')])\<rparr>"
  let ?y3 = "?y2\<lparr>sy_server := s2, up := (\<lambda>_. []), down := (\<lambda>q. if 1 = q then [?f] else []),
    served := served (shared x) @ [(2, 1, byte_span ''hi'')]\<rparr>"
  have t1: "sys_step Little ?e (shared x) ?y1"
    using sys_step.foreign_connect [OF s1(2,1), of ?e] sh by (cases "shared x") (simp add: fun_upd_idem)
  have t2: "sys_step Little ?e ?y1 ?y2"
    using sys_step.foreign_send [of ?y1 2 Little ?e ?d] sh
    by (simp add: request_of_publish published_by_def del: construct_simp)
  have t3: "sys_step Little ?e ?y2 ?y3"
    using sys_step.serve [of ?y2 2 ?d "[]" ?b2 0 Little s2] s2 run
    by (simp add: sh request_of_publish published_by_def fun_upd_idem on_wire_def if_distrib cong: if_cong
        del: construct_simp reply_bytes.simps)
  have "example_step x (x\<lparr>shared := ?y1\<rparr>)" using t1 by (intro joint_step.others) simp_all
  moreover have "example_step (x\<lparr>shared := ?y1\<rparr>) (x\<lparr>shared := ?y2\<rparr>)"
    using joint_step.others [of Little ?e "x\<lparr>shared := ?y1\<rparr>" ?y2 "\<lambda>_. Little" ascii_text] t2 by (simp del: construct_simp)
  moreover have "example_step (x\<lparr>shared := ?y2\<rparr>) (x\<lparr>shared := ?y3\<rparr>)"
    using joint_step.others [of Little ?e "x\<lparr>shared := ?y2\<rparr>" ?y3 "\<lambda>_. Little" ascii_text] t3 by (simp del: construct_simp)
  moreover have "sessions (sy_server (shared x)) = [(9, {}), (1, {1})]" using rdy by (simp add: ready_def bus_abs_def)
  ultimately show ?thesis
    using x sh
    by (intro exI [of _ x] exI [of _ "x\<lparr>shared := ?y1\<rparr>"] exI [of _ "x\<lparr>shared := ?y2\<rparr>"] exI [of _ "x\<lparr>shared := ?y3\<rparr>"] exI [of _ c])
      (simp del: construct_simp)
qed

lemma bus_published:
  "\<exists>x c. example_reachable x \<and> polling c (loops x 0) \<and> link x = (\<lambda>_. Map.empty)(0 := [2 \<mapsto> 1]) \<and>
     sy_clients (shared x) 1 = Some c \<and> c_inverse_topic_map c = [1 \<mapsto> ''t''] \<and>
     down (shared x) 1 = [reply_bytes Little (Fanout_of 1 (byte_span ''hi''))]"
  using bus_publishes by (meson insertI1 insertI2 joint_reachable.step)

lemma bus_received: "\<exists>x. example_reachable x \<and> delivered (loops x 0) 0 = [bus_message]"
proof -
  let ?f = "reply_bytes Little (Fanout_of 1 (byte_span ''hi''))"
  let ?ev = "Some (ENET_EVENT_TYPE_RECEIVE 30 \<lparr>packet_ptr = 5, packet_data = ?f\<rparr>)"
  let ?m = "\<lparr>fm_topic_key = 1, fm_topic = ''t'', fm_payload = byte_span ''hi''\<rparr>"
  obtain x c where x: "example_reachable x" "polling c (loops x 0)" "link x = (\<lambda>_. Map.empty)(0 := [2 \<mapsto> 1])"
    and sh: "sy_clients (shared x) 1 = Some c" "c_inverse_topic_map c = [1 \<mapsto> ''t'']" "down (shared x) 1 = [?f]"
    using bus_published by blast
  have poll: "fst (poll Little ?ev c) = Inr (Some ?m)" using sh(2) by (simp add: poll_result poll_answer_def)
  obtain c' g where py: "py_poll Little ?ev c = (Inr (Some ?m), c', g)" using py_poll_message [OF poll] by blast
  have m: "message_of ascii_text ?m = Inr bus_message"
    using payload_bytes_span [of ?m "''hi''"] by (simp add: message_of_def py_topic_def py_topic_key_def ascii_text_def)
  let ?s1 = "poll_messages Little ascii_text ?ev 2 c (loops x 0)"
  have "exec Little ascii_text (Work 2 (Reported ?ev)) (loops x 0) = Some ?s1" using x(2) by (simp add: polling_def)
  note s1 = exec_step [OF this]
  let ?x1 = "x\<lparr>shared := poll_effect Little ?ev 1 c (shared x), loops := (loops x)(0 := ?s1)\<rparr>"
  have "joint_step Little (\<lambda>_. Little) (\<lambda>_. Little) ascii_text x ?x1"
    by (rule joint_step.polls [where ce = "\<lambda>_. Little" and t = 2])
      (use s1 x sh in \<open>simp_all add: polling_def worker_client_def\<close>)
  with x(1) have x1: "example_reachable ?x1" by (rule joint_reachable.step)
  have "\<exists>s2. exec_all Little ascii_text [Run_callback, Run_callback, Recv, Received 0 (Inr bus_message)] ?s1 = Some s2 \<and>
      delivered s2 0 = [bus_message]"
    using x(2) py m
    by (simp add: polling_def poll_messages_def post_message_def async_recv_def require_messages_def recv_resume_def
        ensure_running_def set_pc_def call_soon_def del: reply_bytes.simps)
  then obtain s2 where s2: "exec_all Little ascii_text [Run_callback, Run_callback, Recv, Received 0 (Inr bus_message)] (loops ?x1 0) = Some s2"
    "delivered s2 0 = [bus_message]" by auto
  from local_run [OF x1 s2(1)] s2(2) show ?thesis by auto
qed


section \<open>Properties\<close>

text \<open>C6: Asyncio clients are clients: whatever any number of asyncio clients do on the bus, next to other clients and peers, the server and the
  connections go through states of the system of native clients, and each asyncio client through a run of its own
  relation; so every result on either holds for the whole.\<close>

theorem async_bus_refines:
  assumes "joint_reachable eS ec ce py host port x"
  shows "sys_reachable eS ec (shared x) \<and> (\<exists>ls. async_run (ce i) py (AsyncClient_init (host i) (port i)) ls (loops x i))"
  using joint_reachable_inv [OF assms] by (simp add: joint_inv_def)

theorem async_bus_refines_witness:
  "\<exists>x :: string async_system. delivered (loops x 0) 0 = [bus_message] \<and> sys_reachable Little (\<lambda>_. Little) (shared x)"
  using bus_received async_bus_refines [of Little "\<lambda>_. Little" "\<lambda>_. Little" ascii_text "\<lambda>_. ''localhost''" "\<lambda>_. 6767"] by blast

text \<open>C4: What \<^verbatim>\<open>recv\<close> returns, end to end: on a bus with any number of asyncio clients, native clients and other peers, in any interleaving, the
  messages that \<^verbatim>\<open>recv\<close> returned in one session of an asyncio client, followed by those still in its event loop, are in the order in which the
  server processed them and each at most once; each was published by another peer with this key and payload, and carries the name that
  the server's table has for the key, or \<open>unknown\<close>.\<close>

theorem async_recv_end_to_end:
  assumes "joint_reachable eS ec ce py host port x"
  shows "(\<exists>ys. subseq ys (served (shared x)) \<and> (\<forall>z \<in> set ys. conn x i (Suc (Suc q)) \<noteq> Some (fst z)) \<and>
      map snd ys = map wire_content (delivered (loops x i) q @ item_messages (queues (loops x i) q) @ posted q (callbacks (loops x i)))) \<and>
    (\<forall>m \<in> set (delivered (loops x i) q). \<exists>p name. conn x i (Suc (Suc q)) \<noteq> Some p \<and> wire_content m \<in> set (pub (shared x) p) \<and>
      from_utf8 py name = Some (am_topic m) \<and>
      (name = ''unknown'' \<or> get name (m_topic_map (sy_server (shared x))) = Some (am_topic_key m)))"
proof -
  note inv = joint_reachable_inv [OF assms]
  then have r: "sys_reachable eS ec (shared x)" by (simp add: joint_inv_def)
  obtain ls where "async_run (ce i) py (AsyncClient_init (host i) (port i)) ls (loops x i)"
    using inv unfolding joint_inv_def by blast
  note polled = messages_flow [OF this, of q]
  obtain ys where ys: "map snd ys = map wire_content (polled (loops x i) q)" "subseq ys (served (shared x))"
    and other: "\<forall>z \<in> set ys. conn x i (Suc (Suc q)) \<noteq> Some (fst z)"
    by (rule polled_served [OF inv, of i q])
  have "\<exists>p name. conn x i (Suc (Suc q)) \<noteq> Some p \<and> wire_content m \<in> set (pub (shared x) p) \<and> from_utf8 py name = Some (am_topic m) \<and>
      (name = ''unknown'' \<or> get name (m_topic_map (sy_server (shared x))) = Some (am_topic_key m))"
    if "m \<in> set (delivered (loops x i) q)" for m
  proof -
    have m: "m \<in> set (polled (loops x i) q)" using that polled by simp
    then have "wire_content m \<in> snd ` set ys" using ys(1) by (metis image_eqI list.set_map)
    then obtain p where p: "(p, wire_content m) \<in> set ys" by force
    then have "wire_content m \<in> set (pub (shared x) p)"
      using served_published [OF r] subseq_set [OF ys(2)] by blast
    with polled_named [OF inv m] other p show ?thesis by force
  qed
  with ys other polled show ?thesis by auto
qed

theorem async_recv_end_to_end_witness:
  "\<exists>x p. example_reachable x \<and> delivered (loops x 0) 0 = [bus_message] \<and> (1, byte_span ''hi'') \<in> set (pub (shared x) p)"
proof -
  obtain x where x: "example_reachable x" "delivered (loops x 0) 0 = [bus_message]" using bus_received by blast
  with async_recv_end_to_end [OF x(1), of 0 0] show ?thesis by (auto simp: wire_content_def)
qed



end
