(* ===== verification/Async_Delivery.thy ===== *)
theory Async_Delivery
  imports Async_Bus
begin

text \<open>
  Complete delivery to asyncio clients: \<open>Async_Bus\<close> shows that a session receives nothing but what was published, once and in order; here, that
  it misses nothing. \<open>Delivery\<close> gives this for the native client of the session, and every message that the native client polls goes to the
  session's queue as long as its worker has not failed.
\<close>

section \<open>A session that lasts\<close>

definition live_session :: "nat \<Rightarrow> nat \<Rightarrow> ENetPeer \<Rightarrow> 'u async_system \<Rightarrow> bool" where
  "live_session i q p x \<longleftrightarrow> link x i (Suc (Suc q)) = Some p \<and> posting (loops x i) (Suc (Suc q))"

inductive joint_while ::
    "endian \<Rightarrow> (ENetPeer \<Rightarrow> endian) \<Rightarrow> (nat \<Rightarrow> endian) \<Rightarrow> 'u py_text \<Rightarrow> nat \<Rightarrow> nat \<Rightarrow> ENetPeer \<Rightarrow> 'u async_system \<Rightarrow> 'u async_system \<Rightarrow> bool"
  for eS ec ce py i q p where
  stay: "live_session i q p x \<Longrightarrow> joint_while eS ec ce py i q p x x"
| step: "\<lbrakk>joint_while eS ec ce py i q p x x'; joint_step eS ec ce py x' x''; live_session i q p x''\<rbrakk> \<Longrightarrow>
    joint_while eS ec ce py i q p x x''"

text \<open>What a session has received of a key, in any of the places on the way from the connection to \<^verbatim>\<open>recv\<close>.\<close>

definition session_inbox :: "endian \<Rightarrow> nat \<Rightarrow> nat \<Rightarrow> ENetPeer \<Rightarrow> u64 \<Rightarrow> 'u async_system \<Rightarrow> (u64 \<times> bytes) list" where
  "session_inbox eS i q p k x =
     filter (\<lambda>m. fst m = k)
       (map wire_content (delivered (loops x i) q @ item_messages (queues (loops x i) q) @ posted q (callbacks (loops x i))) @
        concat (map (arriving eS) (down (shared x) p)))"

section \<open>One step\<close>

lemma linked_connected:
  assumes "joint_inv eS ec ce py host port x" and "link x i t = Some p"
  shows "connected p (shared x)"
  using link_invD(4) [OF _ assms(2)] assms(1) client_connected by (auto simp: joint_inv_def connected_def)

lemma advances_same: "subscribed_at p k y \<Longrightarrow> advances eS p k y y"
  by (rule advances_quiet) simp_all

lemma call_effect_quiet:
  "sy_server (call_effect e py net r p c y) = sy_server y" "served (call_effect e py net r p c y) = served y"
  "down (call_effect e py net r p c y) = down y"
  by (cases r; simp add: looked_up_def sent_def split: option.split prod.split sum.split)+

lemma joint_advances:
  assumes inv: "joint_inv eS ec ce py host port x" and "joint_step eS ec ce py x x'" and sub: "subscribed_at p k (shared x)"
    and conn: "connected p (shared x)" "connected p (shared x')"
  shows "advances eS p k (shared x) (shared x')"
proof -
  have r: "sys_reachable eS ec (shared x)" and link: "link_inv ec ce x" using inv by (simp_all add: joint_inv_def)
  have step: "advances eS p k (shared x) (shared x')" if "sys_step eS ec (shared x) (shared x')"
    by (rule sys_step_advances [OF sys_reachable_inv [OF r] that sub conn])
  from assms(2) show ?thesis
  proof (cases rule: joint_step.cases)
    case (others y)
    then show ?thesis by (intro step) simp
  next
    case (dropped i t p b s)
    with sys_step.disconnect [OF dropped(3,4)] show ?thesis by (intro step) simp
  next
    case (created i t result res once_done s' c p b s)
    from created_step [OF created(2)] created(3) obtain host port calls where "bus_client_ctor res host port = (Inr c, calls)"
      by metis
    from sys_step.connect [OF this created(5,6)] created(1) show ?thesis by (intro step) simp
  next
    case (handled i t net s' q command c)
    with sub show ?thesis
      by (intro advances_quiet) (simp_all add: call_effect_quiet call_effect_frame(1) subscribed_at_def)
  next
    case (polls i t event s' q c)
    with link_invD [OF link polls(3)] have "sy_clients (shared x) q = Some c" "ec q = ce i" by simp_all
    with poll_effect_step [OF r, of q c event] polls show ?thesis by (intro step) simp
  qed (use advances_same [OF sub] in simp_all)
qed

text \<open>What the session's worker polls goes to the session's queue.\<close>

definition session_grows :: "'u py_text \<Rightarrow> nat \<Rightarrow> nat \<Rightarrow> ENetPeer \<Rightarrow> 'u async_system \<Rightarrow> 'u async_system \<Rightarrow> bool" where
  "session_grows py i q p x x' \<longleftrightarrow>
     (\<exists>fs ms. got (shared x') p = got (shared x) p @ fs \<and> polled (loops x' i) q = polled (loops x i) q @ ms \<and>
        map (message_of py) fs = map Inr ms)"

lemma grows_same: "\<lbrakk>got (shared x') p = got (shared x) p; polled (loops x' i) q = polled (loops x i) q\<rbrakk> \<Longrightarrow> session_grows py i q p x x'"
  by (auto simp: session_grows_def)

lemma grows_trans:
  assumes "session_grows py i q p x x'" and "session_grows py i q p x' x''"
  shows "session_grows py i q p x x''"
proof -
  obtain fs ms fs' ms' where "got (shared x') p = got (shared x) p @ fs" "polled (loops x' i) q = polled (loops x i) q @ ms"
      "map (message_of py) fs = map Inr ms" "got (shared x'') p = got (shared x') p @ fs'"
      "polled (loops x'' i) q = polled (loops x' i) q @ ms'" "map (message_of py) fs' = map Inr ms'"
    using assms unfolding session_grows_def by blast
  then show ?thesis unfolding session_grows_def by (intro exI [of _ "fs @ fs'"] exI [of _ "ms @ ms'"]) simp
qed

text \<open>A client has one live worker, so a worker other than the session's is that of another client.\<close>

lemma other_loop:
  assumes inv: "joint_inv eS ec ce py host port x" and live: "live_session i q p x"
    and alive: "is_alive (loops x j) t" and "\<not> (j = i \<and> t = Suc (Suc q))"
  shows "j \<noteq> i"
proof
  assume j: "j = i"
  have "is_alive (loops x i) (Suc (Suc q))"
    using live by (auto simp: live_session_def posting_def is_alive_def split: option.splits worker_pc.splits)
  with j alive inv assms(4) show False unfolding joint_inv_def session_inv_def by (metis option.inject)
qed

lemma polls_grows:
  assumes inv: "joint_inv eS ec ce py host port x" and live: "live_session i q p x" "live_session i q p x'"
    and x': "x' = x\<lparr>shared := poll_effect (ce j) event p' c (shared x), loops := (loops x)(j := s')\<rparr>"
    and step: "async_step (ce j) py (loops x j) (Work t (Reported event)) s'" and l: "link x j t = Some p'"
    and c: "worker_client (loops x j) t = Some c"
  shows "session_grows py i q p x x'"
proof (cases "j = i \<and> t = Suc (Suc q)")
  case True
  then have p: "p' = p" and [simp]: "j = i" "t = Suc (Suc q)" using l live(1) by (simp_all add: live_session_def)
  obtain c' where w: "workers (loops x j) t = Some \<lparr>w_pc = Polling, w_client = Some c'\<rparr>" "is_alive (loops x j) t"
    and msg: "\<And>m. fst (poll (ce j) event c') = Inr (Some m) \<Longrightarrow>
      (case message_of py m of
         Inl _ \<Rightarrow> polled s' = polled (loops x j) \<and> \<not> posting s' t
       | Inr msg \<Rightarrow> \<forall>q. a_messages (loops x j) = Some q \<longrightarrow> polled s' = (polled (loops x j))(q := polled (loops x j) q @ [msg]))"
    and none: "\<forall>m. fst (poll (ce j) event c') \<noteq> Inr (Some m) \<Longrightarrow> polled s' = polled (loops x j)"
    by (rule reported_step [OF step]) (rule that; simp only:)
  have c': "c' = c" using c w(1) by (simp add: worker_client_def)
  have q: "a_messages (loops x i) = Some q"
    using inv w(2) unfolding joint_inv_def session_inv_def by fastforce
  have posts: "posting s' t" using live(2) by (simp add: live_session_def x')
  show ?thesis
  proof (cases "\<exists>m. fst (poll (ce i) event c) = Inr (Some m)")
    case some: True
    then obtain m where m: "fst (poll (ce i) event c) = Inr (Some m)" ..
    with msg [of m] c' posts obtain a where "message_of py m = Inr a" "polled s' = (polled (loops x i))(q := polled (loops x i) q @ [a])"
      using q by (auto split: sum.splits)
    with m p show ?thesis
      unfolding session_grows_def by (intro exI [of _ "[m]"] exI [of _ "[a]"]) (simp add: x' poll_effect_got(2))
  next
    case False
    with none c' have "polled s' = polled (loops x i)" by simp
    moreover have "(case fst (poll (ce i) event c) of Inr (Some m) \<Rightarrow> [m] | _ \<Rightarrow> []) = []"
      using False by (auto split: sum.split option.split)
    ultimately show ?thesis using p by (intro grows_same) (simp_all add: x' poll_effect_got(2))
  qed
next
  case False
  have "link x i (Suc (Suc q)) = Some p" using live(1) by (simp add: live_session_def)
  with False l inv link_inject [of ec ce x i "Suc (Suc q)" p j t] have p: "p' \<noteq> p" by (auto simp: joint_inv_def)
  have "is_alive (loops x j) t" by (rule reported_step [OF step])
  from other_loop [OF inv live(1) this False] have "j \<noteq> i" .
  with p show ?thesis by (intro grows_same) (simp_all add: x' poll_effect_got(1))
qed

lemma joint_grows:
  assumes inv: "joint_inv eS ec ce py host port x" and step: "joint_step eS ec ce py x x'"
    and live: "live_session i q p x" "live_session i q p x'"
  shows "session_grows py i q p x x'"
  using step
proof (cases rule: joint_step.cases)
  case (others y)
  have "link x i (Suc (Suc q)) = Some p" using live(1) by (simp add: live_session_def)
  from others(3) [OF this] show ?thesis by (intro grows_same) (simp_all add: others(1))
next
  case (local j l s')
  have "\<And>u event. l \<noteq> Work u (Reported event)" using local(3) by auto
  from polled_step [OF local(2) this] show ?thesis by (intro grows_same) (simp_all add: local(1))
next
  case (create_fails j t result res once_done s')
  from polled_step [OF create_fails(2)] show ?thesis by (intro grows_same) (simp_all add: create_fails(1))
next
  case (created j t result res once_done s' c p' b s)
  from polled_step [OF created(2)] show ?thesis by (intro grows_same) (simp_all add: created(1))
next
  case (handled j t net s' p' command c)
  from polled_step [OF handled(2)] show ?thesis by (intro grows_same) (simp_all add: handled(1) call_effect_frame(1))
next
  case (handled_cut j t net s')
  from polled_step [OF handled_cut(2)] show ?thesis by (intro grows_same) (simp_all add: handled_cut(1))
next
  case (polls j t event s' p' c)
  show ?thesis by (rule polls_grows [where ce = ce and j = j, OF inv live polls(1-4)])
next
  case (polls_cut j t event s')
  have "\<not> (j = i \<and> t = Suc (Suc q))" using live(1) polls_cut(3) by (auto simp: live_session_def)
  moreover have "is_alive (loops x j) t" by (rule reported_step [OF polls_cut(2)])
  ultimately have "j \<noteq> i" using other_loop [OF inv live(1)] by blast
  then show ?thesis by (intro grows_same) (simp_all add: polls_cut(1))
qed (simp_all add: grows_same)

lemma joint_while_live: "joint_while eS ec ce py i q p x x' \<Longrightarrow> live_session i q p x \<and> live_session i q p x'"
  by (induction rule: joint_while.induct) simp_all

lemma joint_while_inv: "\<lbrakk>joint_while eS ec ce py i q p x x'; joint_inv eS ec ce py host port x\<rbrakk> \<Longrightarrow> joint_inv eS ec ce py host port x'"
  by (induction rule: joint_while.induct) (auto intro: joint_inv_step)

lemma joint_while_grows:
  "\<lbrakk>joint_while eS ec ce py i q p x x'; joint_inv eS ec ce py host port x\<rbrakk> \<Longrightarrow> session_grows py i q p x x'"
proof (induction rule: joint_while.induct)
  case (step x x' x'')
  note inv = joint_while_inv [OF step.hyps(1) step.prems]
  have "session_grows py i q p x' x''"
    using joint_while_live [OF step.hyps(1)] by (intro joint_grows [OF inv step.hyps(2) _ step.hyps(3)]) simp
  with step show ?case by (blast intro: grows_trans)
qed (simp add: grows_same)

lemma joint_while_advances:
  "\<lbrakk>joint_while eS ec ce py i q p x x'; joint_inv eS ec ce py host port x; subscribed_at p k (shared x)\<rbrakk> \<Longrightarrow>
     advances eS p k (shared x) (shared x')"
proof (induction rule: joint_while.induct)
  case (stay x)
  then show ?case by (simp add: advances_same)
next
  case (step x x' x'')
  note inv = joint_while_inv [OF step.hyps(1) step.prems(1)]
  have adv: "advances eS p k (shared x) (shared x')" by (rule step.IH [OF step.prems])
  have "connected p (shared x')"
    using joint_while_live [OF step.hyps(1)] linked_connected [OF inv] by (auto simp: live_session_def)
  moreover have "connected p (shared x'')"
    using step.hyps(3) linked_connected [OF joint_inv_step [OF inv step.hyps(2)]] by (auto simp: live_session_def)
  moreover have "subscribed_at p k (shared x')" using adv by (simp add: advances_def)
  ultimately have "advances eS p k (shared x') (shared x'')" by (intro joint_advances [OF inv step.hyps(2)])
  with adv show ?case by (auto simp: advances_def)
qed

section \<open>Properties\<close>

lemma session_inbox_polled:
  assumes "joint_inv eS ec ce py host port x"
  shows "session_inbox eS i q p k x =
    filter (\<lambda>m. fst m = k) (map wire_content (polled (loops x i) q)) @
    filter (\<lambda>m. fst m = k) (concat (map (arriving eS) (down (shared x) p)))"
proof -
  obtain ls where "async_run (ce i) py (AsyncClient_init (host i) (port i)) ls (loops x i)"
    using assms unfolding joint_inv_def by blast
  from messages_flow [OF this, of q] show ?thesis by (simp add: session_inbox_def)
qed

text \<open>C5: An asyncio subscriber misses nothing: from any moment at which the connection of a session is subscribed to a key, and as long as the connection
  lasts and the worker has not failed, under any interleaving with all other clients, peers and event loops, what \<^verbatim>\<open>recv\<close> has returned of the
  key, followed by what is in the session's queue, in the callbacks of the loop and on the way from the server, is what it was at that moment, followed
  by every message of the key that another peer published and the server processed since, once each and in the server's order. When
  nothing is under way any more, \<^verbatim>\<open>recv\<close> has returned exactly these.\<close>

theorem async_delivery_complete:
  assumes "joint_reachable eS ec ce py host port x" and "subscribed_at p k (shared x)" and "joint_while eS ec ce py i q p x x'"
  shows "subscribed_at p k (shared x') \<and> (\<exists>new. served (shared x') = served (shared x) @ new \<and>
    session_inbox eS i q p k x' = session_inbox eS i q p k x @ from_others p k new \<and>
    (down (shared x') p = [] \<and> callbacks (loops x' i) = [] \<and> queues (loops x' i) q = [] \<longrightarrow>
      filter (\<lambda>m. fst m = k) (map wire_content (delivered (loops x' i) q)) = session_inbox eS i q p k x @ from_others p k new))"
proof -
  note inv = joint_reachable_inv [OF assms(1)]
  note inv' = joint_while_inv [OF assms(3) inv]
  from joint_while_advances [OF assms(3) inv assms(2)] obtain new where sub: "subscribed_at p k (shared x')"
    and new: "served (shared x') = served (shared x) @ new" "inbox eS p k (shared x') = inbox eS p k (shared x) @ from_others p k new"
    by (auto simp: advances_def)
  from joint_while_grows [OF assms(3) inv] obtain fs ms where grow: "got (shared x') p = got (shared x) p @ fs"
    "polled (loops x' i) q = polled (loops x i) q @ ms" "map content fs = map wire_content ms"
    using messages_content unfolding session_grows_def by blast
  have "session_inbox eS i q p k x' = session_inbox eS i q p k x @ from_others p k new"
    using new(2) grow by (simp add: session_inbox_polled [OF inv] session_inbox_polled [OF inv'] inbox_def)
  with sub new(1) show ?thesis by (auto simp: session_inbox_def)
qed

theorem async_delivery_complete_witness:
  "\<exists>x x'. example_reachable x \<and> joint_while Little (\<lambda>_. Little) (\<lambda>_. Little) ascii_text 0 0 1 x x' \<and>
     session_inbox Little 0 0 1 1 x = [] \<and> session_inbox Little 0 0 1 1 x' = [(1, byte_span ''hi'')]"
proof -
  obtain x0 x1 x2 x c where r: "example_reachable x0"
    and steps: "example_step x0 x1" "example_step x1 x2" "example_step x2 x"
    and all: "\<forall>z \<in> {x0, x1, x2, x}. polling c (loops z 0) \<and> link z = (\<lambda>_. Map.empty)(0 := [2 \<mapsto> 1])"
    and sub: "sessions (sy_server (shared x0)) = [(9, {}), (1, {1})]" and down: "down (shared x0) = (\<lambda>_. [])"
    and served: "served (shared x) = served (shared x0) @ [(2, 1, byte_span ''hi'')]"
    using bus_publishes by blast
  have live: "live_session 0 0 1 z" if "z \<in> {x0, x1, x2, x}" for z
    using all that by (auto simp: live_session_def polling_def posting_def numeral_2_eq_2)
  have run: "joint_while Little (\<lambda>_. Little) (\<lambda>_. Little) ascii_text 0 0 1 x0 x"
    using steps live by (meson insertI1 insertI2 joint_while.stay joint_while.step)
  have "session_inbox Little 0 0 1 1 x0 = []" using all down by (simp add: session_inbox_def polling_def)
  moreover have "subscribed_at 1 1 (shared x0)" using sub by (simp add: subscribed_at_def)
  note async_delivery_complete [OF r this run]
  ultimately show ?thesis using r run served by (auto simp: from_others_def)
qed

end
