(* ===== verification/Async_Progress.thy ===== *)
theory Async_Progress
  imports Async_Client
begin

text \<open>
  How long a call of the asyncio client can wait. \<open>Async_Client\<close> shows that no call is lost; here, that commands are taken in order: while the
  worker is at work, a command is taken up after as many turns of the worker as there are commands before it, plus two when the
  worker fails in between, whatever else happens. And a limit of this: between two commands the worker polls until
  no message is left, so a stream of messages holds up every command.
\<close>

section \<open>The place in the queue\<close>

text \<open>The number of commands before that of a future, if no close command is among them.\<close>

fun ahead :: "nat \<Rightarrow> 'u command list \<Rightarrow> nat option" where
  "ahead f [] = None"
| "ahead f (c # cs) =
     (if cmd_future c = Some f then Some 0
      else if cmd_request c = Close_request then None
      else map_option Suc (ahead f cs))"

lemma ahead_append: "ahead f cs = Some n \<Longrightarrow> ahead f (cs @ ds) = Some n"
  by (induction f cs arbitrary: n rule: ahead.induct) (auto split: if_splits)

text \<open>A worker that takes commands or fails them, and the turns it needs before it takes the next.\<close>

fun phase :: "'u worker_pc \<Rightarrow> nat option" where
  "phase Ending = None"
| "phase Finished = None"
| "phase (Failing_pending err) = Some 0"
| "phase (Failing_publish err) = Some 1"
| "phase _ = Some 2"

definition worker_phase :: "nat \<Rightarrow> 'u async_client \<Rightarrow> nat option" where
  "worker_phase t s = Option.bind (workers s t) (\<lambda>w. phase (w_pc w))"

text \<open>A call that was taken up: a worker handles it, its completion is on the way, or it is settled.\<close>

definition taken_up :: "nat \<Rightarrow> 'u async_client \<Rightarrow> bool" where
  "taken_up f s \<longleftrightarrow>
     (\<exists>t w c. workers s t = Some w \<and> w_pc w = Handling c \<and> cmd_future c = Some f) \<or>
     (\<exists>r. Complete f r \<in> set (callbacks s)) \<or> futures s f \<noteq> Pending"

section \<open>A call that was taken up\<close>

lemma worker_step_callbacks:
  assumes "worker_step e py inp t pc c s = Some s'"
  shows "set (callbacks s) \<subseteq> set (callbacks s')"
  using assms
  by (cases "(e, py, inp, t, pc, c, s)" rule: worker_step.cases)
    (auto simp: run_start_def run_next_def handle_command_def poll_messages_def fail_pending_def set_pc_def complete_def
      call_soon_def post_message_def publish_worker_error_def Let_def
      split: sum.splits prod.splits list.splits option.splits)

lemma worker_step_handled:
  assumes "worker_step e py inp t (Handling d) c s = Some s'" and "cmd_future d = Some f"
  shows "\<exists>r. Complete f r \<in> set (callbacks s')"
  using assms
  by (cases "(e, py, inp, t, Handling d, c, s)" rule: worker_step.cases)
    (auto simp: handle_command_def set_pc_def complete_def call_soon_def split: prod.splits)

lemma taken_up_work:
  assumes "taken_up f s" and "workers s t = Some w" and step: "worker_step e py inp t (w_pc w) (w_client w) s = Some s'"
  shows "taken_up f s'"
proof -
  consider (other) u w' d where "workers s u = Some w'" "w_pc w' = Handling d" "cmd_future d = Some f" "u \<noteq> t"
    | (own) d where "w_pc w = Handling d" "cmd_future d = Some f"
    | (callback) r where "Complete f r \<in> set (callbacks s)" | (settled) "futures s f \<noteq> Pending"
    using assms(1,2) unfolding taken_up_def by (metis option.inject)
  then show ?thesis
  proof cases
    case other
    then have "workers s' u = Some w'" using worker_step_frame [OF step] by simp
    with other show ?thesis by (auto simp: taken_up_def)
  next
    case own
    with worker_step_handled step show ?thesis by (metis taken_up_def)
  next
    case callback
    with worker_step_callbacks [OF step] show ?thesis by (auto simp: taken_up_def)
  next
    case settled
    with worker_step_futures [OF step] show ?thesis by (simp add: taken_up_def)
  qed
qed

lemma taken_up_same:
  assumes "taken_up f s" and "workers s' = workers s" and "callbacks s' = callbacks s"
    and "futures s f \<noteq> Pending \<Longrightarrow> futures s' f \<noteq> Pending"
  shows "taken_up f s'"
  using assms unfolding taken_up_def by auto

lemma taken_up_step:
  assumes step: "async_step e py s l s'" and fresh: "fresh_inv s" and "taken_up f s"
  shows "taken_up f s'"
proof -
  have kept: "futures s' f \<noteq> Pending" if "futures s f \<noteq> Pending" using done_step [OF step fresh that] that by simp
  from step show ?thesis
  proof (cases rule: async_step.cases)
    case (connect g)
    have "workers s (Suc (Suc (next_id s))) = None" using fresh by (simp add: fresh_inv_def)
    with connect have "workers s' t = Some w" if "workers s t = Some w" for t w
      using that by (auto simp: async_connect_def Let_def split: if_splits)
    moreover have "callbacks s' = callbacks s" using connect by (auto simp: async_connect_def Let_def split: if_splits)
    ultimately show ?thesis using assms(3) kept unfolding taken_up_def by metis
  next
    case (close r)
    then show ?thesis
      by (intro taken_up_same [OF assms(3) _ _ kept])
        (auto simp: async_close_def put_command_def Let_def split: option.splits if_splits sum.splits)
  next
    case (call r x)
    then show ?thesis
      by (intro taken_up_same [OF assms(3) _ _ kept]) (auto simp: async_call_def put_command_def Let_def split: sum.splits)
  next
    case (recv x)
    then show ?thesis by (intro taken_up_same [OF assms(3) _ _ kept]) (auto simp: async_recv_def split: sum.splits)
  next
    case (closed c)
    then show ?thesis
      by (intro taken_up_same [OF assms(3) _ _ kept]) (auto simp: close_resume_def Let_def split: future_state.splits sum.splits)
  next
    case (received q x)
    then show ?thesis
      by (intro taken_up_same [OF assms(3) _ _ kept]; cases "hd (queues s q)") (auto simp: recv_resume_def)
  next
    case (callback cb rest)
    with assms(3) kept show ?thesis by (cases cb) (auto simp: taken_up_def split: future_state.splits)
  next
    case (work t w inp)
    with taken_up_work [OF assms(3)] show ?thesis by blast
  qed (use kept in \<open>auto intro!: taken_up_same [OF assms(3)]\<close>)
qed

section \<open>A call that waits\<close>

definition in_line :: "nat \<Rightarrow> nat \<Rightarrow> 'u async_client \<Rightarrow> bool" where
  "in_line t f s \<longleftrightarrow> ahead f (a_commands s) \<noteq> None \<and> worker_phase t s \<noteq> None"

definition line_rank :: "nat \<Rightarrow> nat \<Rightarrow> 'u async_client \<Rightarrow> nat" where
  "line_rank t f s = the (ahead f (a_commands s)) + the (worker_phase t s)"

text \<open>What a step has to do for a call in line: take it up, or keep it in line at the same place or further on.\<close>

definition moves_on :: "nat \<Rightarrow> nat \<Rightarrow> nat \<Rightarrow> 'u async_client \<Rightarrow> 'u async_client \<Rightarrow> bool" where
  "moves_on t f k s s' \<longleftrightarrow> taken_up f s' \<or> in_line t f s' \<and> line_rank t f s' + k \<le> line_rank t f s"

lemma moves_on_same:
  assumes "in_line t f s" and "ahead f (a_commands s') = ahead f (a_commands s)" and "worker_phase t s' = worker_phase t s"
  shows "moves_on t f 0 s s'"
  using assms by (simp add: moves_on_def in_line_def line_rank_def)

lemma phase_set_pc [simp]:
  "worker_phase t (set_pc u pc c s) = (if u = t then phase pc else worker_phase t s)"
  "a_commands (set_pc u pc c s) = a_commands s"
  by (simp_all add: worker_phase_def set_pc_def)

lemma phase_parts [simp]:
  "worker_phase t (complete g r s) = worker_phase t s" "worker_phase t (post_message m s) = worker_phase t s"
  "worker_phase t (publish_worker_error err s) = worker_phase t s" "worker_phase t (s\<lparr>a_commands := cs\<rparr>) = worker_phase t s"
  "a_commands (complete g r s) = a_commands s" "a_commands (post_message m s) = a_commands s"
  "a_commands (publish_worker_error err s) = a_commands s"
  by (simp_all add: worker_phase_def complete_def call_soon_def post_message_def publish_worker_error_def split: option.split)

text \<open>Taking the next command, for the worker that is watched and for any other.\<close>

lemma taken_up_handling: "cmd_future d = Some f \<Longrightarrow> taken_up f (set_pc u (Handling d) c s)"
  unfolding taken_up_def set_pc_def
  by (intro disjI1 exI [of _ u] exI [of _ "\<lparr>w_pc = Handling d, w_client = c\<rparr>"] exI [of _ d]) simp

lemma taken_up_complete: "taken_up f (complete (Some f) r s)" "taken_up f (set_pc u pc c (complete (Some f) r s))"
  by (auto simp: taken_up_def complete_def call_soon_def set_pc_def)

lemma moves_on_next:
  assumes "in_line t f s" and w: "workers s u = Some w" "w_pc w = Waiting"
  shows "moves_on t f (if u = t then 1 else 0) s (run_next u c s)"
proof -
  obtain n where n: "ahead f (a_commands s) = Some n" using assms(1) by (auto simp: in_line_def)
  then obtain d rest where q: "a_commands s = d # rest" by (cases "a_commands s") simp_all
  show ?thesis
  proof (cases "cmd_future d = Some f")
    case True
    then show ?thesis
      by (simp add: moves_on_def run_next_def q Let_def taken_up_handling taken_up_complete)
  next
    case False
    with n q obtain m where m: "cmd_request d \<noteq> Close_request" "ahead f rest = Some m" "n = Suc m"
      by (auto split: if_splits)
    have "worker_phase u s = Some 2" using w by (simp add: worker_phase_def)
    with m n q assms(1) False show ?thesis
      by (cases "u = t") (auto simp: moves_on_def run_next_def Let_def in_line_def line_rank_def)
  qed
qed

lemma moves_on_fail:
  assumes "in_line t f s" and w: "workers s u = Some w" "w_pc w = Failing_pending err"
  shows "moves_on t f (if u = t then 1 else 0) s (fail_pending u err c s)"
proof -
  obtain n where n: "ahead f (a_commands s) = Some n" using assms(1) by (auto simp: in_line_def)
  then obtain d rest where q: "a_commands s = d # rest" by (cases "a_commands s") simp_all
  show ?thesis
  proof (cases "cmd_future d = Some f")
    case True
    then show ?thesis by (simp add: moves_on_def fail_pending_def q taken_up_complete)
  next
    case False
    with n q obtain m where "ahead f rest = Some m" "n = Suc m" by (auto split: if_splits)
    with n q assms(1) False show ?thesis
      by (auto simp: moves_on_def fail_pending_def in_line_def line_rank_def)
  qed
qed

lemma moves_on_work:
  assumes line: "in_line t f s" and w: "workers s u = Some w" and step: "worker_step e py inp u (w_pc w) (w_client w) s = Some s'"
  shows "moves_on t f (if u = t \<and> inp = Nothing then 1 else 0) s s'"
proof -
  have ph: "worker_phase u s = phase (w_pc w)" using w by (simp add: worker_phase_def)
  from step show ?thesis
  proof (cases "(e, py, inp, u, w_pc w, w_client w, s)" rule: worker_step.cases)
    case (2 e py t' c s0)
    with moves_on_next [OF line w] step show ?thesis by auto
  next
    case (7 e py t' err c s0)
    with moves_on_fail [OF line w] step show ?thesis by auto
  qed (use line w step ph in \<open>auto simp: moves_on_def in_line_def line_rank_def run_start_def handle_command_def poll_messages_def
    split: sum.splits prod.splits option.splits\<close>)
qed

lemma moves_on_step:
  assumes "async_step e py s l s'" and fresh: "fresh_inv s" and line: "in_line t f s"
  shows "moves_on t f (if l = Work t Nothing then 1 else 0) s s'"
  using assms(1)
proof (cases rule: async_step.cases)
  case (connect g)
  have "workers s (Suc (Suc (next_id s))) = None" using fresh by (simp add: fresh_inv_def)
  with line have "t \<noteq> Suc (Suc (next_id s))" by (auto simp: in_line_def worker_phase_def)
  with connect line show ?thesis
    by (auto simp: async_connect_def worker_phase_def Let_def intro!: moves_on_same split: if_splits)
next
  case (close r)
  obtain n where "ahead f (a_commands s) = Some n" using line by (auto simp: in_line_def)
  with close line ahead_append [OF this] show ?thesis
    by (auto simp: async_close_def put_command_def worker_phase_def Let_def intro!: moves_on_same
      split: option.splits if_splits sum.splits)
next
  case (call r x)
  obtain n where "ahead f (a_commands s) = Some n" using line by (auto simp: in_line_def)
  with call line ahead_append [OF this] show ?thesis
    by (auto simp: async_call_def put_command_def worker_phase_def Let_def intro!: moves_on_same split: sum.splits)
next
  case (recv x)
  with line show ?thesis by (auto simp: async_recv_def worker_phase_def intro!: moves_on_same split: sum.splits)
next
  case (closed c)
  with line show ?thesis
    by (auto simp: close_resume_def worker_phase_def Let_def intro!: moves_on_same split: future_state.splits sum.splits)
next
  case (received q x)
  with line show ?thesis
    by (cases "hd (queues s q)") (auto simp: recv_resume_def worker_phase_def intro!: moves_on_same)
next
  case (callback cb rest)
  with line show ?thesis
    by (cases cb) (auto simp: worker_phase_def intro!: moves_on_same split: future_state.splits)
next
  case (work u w inp)
  with moves_on_work [OF line work(2,3)] show ?thesis by auto
qed (use line in \<open>auto simp: worker_phase_def intro!: moves_on_same\<close>)

interpretation line: bounded_wait "async_step e py" "\<lambda>l. l = Work t Nothing"
  "\<lambda>s. fresh_inv s \<and> (taken_up f s \<or> in_line t f s)" "\<lambda>s. \<not> taken_up f s" "line_rank t f" for e py t f
proof
  fix s l s'
  assume s: "fresh_inv s \<and> (taken_up f s \<or> in_line t f s)" and step: "async_step e py s l s'"
  then show "fresh_inv s' \<and> (taken_up f s' \<or> in_line t f s')"
    using fresh_step [OF step] taken_up_step [OF step] moves_on_step [OF step, of t f] by (auto simp: moves_on_def)
  show "\<not> \<not> taken_up f s'" if "\<not> \<not> taken_up f s" using taken_up_step [OF step] s that by blast
  show "line_rank t f s' + (if l = Work t Nothing then 1 else 0) \<le> line_rank t f s" if "\<not> taken_up f s" "\<not> taken_up f s'"
    using moves_on_step [OF step, of t f] s that by (auto simp: moves_on_def)
qed

section \<open>Properties\<close>

text \<open>C37: Bounded waiting: when the command of a call has \<open>n\<close> commands before it in the queue, none of them a close, and a worker is at work, then in any
  run in which this worker has more than \<open>n + 2\<close> turns the call was taken up, whatever calls, cancellations, callbacks, failures and other
  workers come in between: a worker has it in hand, its completion is on the way, or its future is settled; and when
  no worker has a command in hand and the loop has run its callbacks, it is settled.\<close>

theorem async_call_bounded_wait:
  assumes "async_run e py (AsyncClient_init host port) ls0 s" and "ahead f (a_commands s) = Some n" and "worker_phase t s \<noteq> None"
    and "async_run e py s ls s'" and "n + 2 < length (filter (\<lambda>l. l = Work t Nothing) ls)"
  shows "taken_up f s' \<and>
    (callbacks s' = [] \<and> (\<forall>u w d. workers s' u = Some w \<longrightarrow> w_pc w \<noteq> Handling d) \<longrightarrow> futures s' f \<noteq> Pending)"
proof -
  have "phase pc \<noteq> None \<Longrightarrow> the (phase pc) \<le> 2" for pc :: "'a worker_pc" by (cases pc) simp_all
  then have "line_rank t f s \<le> n + 2"
    using assms(2,3) by (auto simp: line_rank_def worker_phase_def split: bind_splits)
  moreover have "fresh_inv s \<and> (taken_up f s \<or> in_line t f s)"
    using assms(2,3) fresh_run [OF assms(1) fresh_init] by (simp add: in_line_def)
  ultimately have "\<not> \<not> taken_up f s'"
    using assms(5) by (intro line.waits_no_more [where t = t and f = f, OF assms(4)]) simp_all
  then show ?thesis by (auto simp: taken_up_def)
qed

theorem async_call_bounded_wait_witness:
  "\<exists>s s'. ahead 3 (a_commands s) = Some 0 \<and> worker_phase 2 s = Some 2 \<and>
     async_run Little ascii_text s [Work 2 Nothing, Work 2 (Answered (example_net [])), Work 2 (Reported None), Work 2 Nothing,
       Work 2 (Reported None), Work 2 Nothing] s' \<and> taken_up 3 s'"
proof -
  obtain client where c: "fst (py_client_init ascii_text 0 example_connect ''h'' (word_of_int 6767) True) = Inr client"
    by (rule example_created)
  let ?r = "Subscribe_request [CHR 0xFF]"
  let ?ls = "[Work 2 Nothing, Work 2 (Answered (example_net [])), Work 2 (Reported None), Work 2 Nothing, Work 2 (Reported None), Work 2 Nothing]"
  have utf: "to_utf8 ascii_text [CHR 0xFF] = None" by (simp add: ascii_text_def)
  obtain s where s: "exec_all Little ascii_text [Connect, Work 2 (Created 0 example_connect True), Run_callback, Call ?r]
      (AsyncClient_init ''h'' 6767) = Some s" "ahead 3 (a_commands s) = Some 0" "worker_phase 2 s = Some 2"
    and "workers s 2 = Some \<lparr>w_pc = Waiting, w_client = Some client\<rparr>" "a_commands s = [\<lparr>cmd_request = ?r, cmd_future = Some 3\<rparr>]"
    using c by (simp add: async_defs worker_phase_def Let_def)
  then have "\<exists>s'. exec_all Little ascii_text ?ls s = Some s'"
    using utf
    by (simp add: run_next_def handle_command_def poll_messages_def set_pc_def complete_def call_soon_def py_subscribe_def
        py_poll_def poll_result poll_answer_def Let_def)
  then obtain s' where "exec_all Little ascii_text ?ls s = Some s'" ..
  note run = exec_run [OF this]
  from async_call_bounded_wait [OF exec_run [OF s(1)] s(2) _ run, of 2] s run show ?thesis by auto
qed

section \<open>Messages before commands\<close>

text \<open>
  \<^verbatim>\<open>_poll_messages\<close> has no limit: as long as every poll returns a message, the worker goes on polling and takes no command, not even a close.
\<close>

lemma messages_before_commands:
  assumes "workers s t = Some \<lparr>w_pc = Polling, w_client = Some client\<rparr>" and "c_inverse_topic_map client = Map.empty"
  shows "\<exists>s'. async_run Little ascii_text s (replicate n (Work t (Reported (Some (ENET_EVENT_TYPE_RECEIVE 30 example_packet))))) s' \<and>
    a_commands s' = a_commands s \<and> (\<exists>c. workers s' t = Some \<lparr>w_pc = Polling, w_client = Some c\<rparr> \<and> c_inverse_topic_map c = Map.empty)"
proof (induction n)
  case 0
  with assms runs.none show ?case by fastforce
next
  case (Suc n)
  let ?ev = "Some (ENET_EVENT_TYPE_RECEIVE 30 example_packet)"
  let ?m = "\<lparr>fm_topic_key = 5, fm_topic = ''unknown'', fm_payload = byte_span ''hi''\<rparr>"
  obtain s1 c where run: "async_run Little ascii_text s (replicate n (Work t (Reported ?ev))) s1" "a_commands s1 = a_commands s"
    and w: "workers s1 t = Some \<lparr>w_pc = Polling, w_client = Some c\<rparr>" "c_inverse_topic_map c = Map.empty"
    using Suc by blast
  obtain c' g where p: "py_poll Little ?ev c = (Inr (Some ?m), c', g)" using example_polled [OF w(2)] by blast
  then have c': "c_inverse_topic_map c' = Map.empty"
    using w(2) by (auto simp: py_poll_def poll_result split: sum.splits option.splits)
  have m: "message_of ascii_text ?m = Inr example_message"
    using payload_bytes_span [of ?m "''hi''"]
    by (simp add: message_of_def py_topic_def py_topic_key_def ascii_text_def example_message_def)
  let ?s = "poll_messages Little ascii_text ?ev t c s1"
  have "async_step Little ascii_text s1 (Work t (Reported ?ev)) ?s" using w(1) by (intro exec_step) simp
  from runs.snoc [OF run(1) this] have "async_run Little ascii_text s (replicate (Suc n) (Work t (Reported ?ev))) ?s"
    by (simp add: replicate_append_same)
  with run(2) c' p m show ?case
    by (intro exI [of _ ?s]) (simp add: poll_messages_def set_pc_def post_message_def call_soon_def split: option.split)
qed

end
