(* ===== verification/Async_Results.thy ===== *)
theory Async_Results
  imports Async_Client
begin

text \<open>
  What a call of the asyncio client returns. \<open>Async_Client\<close> shows that no call is lost; here, what its future is settled with, in any
  interleaving. The replies that the workers give along a run are read off the run: a native method was called for a command, a command was
  failed with the error of its worker, or a close command ended the worker. A call gets at most one reply, the native method is
  called with its arguments, the future is settled with the result and nothing else, and calls are answered
  in the order in which they were made.
\<close>

section \<open>Replies\<close>

datatype 'u reply =
    Answered_by "'u request_kind" topic_lookup bus_client   \<comment> \<open>the native method, what ENet did and the client it was called on\<close>
  | Failed_with async_error                                  \<comment> \<open>by \<^verbatim>\<open>_fail_pending\<close>\<close>
  | Ended_worker

fun reply_value :: "endian \<Rightarrow> 'u py_text \<Rightarrow> 'u reply \<Rightarrow> async_error + result_value" where
  "reply_value e py (Answered_by r net c) = fst (native_call e py net r c)"
| "reply_value e py (Failed_with err) = Inl err"
| "reply_value e py Ended_worker = Inr No_value"

fun reply_to :: "'u request_kind \<Rightarrow> 'u reply \<Rightarrow> bool" where
  "reply_to r (Answered_by r' net c) = (r' = r \<and> r \<noteq> Close_request)"
| "reply_to r (Failed_with err) = True"
| "reply_to r Ended_worker = (r = Close_request)"

text \<open>The reply that the turn of a worker gives, with the future it is for.\<close>

fun worker_reply :: "worker_input \<Rightarrow> 'u worker \<Rightarrow> 'u command list \<Rightarrow> (nat option \<times> 'u reply) option" where
  "worker_reply (Answered net) \<lparr>w_pc = Handling d, w_client = Some c\<rparr> cs = Some (cmd_future d, Answered_by (cmd_request d) net c)"
| "worker_reply Nothing \<lparr>w_pc = Failing_pending err, w_client = c\<rparr> (d # cs) = Some (cmd_future d, Failed_with err)"
| "worker_reply Nothing \<lparr>w_pc = Waiting, w_client = c\<rparr> (d # cs) =
     (if cmd_request d = Close_request then Some (cmd_future d, Ended_worker) else None)"
| "worker_reply _ _ _ = None"

fun step_reply :: "nat \<Rightarrow> 'u async_label \<Rightarrow> 'u async_client \<Rightarrow> 'u reply list" where
  "step_reply f (Work t inp) s =
     (case Option.bind (workers s t) (\<lambda>w. worker_reply inp w (a_commands s)) of
        Some (g, x) \<Rightarrow> (if g = Some f then [x] else [])
      | None \<Rightarrow> [])"
| "step_reply f _ s = []"

text \<open>The replies for a future along a schedule.\<close>

fun replies :: "endian \<Rightarrow> 'u py_text \<Rightarrow> nat \<Rightarrow> 'u async_label list \<Rightarrow> 'u async_client \<Rightarrow> 'u reply list" where
  "replies e py f [] s = []"
| "replies e py f (l # ls) s =
     step_reply f l s @ (case exec e py l s of None \<Rightarrow> [] | Some s' \<Rightarrow> replies e py f ls s')"

lemma step_exec: "async_step e py s l s' \<Longrightarrow> exec e py l s = Some s'"
  by (cases rule: async_step.cases)
    (auto simp: may_finish_def split: future_state.splits sum.splits)

lemma replies_snoc:
  "exec_all e py ls s = Some s' \<Longrightarrow> replies e py f (ls @ [l]) s = replies e py f ls s @ step_reply f l s'"
  by (induction ls arbitrary: s) (auto split: option.splits)

lemma run_exec: "async_run e py s ls s' \<Longrightarrow> exec_all e py ls s = Some s'"
proof (induction rule: runs.induct)
  case (snoc s ls s' l s'')
  have "exec_all e py (ls @ [l]) s = Option.bind (exec_all e py ls s) (exec e py l)"
    by (induction ls arbitrary: s) (auto split: option.split)
  with snoc step_exec show ?case by fastforce
qed simp

section \<open>The stages of a call\<close>

definition holds :: "nat \<Rightarrow> 'u command \<Rightarrow> 'u async_client \<Rightarrow> bool" where
  "holds t d s \<longleftrightarrow> (\<exists>w. workers s t = Some w \<and> w_pc w = Handling d)"

text \<open>Every command in a list is that of a later call.\<close>

definition later :: "nat \<Rightarrow> 'u command list \<Rightarrow> bool" where
  "later f cs \<longleftrightarrow> (\<forall>d \<in> set cs. \<exists>g. cmd_future d = Some g \<and> f < g)"

definition unanswered :: "nat \<Rightarrow> 'u async_client \<Rightarrow> bool" where
  "unanswered f s \<longleftrightarrow> (\<forall>v. Complete f v \<notin> set (callbacks s) \<and> futures s f \<noteq> Done v)"

inductive call_stage :: "endian \<Rightarrow> 'u py_text \<Rightarrow> 'u request_kind \<Rightarrow> nat \<Rightarrow> 'u reply list \<Rightarrow> 'u async_client \<Rightarrow> bool"
  for e py r f where
  queued: "\<lbrakk>a_commands s = before @ d # after; cmd_future d = Some f; cmd_request d = r; \<forall>b \<in> set before. cmd_future b \<noteq> Some f;
     later f after; \<forall>t b. cmd_future b = Some f \<longrightarrow> \<not> holds t b s; unanswered f s\<rbrakk> \<Longrightarrow> call_stage e py r f [] s"
| handled: "\<lbrakk>holds t d s; cmd_future d = Some f; cmd_request d = r; r \<noteq> Close_request;
     \<forall>u b. cmd_future b = Some f \<and> u \<noteq> t \<longrightarrow> \<not> holds u b s; later f (a_commands s); unanswered f s\<rbrakk> \<Longrightarrow> call_stage e py r f [] s"
| answered: "\<lbrakk>reply_to r x; \<forall>t b. cmd_future b = Some f \<longrightarrow> \<not> holds t b s; later f (a_commands s);
     \<forall>v. Complete f v \<in> set (callbacks s) \<or> futures s f = Done v \<longrightarrow> v = reply_value e py x\<rbrakk> \<Longrightarrow> call_stage e py r f [x] s"

lemma later_append [simp]: "later f (cs @ ds) \<longleftrightarrow> later f cs \<and> later f ds"
  and later_Nil [simp]: "later f []"
  and later_Cons [simp]: "later f (d # cs) \<longleftrightarrow> (\<exists>g. cmd_future d = Some g \<and> f < g) \<and> later f cs"
  by (auto simp: later_def)

lemma holds_set_pc: "holds u d (set_pc t pc c s) \<longleftrightarrow> (if u = t then pc = Handling d else holds u d s)"
  by (auto simp: holds_def set_pc_def)

lemma holds_parts [simp]:
  "holds t d (complete g v s) = holds t d s" "holds t d (post_message m s) = holds t d s"
  "holds t d (publish_worker_error err s) = holds t d s" "holds t d (s\<lparr>a_commands := cs\<rparr>) = holds t d s"
  by (simp_all add: holds_def)

lemma unanswered_commands [simp]: "unanswered f (s\<lparr>a_commands := cs\<rparr>) = unanswered f s"
  by (simp add: unanswered_def)

text \<open>A step that leaves the command of the call where it is, and adds no completion of it.\<close>

lemma stage_same:
  assumes stage: "call_stage e py r f vs s"
    and queue: "a_commands s' = a_commands s @ new" "later f new"
    and hold: "\<And>t d. cmd_future d = Some f \<Longrightarrow> holds t d s' \<longleftrightarrow> holds t d s"
    and cbs: "\<And>v. Complete f v \<in> set (callbacks s') \<Longrightarrow> Complete f v \<in> set (callbacks s)"
    and fut: "\<And>v. futures s' f = Done v \<Longrightarrow> futures s f = Done v \<or> Complete f v \<in> set (callbacks s)"
  shows "call_stage e py r f vs s'"
proof -
  have un: "unanswered f s'" if "unanswered f s" using that cbs fut by (auto simp: unanswered_def)
  from stage show ?thesis
  proof (cases rule: call_stage.cases)
    case (queued before d after)
    with queue hold un show ?thesis by (auto intro!: call_stage.queued [of _ before d "after @ new"])
  next
    case (handled t d)
    with queue hold un show ?thesis by (auto intro!: call_stage.handled [of t d])
  next
    case (answered x)
    with queue hold cbs fut show ?thesis by (auto intro!: call_stage.answered)
  qed
qed

text \<open>Taking the first command from the queue.\<close>

lemma stage_pop:
  assumes "call_stage e py r f vs s" and "a_commands s = d # rest"
  shows "cmd_future d \<noteq> Some f \<and> call_stage e py r f vs (s\<lparr>a_commands := rest\<rparr>) \<or>
    cmd_future d = Some f \<and> cmd_request d = r \<and> vs = [] \<and> later f rest \<and> unanswered f s \<and>
    (\<forall>t b. cmd_future b = Some f \<longrightarrow> \<not> holds t b s)"
  using assms(1)
proof (cases rule: call_stage.cases)
  case (queued before d' after)
  show ?thesis
  proof (cases before)
    case Nil
    with queued assms(2) show ?thesis by simp
  next
    case (Cons b before')
    with queued(2) assms(2) have rest: "rest = before' @ d' # after" "b = d" by simp_all
    have "call_stage e py r f [] (s\<lparr>a_commands := rest\<rparr>)"
      by (rule call_stage.queued [of _ before' d' after]) (use queued(3-) rest Cons in simp_all)
    with Cons queued(1,5) rest show ?thesis by simp
  qed
next
  case (handled t d')
  with assms(2) have "call_stage e py r f [] (s\<lparr>a_commands := rest\<rparr>)"
    by (intro call_stage.handled [of t d']) simp_all
  with handled assms(2) show ?thesis by auto
next
  case (answered x)
  with assms(2) have "call_stage e py r f [x] (s\<lparr>a_commands := rest\<rparr>)"
    by (intro call_stage.answered) simp_all
  with answered assms(2) show ?thesis by auto
qed

lemma commands_parts [simp]:
  "a_commands (set_pc t pc c s) = a_commands s" "a_commands (complete g v s) = a_commands s"
  "a_commands (post_message m s) = a_commands s" "a_commands (publish_worker_error err s) = a_commands s"
  by (simp_all add: set_pc_def complete_def call_soon_def post_message_def publish_worker_error_def split: option.split)

lemma completes_parts [simp]:
  "Complete f v \<in> set (callbacks (complete g x s)) \<longleftrightarrow> Complete f v \<in> set (callbacks s) \<or> g = Some f \<and> x = v"
  "Complete f v \<in> set (callbacks (post_message m s)) \<longleftrightarrow> Complete f v \<in> set (callbacks s)"
  "Complete f v \<in> set (callbacks (publish_worker_error err s)) \<longleftrightarrow> Complete f v \<in> set (callbacks s)"
  by (auto simp: complete_def call_soon_def post_message_def publish_worker_error_def split: option.split)

text \<open>A worker that has no command of the call in hand goes on.\<close>

lemma stage_set_pc:
  assumes "call_stage e py r f vs s" and "\<And>d. holds t d s \<Longrightarrow> cmd_future d \<noteq> Some f" and "\<And>d. pc = Handling d \<Longrightarrow> cmd_future d \<noteq> Some f"
  shows "call_stage e py r f vs (set_pc t pc c s)"
  by (rule stage_same [OF assms(1), where new = "[]"]) (use assms(2,3) in \<open>auto simp: holds_set_pc\<close>)

lemma stage_complete: "\<lbrakk>call_stage e py r f vs s; g \<noteq> Some f\<rbrakk> \<Longrightarrow> call_stage e py r f vs (complete g v s)"
  by (erule stage_same [where new = "[]"]) auto

lemma stage_post: "call_stage e py r f vs s \<Longrightarrow> call_stage e py r f vs (post_message m s)"
  by (erule stage_same [where new = "[]"]) auto

lemma stage_publish: "call_stage e py r f vs s \<Longrightarrow> call_stage e py r f vs (publish_worker_error err s)"
  by (erule stage_same [where new = "[]"]) auto

lemmas stage_parts = stage_set_pc stage_complete stage_post stage_publish

text \<open>The reply to the call: from the queue, or by the worker that has it in hand.\<close>

lemma stage_answer:
  assumes "reply_to r x" and "later f (a_commands s)" and "unanswered f s" and "\<And>u d. \<lbrakk>cmd_future d = Some f; u \<noteq> t\<rbrakk> \<Longrightarrow> \<not> holds u d s"
    and "\<And>d. pc = Handling d \<Longrightarrow> cmd_future d \<noteq> Some f"
  shows "call_stage e py r f [x] (set_pc t pc c (complete (Some f) (reply_value e py x) s))"
  by (rule call_stage.answered) (use assms in \<open>auto simp: holds_set_pc unanswered_def\<close>)

section \<open>The steps\<close>

lemma not_holding: "\<lbrakk>workers s t = Some w; \<And>d. w_pc w \<noteq> Handling d\<rbrakk> \<Longrightarrow> \<not> holds t b s"
  by (auto simp: holds_def)

lemma stage_next:
  assumes stage: "call_stage e py r f vs s" and w: "workers s t = Some \<lparr>w_pc = Waiting, w_client = c\<rparr>"
  shows "call_stage e py r f (vs @ step_reply f (Work t Nothing) s) (run_next t c s)"
proof (cases "a_commands s")
  case Nil
  with stage w show ?thesis by (auto simp: run_next_def not_holding intro!: stage_set_pc)
next
  case (Cons d rest)
  let ?s = "s\<lparr>a_commands := rest\<rparr>"
  from stage_pop [OF stage Cons] show ?thesis
  proof (elim disjE conjE)
    assume d: "cmd_future d \<noteq> Some f" "call_stage e py r f vs ?s"
    have "\<not> holds t b ?s" for b using w by (simp add: not_holding)
    with d w show ?thesis by (auto simp: run_next_def Cons Let_def intro!: stage_set_pc stage_complete)
  next
    assume d: "cmd_future d = Some f" "cmd_request d = r" "vs = []" "later f rest" "unanswered f s"
      "\<forall>t b. cmd_future b = Some f \<longrightarrow> \<not> holds t b s"
    show ?thesis
    proof (cases "r = Close_request")
      case True
      with d have "call_stage e py r f [Ended_worker] (set_pc t Ending c (complete (Some f) (reply_value e py Ended_worker) ?s))"
        by (intro stage_answer) auto
      with True d w Cons show ?thesis by (simp add: run_next_def)
    next
      case False
      with d have "call_stage e py r f [] (set_pc t (Handling d) c ?s)"
        by (intro call_stage.handled [of t d]) (auto simp: holds_set_pc unanswered_def)
      with False d w Cons show ?thesis by (simp add: run_next_def)
    qed
  qed
qed

lemma stage_fail:
  assumes stage: "call_stage e py r f vs s" and w: "workers s t = Some \<lparr>w_pc = Failing_pending err, w_client = c\<rparr>"
  shows "call_stage e py r f (vs @ step_reply f (Work t Nothing) s) (fail_pending t err c s)"
proof (cases "a_commands s")
  case Nil
  with stage w show ?thesis by (auto simp: fail_pending_def not_holding intro!: stage_set_pc)
next
  case (Cons d rest)
  let ?s = "s\<lparr>a_commands := rest\<rparr>"
  from stage_pop [OF stage Cons] show ?thesis
  proof (elim disjE conjE)
    assume "cmd_future d \<noteq> Some f" "call_stage e py r f vs ?s"
    with w Cons show ?thesis by (simp add: fail_pending_def stage_complete)
  next
    assume d: "cmd_future d = Some f" "cmd_request d = r" "vs = []" "later f rest" "unanswered f s"
      "\<forall>t b. cmd_future b = Some f \<longrightarrow> \<not> holds t b s"
    then have "call_stage e py r f [Failed_with err] (complete (Some f) (Inl err) ?s)"
      by (intro call_stage.answered) (auto simp: unanswered_def)
    with d w Cons show ?thesis by (simp add: fail_pending_def)
  qed
qed

lemma stage_handle:
  assumes stage: "call_stage e py r f vs s" and w: "workers s t = Some \<lparr>w_pc = Handling d, w_client = Some c\<rparr>"
  shows "call_stage e py r f (vs @ step_reply f (Work t (Answered net)) s) (handle_command e py net t d c s)"
proof -
  obtain v c' where v: "native_call e py net (cmd_request d) c = (v, c')" by fastforce
  have h: "holds t b s \<longleftrightarrow> b = d" for b using w by (auto simp: holds_def)
  show ?thesis
  proof (cases "cmd_future d = Some f")
    case True
    from stage have "vs = [] \<and> cmd_request d = r \<and> r \<noteq> Close_request \<and> later f (a_commands s) \<and> unanswered f s \<and>
      (\<forall>u b. cmd_future b = Some f \<and> u \<noteq> t \<longrightarrow> \<not> holds u b s)"
    proof (cases rule: call_stage.cases)
      case (handled t' d')
      have "holds t d s" using h by simp
      then have "t' = t" using handled(6) True by metis
      with handled h True show ?thesis by auto
    qed (use h True in auto)
    then have "vs = []" and d: "cmd_request d = r" "r \<noteq> Close_request" "later f (a_commands s)" "unanswered f s"
      "\<forall>u b. cmd_future b = Some f \<and> u \<noteq> t \<longrightarrow> \<not> holds u b s"
      by blast+
    then have "call_stage e py r f [Answered_by r net c]
        (set_pc t Polling (Some c') (complete (Some f) (reply_value e py (Answered_by r net c)) s))"
      by (intro stage_answer) auto
    with True d v w \<open>vs = []\<close> show ?thesis by (simp add: handle_command_def)
  next
    case False
    with h have "call_stage e py r f vs (set_pc t Polling (Some c') (complete (cmd_future d) v s))"
      by (intro stage_parts stage) auto
    with False v w show ?thesis by (simp add: handle_command_def)
  qed
qed

lemma stage_work:
  assumes stage: "call_stage e py r f vs s" and started: "a_started s \<noteq> Some f" and w: "workers s t = Some w"
    and step: "worker_step e py inp t (w_pc w) (w_client w) s = Some s'"
  shows "call_stage e py r f (vs @ step_reply f (Work t inp) s) s'"
proof -
  obtain pc c where wc: "w = \<lparr>w_pc = pc, w_client = c\<rparr>" by (cases w) auto
  have idle: "\<not> holds t b s" if "\<And>d. pc \<noteq> Handling d" for b using that w wc by (auto simp: holds_def)
  note w' = w [unfolded wc]
  from step show ?thesis
  proof (cases "(e, py, inp, t, w_pc w, w_client w, s)" rule: worker_step.cases)
    case (2 e' py' t' c' s0)
    with stage_next [OF stage, of t c'] w' step wc show ?thesis by simp
  next
    case (3 e' py' net t' d c' s0)
    with stage_handle [OF stage, of t d c' net] w' step wc show ?thesis by simp
  next
    case (7 e' py' t' err c' s0)
    with stage_fail [OF stage, of t err c'] w' step wc show ?thesis by simp
  qed (use step wc w' stage started idle in \<open>auto simp: run_start_def poll_messages_def intro!: stage_parts
    split: sum.splits prod.splits option.splits\<close>)
qed

lemma worker_step_started:
  assumes "worker_step e py inp t pc c s = Some s'"
  shows "a_started s' = a_started s"
  using assms
  by (cases "(e, py, inp, t, pc, c, s)" rule: worker_step.cases)
    (auto simp: run_start_def run_next_def handle_command_def poll_messages_def fail_pending_def set_pc_def complete_def
      call_soon_def post_message_def publish_worker_error_def Let_def
      split: sum.splits prod.splits list.splits option.splits)

text \<open>The stage of a call with the replies so far, and the future told apart from those that \<^verbatim>\<open>connect\<close> makes.\<close>

definition call_inv ::
    "endian \<Rightarrow> 'u py_text \<Rightarrow> 'u request_kind \<Rightarrow> nat \<Rightarrow> 'u reply list \<Rightarrow> 'u async_client \<Rightarrow> bool" where
  "call_inv e py r f vs s \<longleftrightarrow> fresh_inv s \<and> f < next_id s \<and> a_started s \<noteq> Some f \<and> call_stage e py r f vs s"

lemma call_inv_same:
  assumes "call_inv e py r f vs s" and "fresh_inv s'" and "next_id s \<le> next_id s'" and "a_started s' \<noteq> Some f"
    and "a_commands s' = a_commands s @ new" "later f new"
    and "\<And>t d. cmd_future d = Some f \<Longrightarrow> holds t d s' \<longleftrightarrow> holds t d s"
    and "\<And>v. Complete f v \<in> set (callbacks s') \<Longrightarrow> Complete f v \<in> set (callbacks s)"
    and "\<And>v. futures s' f = Done v \<Longrightarrow> futures s f = Done v \<or> Complete f v \<in> set (callbacks s)"
  shows "call_inv e py r f vs s'"
  using assms stage_same [of e py r f vs s s' new] by (simp add: call_inv_def)

lemma call_inv_step:
  assumes inv: "call_inv e py r f vs s" and step: "async_step e py s l s'"
  shows "call_inv e py r f (vs @ step_reply f l s) s'"
proof -
  from inv have fresh: "fresh_inv s" and f: "f < next_id s" "a_started s \<noteq> Some f" by (auto simp: call_inv_def)
  note fresh' = fresh_step [OF step fresh]
  from step show ?thesis
  proof (cases rule: async_step.cases)
    case (connect g)
    have "workers s (Suc (Suc (next_id s))) = None" using fresh by (simp add: fresh_inv_def)
    with connect f have "call_inv e py r f vs s'"
      by (intro call_inv_same [OF inv fresh', where new = "[]"])
        (auto simp: async_connect_def Let_def holds_def split: if_splits)
    with connect show ?thesis by simp
  next
    case (close x)
    then obtain new where "a_commands s' = a_commands s @ new" "later f new"
      using f by (auto simp: async_close_def put_command_def Let_def split: option.splits if_splits sum.splits)
    with close f have "call_inv e py r f vs s'"
      by (intro call_inv_same [OF inv fresh', where new = new])
        (auto simp: async_close_def put_command_def Let_def holds_def split: option.splits if_splits sum.splits)
    with close show ?thesis by simp
  next
    case (call r' x)
    then obtain new where "a_commands s' = a_commands s @ new" "later f new"
      using f by (auto simp: async_call_def put_command_def Let_def split: sum.splits)
    with call f have "call_inv e py r f vs s'"
      by (intro call_inv_same [OF inv fresh', where new = new])
        (auto simp: async_call_def put_command_def Let_def holds_def split: if_splits sum.splits)
    with call show ?thesis by simp
  next
    case (recv x)
    with f have "call_inv e py r f vs s'"
      by (intro call_inv_same [OF inv fresh', where new = "[]"]) (auto simp: async_recv_def holds_def split: sum.splits)
    with recv show ?thesis by simp
  next
    case (closed c)
    with f have "call_inv e py r f vs s'"
      by (intro call_inv_same [OF inv fresh', where new = "[]"])
        (auto simp: close_resume_def holds_def Let_def split: future_state.splits sum.splits)
    with closed show ?thesis by simp
  next
    case (received q x)
    with f have "call_inv e py r f vs s'"
      by (intro call_inv_same [OF inv fresh', where new = "[]"]; cases "hd (queues s q)") (auto simp: recv_resume_def holds_def)
    with received show ?thesis by simp
  next
    case (callback cb rest)
    with f have "call_inv e py r f vs s'"
      by (intro call_inv_same [OF inv fresh', where new = "[]"]; cases cb)
        (auto simp: holds_def split: future_state.splits if_splits)
    with callback show ?thesis by simp
  next
    case (work t w inp)
    have stage: "call_stage e py r f vs s" using inv by (simp add: call_inv_def)
    from stage_work [OF stage f(2) work(2,3)] worker_step_session [OF work(3)] fresh' f worker_step_started [OF work(3)] work(1)
    show ?thesis by (simp add: call_inv_def)
  qed (use f fresh' in \<open>auto intro!: call_inv_same [OF inv, where new = "[]"] simp: holds_def split: if_splits\<close>)
qed

lemma call_inv_run:
  "\<lbrakk>async_run e py s ls s'; call_inv e py r f [] s\<rbrakk> \<Longrightarrow> call_inv e py r f (replies e py f ls s) s'"
  by (induction rule: runs.induct) (auto simp: replies_snoc run_exec intro: call_inv_step)

lemma call_inv_start:
  assumes "fresh_inv s" and "async_call r s = (Inr f, s')"
  shows "call_inv e py r f [] s' \<and> open_call s' f"
proof -
  have put: "put_command r s = (f, s')" using assms(2) by (auto simp: async_call_def Let_def split: sum.splits prod.splits)
  then have s': "f = next_id s" "a_commands s' = a_commands s @ [\<lparr>cmd_request = r, cmd_future = Some f\<rparr>]" "futures s' f = Pending"
    "callbacks s' = callbacks s" "workers s' = workers s" "a_started s' = a_started s" "next_id s' = Suc f"
    by (auto simp: put_command_def Let_def)
  have "list_all (command_fresh f) (a_commands s)" "list_all (callback_fresh f) (callbacks s)" "pred_option (\<lambda>g. g < f) (a_started s)"
    using assms(1) s'(1) by (simp_all add: fresh_inv_def)
  moreover have "\<not> holds t b s'" if "cmd_future b = Some f" for t b
    using fresh_below [OF assms(1), of t] that s' by (auto simp: holds_def command_fresh_def)
  ultimately have "call_stage e py r f [] s'"
    using s' by (intro call_stage.queued [of s' "a_commands s" "\<lparr>cmd_request = r, cmd_future = Some f\<rparr>" "[]"])
      (auto simp: list_all_iff command_fresh_def unanswered_def)
  with fresh_put [OF assms(1) put] s' \<open>pred_option _ _\<close> show ?thesis by (auto simp: call_inv_def open_call_def)
qed

section \<open>Properties\<close>

text \<open>C38: What a call of the asyncio client returns, in any interleaving: along the run that follows the call, the workers give at most one reply
  to it. As long as they gave none, its future is pending or cancelled. When they gave one, it was the native method called with the arguments of the
  call, or the error of a worker that failed; the future is settled with exactly this result or exception, unless it was cancelled
  first, or its completion is on the way; and every command that is still queued belongs to a later call, so that calls are taken up in
  the order in which they were made.\<close>

theorem async_call_result:
  assumes "async_run e py (AsyncClient_init host port) ls0 s" and "async_call r s = (Inr f, s1)" and "async_run e py s1 ls s2"
  shows "(replies e py f ls s1 = [] \<and> (futures s2 f = Pending \<or> futures s2 f = Cancelled)) \<or>
    (\<exists>x. replies e py f ls s1 = [x] \<and> reply_to r x \<and>
      (futures s2 f = Done (reply_value e py x) \<or> futures s2 f = Cancelled \<or>
       futures s2 f = Pending \<and> Complete f (reply_value e py x) \<in> set (callbacks s2)) \<and>
      (\<forall>d \<in> set (a_commands s2). \<exists>g. cmd_future d = Some g \<and> f < g))"
proof -
  have start: "call_inv e py r f [] s1" "open_call s1 f"
    using call_inv_start [OF fresh_run [OF assms(1) fresh_init] assms(2)] by simp_all
  have found: "open_call s2 f \<or> futures s2 f \<noteq> Pending"
    using open_run [OF assms(3)] start by (auto simp: call_inv_def)
  from call_inv_run [OF assms(3) start(1)] have "call_stage e py r f (replies e py f ls s1) s2" by (simp add: call_inv_def)
  then show ?thesis
  proof (cases rule: call_stage.cases)
    case (answered x)
    have "\<not> (\<exists>c \<in> set (a_commands s2). cmd_future c = Some f)" using answered(4) by (auto simp: later_def)
    with found answered(3) have "\<exists>v. Complete f v \<in> set (callbacks s2)" if "futures s2 f = Pending"
      using that by (auto simp: open_call_def holds_def)
    with answered show ?thesis by (cases "futures s2 f") (auto simp: later_def)
  qed (cases "futures s2 f"; auto simp: unanswered_def)+
qed

text \<open>A second call comes in between; the worker answers the first, whose topic is no valid text, and the second waits.\<close>

theorem async_call_result_witness:
  "\<exists>s1 s2 client. async_run Little ascii_text s1
       [Call (Key_request ''t''), Work 2 Nothing, Work 2 (Answered (example_net [])), Run_callback] s2 \<and>
     replies Little ascii_text 3 [Call (Key_request ''t''), Work 2 Nothing, Work 2 (Answered (example_net [])), Run_callback] s1 =
       [Answered_by (Subscribe_request [CHR 0xFF]) (example_net []) client] \<and>
     futures s2 3 = Done (Inl (Native Conversion_error)) \<and> map cmd_future (a_commands s2) = [Some 4]"
proof -
  obtain client where c: "fst (py_client_init ascii_text 0 example_connect ''h'' (word_of_int 6767) True) = Inr client"
    by (rule example_created)
  let ?r = "Subscribe_request [CHR 0xFF]"
  let ?ls = "[Call (Key_request ''t''), Work 2 Nothing, Work 2 (Answered (example_net [])), Run_callback]"
  have n: "fst (native_call Little ascii_text (example_net []) ?r client) = Inl (Native Conversion_error)"
    by (simp add: py_subscribe_def ascii_text_def)
  obtain s s1 where s: "exec_all Little ascii_text [Connect, Work 2 (Created 0 example_connect True), Run_callback]
      (AsyncClient_init ''h'' 6767) = Some s" and s1: "async_call ?r s = (Inr 3, s1)"
    and st: "workers s1 2 = Some \<lparr>w_pc = Waiting, w_client = Some client\<rparr>" "a_commands s1 = [\<lparr>cmd_request = ?r, cmd_future = Some 3\<rparr>]"
      "callbacks s1 = []" "next_id s1 = 4" "futures s1 3 = Pending" "ensure_running s1 = Inr ()" "require_loop s1 = Inr ()"
    using c by (simp add: async_defs Let_def)
  obtain v c' where v: "native_call Little ascii_text (example_net []) ?r client = (v, c')" by fastforce
  obtain s2 where s2: "exec_all Little ascii_text ?ls s1 = Some s2" "map cmd_future (a_commands s2) = [Some 4]" "callbacks s2 = []"
    "futures s2 3 \<noteq> Cancelled"
    and run: "replies Little ascii_text 3 ?ls s1 = [Answered_by ?r (example_net []) client]"
    using st v
    by (simp add: async_call_def put_command_def run_next_def handle_command_def set_pc_def complete_def call_soon_def Let_def
        del: native_call.simps)
  note run2 = exec_run [OF s2(1)]
  have "futures s2 3 = Done (Inl (Native Conversion_error))"
    using async_call_result [OF exec_run [OF s] s1 run2] run n s2(3,4) by auto
  with run2 run s2(2) show ?thesis by (intro exI conjI)
qed

end
