(* ===== verification/Python_Example.thy ===== *)
theory Python_Example
  imports Async_Client
begin

text \<open>
  The Python example, \<^verbatim>\<open>examples/python/main.py\<close>: a script that enters an \<^verbatim>\<open>AsyncClient\<close>, subscribes to a topic, prints what it receives in
  a task of its own, and publishes a message.

  The script is two tasks over the asyncio client of \<open>Async_Client\<close>. A task runs from one \<^verbatim>\<open>await\<close> to the next in one step; between the steps
  of the tasks the event loop runs callbacks and the worker thread works, in any order. \<^verbatim>\<open>asyncio.run\<close> gives two more steps: Ctrl-C cancels the
  main task at the \<^verbatim>\<open>await\<close> where it is, and once the main task has ended a receiver that is left is cancelled. Texts are of a type
  \<open>'u\<close>; \<^verbatim>\<open>str.encode\<close>, \<^verbatim>\<open>bytes.decode\<close> and the text of a literal are parameters.

  The steps allow more orders than asyncio: a task whose future is settled may resume after any number of further callbacks, while the loop
  resumes it in the order of \<^verbatim>\<open>call_soon\<close>. What is shown of all runs holds of those of the loop; the run that is exhibited for the hang keeps the
  loop's order.
\<close>

section \<open>The script's surroundings\<close>

record 'u codec =
  str_encode :: "'u \<Rightarrow> string \<Rightarrow> async_error + string"
  bytes_decode :: "string \<Rightarrow> string \<Rightarrow> string \<Rightarrow> async_error + 'u"
  literal :: "string \<Rightarrow> 'u"

text \<open>\<^verbatim>\<open>Message.text\<close>; the script calls it with its default arguments.\<close>

definition async_text :: "'u codec \<Rightarrow> 'u async_message \<Rightarrow> string \<Rightarrow> string \<Rightarrow> async_error + 'u" where
  "async_text codec message encoding errors = bytes_decode codec (am_payload message) encoding errors"

definition default_text :: "'u codec \<Rightarrow> 'u async_message \<Rightarrow> async_error + 'u" where
  "default_text codec message = async_text codec message ''utf-8'' ''strict''"

text \<open>\<^verbatim>\<open>__aenter__\<close>, \<^verbatim>\<open>__aexit__\<close> and \<^verbatim>\<open>messages\<close>, each up to the \<^verbatim>\<open>await\<close> inside.\<close>

definition aenter :: "'u async_client \<Rightarrow> nat option \<times> 'u async_client" where
  "aenter s = async_connect s"

definition aexit :: "'u async_client \<Rightarrow> (async_error + unit) \<times> 'u async_client" where
  "aexit s = async_close s"

definition messages_next :: "'u async_client \<Rightarrow> (async_error + nat) \<times> 'u async_client" where
  "messages_next s = async_recv s"

datatype task_error = Raised async_error | Cancelled_error | Type_error

text \<open>What \<^verbatim>\<open>await\<close> gives for a future, if it is settled.\<close>

fun awaited :: "future_state \<Rightarrow> (task_error + result_value) option" where
  "awaited Pending = None"
| "awaited Cancelled = Some (Inl Cancelled_error)"
| "awaited (Done (Inl err)) = Some (Inl (Raised err))"
| "awaited (Done (Inr v)) = Some (Inr v)"

section \<open>The script\<close>

definition HOST :: string where "HOST = ''localhost''"
definition PORT :: int where "PORT = 6767"
definition SUBSCRIBE_TOPIC :: string where "SUBSCRIBE_TOPIC = ''python_example_in''"
definition PUBLISH_TOPIC :: string where "PUBLISH_TOPIC = ''python_example_out''"
definition PUBLISH_MESSAGE :: string where "PUBLISH_MESSAGE = ''hello from the spraybus Python example''"

datatype main_pc =
    Before
  | Entering nat
  | Subscribing nat
  | Publishing nat
  | Awaiting_receiver
  | Leaving "nat \<times> nat" "task_error + unit"   \<comment> \<open>in \<^verbatim>\<open>__aexit__\<close>, with the outcome of the body\<close>
  | Main_ended "task_error + unit"

datatype receiver_pc = Not_created | Scheduled | Receiving nat | Receiver_ended task_error

text \<open>A printed line, with the task that printed it.\<close>

datatype 'u printed_line = Status 'u | Text_line 'u

record 'u script =
  sc_client :: "'u async_client"
  sc_main :: main_pc
  sc_receiver :: receiver_pc
  sc_lines :: "'u printed_line list"
  sc_subscribed :: "nat option"   \<comment> \<open>history: the future of \<^verbatim>\<open>subscribe\<close>\<close>
  sc_published :: "nat option"    \<comment> \<open>history: the future of \<^verbatim>\<open>publish\<close>\<close>

definition script_init :: "'u codec \<Rightarrow> 'u script" where
  "script_init codec =
     \<lparr>sc_client = AsyncClient_init (literal codec HOST) PORT, sc_main = Before, sc_receiver = Not_created, sc_lines = [],
      sc_subscribed = None, sc_published = None\<rparr>"

subsection \<open>The receiver\<close>

text \<open>\<^verbatim>\<open>print_messages\<close>: up to the next message, and from there on.\<close>

definition print_messages_next :: "'u script \<Rightarrow> 'u script" where
  "print_messages_next x =
     (case messages_next (sc_client x) of
        (Inl err, s) \<Rightarrow> x\<lparr>sc_client := s, sc_receiver := Receiver_ended (Raised err)\<rparr>
      | (Inr q, s) \<Rightarrow> x\<lparr>sc_client := s, sc_receiver := Receiving q\<rparr>)"

definition print_messages_item :: "'u codec \<Rightarrow> nat \<Rightarrow> 'u script \<Rightarrow> 'u script" where
  "print_messages_item codec q x =
     (case recv_resume q (sc_client x) of
        (Inl err, s) \<Rightarrow> x\<lparr>sc_client := s, sc_receiver := Receiver_ended (Raised err)\<rparr>
      | (Inr message, s) \<Rightarrow>
          (case default_text codec message of
             Inl err \<Rightarrow> x\<lparr>sc_client := s, sc_receiver := Receiver_ended (Raised err)\<rparr>
           | Inr line \<Rightarrow> print_messages_next (x\<lparr>sc_client := s, sc_lines := sc_lines x @ [Text_line line]\<rparr>)))"

definition receiver_step :: "'u codec \<Rightarrow> 'u script \<Rightarrow> 'u script option" where
  "receiver_step codec x =
     (case sc_receiver x of
        Scheduled \<Rightarrow> Some (print_messages_next x)
      | Receiving q \<Rightarrow>
          (if q \<in> set (receiving (sc_client x)) \<and> queues (sc_client x) q \<noteq> [] then Some (print_messages_item codec q x) else None)
      | _ \<Rightarrow> None)"

subsection \<open>The main task\<close>

definition main_leave :: "task_error + unit \<Rightarrow> 'u script \<Rightarrow> 'u script" where
  "main_leave outcome x =
     (case aexit (sc_client x) of
        (Inl err, s) \<Rightarrow> x\<lparr>sc_client := s, sc_main := Main_ended (Inl (Raised err))\<rparr>
      | (Inr _, s) \<Rightarrow>
          x\<lparr>sc_client := s,
            sc_main := if length (closing s) > length (closing (sc_client x)) then Leaving (last (closing s)) outcome
              else Main_ended outcome\<rparr>)"

definition main_enter :: "'u script \<Rightarrow> 'u script" where
  "main_enter x =
     (case aenter (sc_client x) of
        (None, s) \<Rightarrow> x\<lparr>sc_client := s, sc_main := Main_ended (Inl Type_error)\<rparr>
      | (Some f, s) \<Rightarrow> x\<lparr>sc_client := s, sc_main := Entering f\<rparr>)"

definition main_entered :: "'u codec \<Rightarrow> task_error + result_value \<Rightarrow> 'u script \<Rightarrow> 'u script" where
  "main_entered codec r x =
     (case r of
        Inl err \<Rightarrow> x\<lparr>sc_main := Main_ended (Inl err)\<rparr>
      | Inr _ \<Rightarrow>
          (case async_subscribe (literal codec SUBSCRIBE_TOPIC) (sc_client x) of
             (Inl err, s) \<Rightarrow> main_leave (Inl (Raised err)) (x\<lparr>sc_client := s\<rparr>)
           | (Inr f, s) \<Rightarrow> x\<lparr>sc_client := s, sc_main := Subscribing f, sc_subscribed := Some f\<rparr>))"

definition main_subscribed :: "'u codec \<Rightarrow> task_error + result_value \<Rightarrow> 'u script \<Rightarrow> 'u script" where
  "main_subscribed codec r x =
     (case r of
        Inl err \<Rightarrow> main_leave (Inl err) x
      | Inr _ \<Rightarrow>
          (case async_publish (str_encode codec) (literal codec PUBLISH_TOPIC) (Str (literal codec PUBLISH_MESSAGE)) ''utf-8''
              (sc_client x) of
             (Inl err, s) \<Rightarrow> main_leave (Inl (Raised err)) (x\<lparr>sc_client := s, sc_receiver := Scheduled\<rparr>)
           | (Inr f, s) \<Rightarrow> x\<lparr>sc_client := s, sc_receiver := Scheduled, sc_main := Publishing f, sc_published := Some f\<rparr>))"

definition status_lines :: "'u codec \<Rightarrow> 'u list" where
  "status_lines codec =
     [literal codec (''subscribed to '' @ SUBSCRIBE_TOPIC),
      literal codec (''published to '' @ PUBLISH_TOPIC @ '': '' @ PUBLISH_MESSAGE)]"

definition main_published :: "'u codec \<Rightarrow> task_error + result_value \<Rightarrow> 'u script \<Rightarrow> 'u script" where
  "main_published codec r x =
     (case r of
        Inl err \<Rightarrow> main_leave (Inl err) x
      | Inr _ \<Rightarrow> x\<lparr>sc_lines := sc_lines x @ map Status (status_lines codec), sc_main := Awaiting_receiver\<rparr>)"

text \<open>The end of \<^verbatim>\<open>async with\<close>: an exception of \<^verbatim>\<open>close\<close> replaces that of the body.\<close>

definition main_left :: "nat \<times> nat \<Rightarrow> task_error + unit \<Rightarrow> 'u script \<Rightarrow> 'u script" where
  "main_left c outcome x =
     x\<lparr>sc_client := close_resume c (sc_client x),
       sc_main := Main_ended (case awaited (futures (sc_client x) (fst c)) of Some (Inl err) \<Rightarrow> Inl err | _ \<Rightarrow> outcome)\<rparr>"

definition main_step :: "'u codec \<Rightarrow> 'u script \<Rightarrow> 'u script option" where
  "main_step codec x =
     (case sc_main x of
        Before \<Rightarrow> Some (main_enter x)
      | Entering f \<Rightarrow> map_option (\<lambda>r. main_entered codec r x) (awaited (futures (sc_client x) f))
      | Subscribing f \<Rightarrow> map_option (\<lambda>r. main_subscribed codec r x) (awaited (futures (sc_client x) f))
      | Publishing f \<Rightarrow> map_option (\<lambda>r. main_published codec r x) (awaited (futures (sc_client x) f))
      | Awaiting_receiver \<Rightarrow>
          (case sc_receiver x of Receiver_ended err \<Rightarrow> Some (main_leave (Inl err) x) | _ \<Rightarrow> None)
      | Leaving c outcome \<Rightarrow> if may_finish c (sc_client x) then Some (main_left c outcome x) else None
      | Main_ended _ \<Rightarrow> None)"

subsection \<open>Cancellation and the end of the program\<close>

definition cancel_future :: "nat \<Rightarrow> 'u script \<Rightarrow> 'u script" where
  "cancel_future f x = x\<lparr>sc_client := (sc_client x)\<lparr>futures := (futures (sc_client x))(f := Cancelled)\<rparr>\<rparr>"

definition cancel_receiver :: "'u script \<Rightarrow> 'u script" where
  "cancel_receiver x =
     (case sc_receiver x of
        Scheduled \<Rightarrow> x\<lparr>sc_receiver := Receiver_ended Cancelled_error\<rparr>
      | Receiving q \<Rightarrow>
          x\<lparr>sc_receiver := Receiver_ended Cancelled_error,
            sc_client := (sc_client x)\<lparr>receiving := remove1 q (receiving (sc_client x))\<rparr>\<rparr>
      | _ \<Rightarrow> x)"

text \<open>
  Cancelling the main task cancels the future or the task that it awaits; when that is settled already, the exception is thrown
  in its place.
\<close>

definition main_interrupt :: "'u script \<Rightarrow> 'u script option" where
  "main_interrupt x =
     (case sc_main x of
        Before \<Rightarrow> Some (x\<lparr>sc_main := Main_ended (Inl Cancelled_error)\<rparr>)
      | Entering f \<Rightarrow>
          Some (if futures (sc_client x) f = Pending then cancel_future f x else x\<lparr>sc_main := Main_ended (Inl Cancelled_error)\<rparr>)
      | Subscribing f \<Rightarrow>
          Some (if futures (sc_client x) f = Pending then cancel_future f x else main_leave (Inl Cancelled_error) x)
      | Publishing f \<Rightarrow>
          Some (if futures (sc_client x) f = Pending then cancel_future f x else main_leave (Inl Cancelled_error) x)
      | Awaiting_receiver \<Rightarrow>
          Some (case sc_receiver x of Receiver_ended _ \<Rightarrow> main_leave (Inl Cancelled_error) x | _ \<Rightarrow> cancel_receiver x)
      | Leaving c outcome \<Rightarrow>
          Some (if futures (sc_client x) (fst c) = Pending then cancel_future (fst c) x
            else x\<lparr>sc_main := Main_ended (Inl Cancelled_error),
              sc_client := (sc_client x)\<lparr>closing := remove1 c (closing (sc_client x))\<rparr>\<rparr>)
      | Main_ended _ \<Rightarrow> None)"

subsection \<open>Steps\<close>

datatype script_label = Main_task | Receiver_task | Interrupt | Shutdown | Loop_callback | Worker_thread nat worker_input

fun script_exec ::
    "endian \<Rightarrow> 'u py_text \<Rightarrow> 'u codec \<Rightarrow> script_label \<Rightarrow> 'u script \<Rightarrow> 'u script option" where
  "script_exec e py codec Main_task x = main_step codec x"
| "script_exec e py codec Receiver_task x = receiver_step codec x"
| "script_exec e py codec Interrupt x = main_interrupt x"
| "script_exec e py codec Shutdown x =
     (case sc_main x of Main_ended _ \<Rightarrow> Some (cancel_receiver x) | _ \<Rightarrow> None)"
| "script_exec e py codec Loop_callback x = map_option (\<lambda>s. x\<lparr>sc_client := s\<rparr>) (exec e py Run_callback (sc_client x))"
| "script_exec e py codec (Worker_thread t inp) x = map_option (\<lambda>s. x\<lparr>sc_client := s\<rparr>) (exec e py (Work t inp) (sc_client x))"

definition script_step ::
    "endian \<Rightarrow> 'u py_text \<Rightarrow> 'u codec \<Rightarrow> 'u script \<Rightarrow> script_label \<Rightarrow> 'u script \<Rightarrow> bool" where
  "script_step e py codec x l x' \<longleftrightarrow> script_exec e py codec l x = Some x'"

abbreviation script_run ::
    "endian \<Rightarrow> 'u py_text \<Rightarrow> 'u codec \<Rightarrow> 'u script \<Rightarrow> script_label list \<Rightarrow> 'u script \<Rightarrow> bool" where
  "script_run e py codec \<equiv> runs (script_step e py codec)"


section \<open>What the calls of the client change\<close>

definition same_calls :: "'u async_client \<Rightarrow> 'u async_client \<Rightarrow> bool" where
  "same_calls s s' \<longleftrightarrow>
     a_messages s' = a_messages s \<and> next_id s' = next_id s \<and> closing s' = closing s \<and> receiving s' = receiving s \<and>
     delivered s' = delivered s"

fun background :: "'u async_label \<Rightarrow> bool" where
  "background Run_callback = True"
| "background (Work t inp) = True"
| "background _ = False"

lemma background_same:
  assumes "exec e py l s = Some s'" and "background l"
  shows "same_calls s s'"
  using assms(2)
proof (cases rule: background.elims(2))
  case 1
  with assms(1) obtain cb rest where "s' = run_callback cb (s\<lparr>callbacks := rest\<rparr>)" by (auto split: list.splits)
  then show ?thesis by (cases cb) (simp_all add: same_calls_def split: future_state.split)
next
  case (2 t inp)
  with assms(1) obtain w where "workers s t = Some w" "worker_step e py inp t (w_pc w) (w_client w) s = Some s'"
    by (auto split: option.splits)
  note this(2)
  from worker_step_session [OF this] worker_step_frame [OF this] show ?thesis by (simp add: same_calls_def)
qed

lemma call_changes:
  assumes "async_call r s = (x, s')"
  shows "a_messages s' = a_messages s \<and> closing s' = closing s \<and> receiving s' = receiving s \<and> delivered s' = delivered s \<and>
    (\<forall>f. x = Inr f \<longrightarrow> f < next_id s') \<and> (isl x \<longrightarrow> s' = s)"
  using assms by (auto simp: async_call_def put_command_def Let_def split: sum.splits)

lemma publish_changes:
  assumes "async_publish encode topic payload encoding s = (x, s')"
  shows "a_messages s' = a_messages s \<and> closing s' = closing s \<and> receiving s' = receiving s \<and> delivered s' = delivered s \<and>
    (\<forall>f. x = Inr f \<longrightarrow> f < next_id s') \<and> (isl x \<longrightarrow> s' = s)"
  using assms call_changes by (fastforce simp: async_publish_def split: sum.splits)

lemma close_changes:
  assumes "async_close s = (r, s')"
  shows "a_messages s' = a_messages s \<and> receiving s' = receiving s \<and> delivered s' = delivered s \<and>
    (closing s' = closing s \<or> (\<exists>c. r = Inr () \<and> closing s' = closing s @ [c] \<and> fst c < next_id s'))"
  using assms by (auto simp: async_close_def put_command_def Let_def split: option.splits if_splits sum.splits)

lemma recv_changes:
  assumes "async_recv s = (x, s')"
  shows "a_messages s' = a_messages s \<and> closing s' = closing s \<and> delivered s' = delivered s \<and> next_id s' = next_id s \<and>
    receiving s' = (case x of Inl _ \<Rightarrow> receiving s | Inr q \<Rightarrow> receiving s @ [q]) \<and>
    (\<forall>q. x = Inr q \<longrightarrow> a_messages s = Some q)"
  using assms by (auto simp: async_recv_def require_messages_def split: sum.splits option.splits)

lemma resume_changes:
  assumes "recv_resume q s = (x, s')"
  shows "a_messages s' = a_messages s \<and> closing s' = closing s \<and> next_id s' = next_id s \<and> receiving s' = remove1 q (receiving s) \<and>
    delivered s' = (case x of Inl _ \<Rightarrow> delivered s | Inr m \<Rightarrow> (delivered s)(q := delivered s q @ [m]))"
  using assms by (cases "hd (queues s q)") (auto simp: recv_resume_def)

lemma close_resume_changes:
  "a_messages (close_resume c s) = a_messages s" "next_id (close_resume c s) = next_id s"
  "closing (close_resume c s) = remove1 c (closing s)" "receiving (close_resume c s) = receiving s"
  "delivered (close_resume c s) = delivered s"
  by (simp_all add: close_resume_def Let_def split: future_state.split sum.split)

section \<open>Where the tasks are\<close>

fun main_waits :: "main_pc \<Rightarrow> nat \<Rightarrow> bool" where
  "main_waits (Entering f) n = (f < n)"
| "main_waits (Subscribing f) n = (f < n)"
| "main_waits (Publishing f) n = (f < n)"
| "main_waits (Leaving c outcome) n = (fst c < n)"
| "main_waits _ n = True"

fun main_closing :: "main_pc \<Rightarrow> (nat \<times> nat) list" where
  "main_closing (Leaving c outcome) = [c]"
| "main_closing _ = []"

fun receiver_receiving :: "receiver_pc \<Rightarrow> nat list" where
  "receiver_receiving (Receiving q) = [q]"
| "receiver_receiving _ = []"

fun main_early :: "main_pc \<Rightarrow> bool" where
  "main_early (Entering f) = True"
| "main_early (Subscribing f) = True"
| "main_early _ = False"

text \<open>The calls that are suspended in the client are those of the two tasks, and the session is the first.\<close>

definition receiver_inv :: "'u script \<Rightarrow> bool" where
  "receiver_inv x \<longleftrightarrow>
     receiving (sc_client x) = receiver_receiving (sc_receiver x) \<and> set (receiver_receiving (sc_receiver x)) \<subseteq> {0} \<and>
     (sc_receiver x = Not_created \<or> a_messages (sc_client x) = Some 0)"

definition main_inv :: "'u codec \<Rightarrow> 'u script \<Rightarrow> bool" where
  "main_inv codec x \<longleftrightarrow>
     (sc_main x = Before \<longrightarrow> x = script_init codec) \<and> main_waits (sc_main x) (next_id (sc_client x)) \<and>
     closing (sc_client x) = main_closing (sc_main x) \<and>
     (main_early (sc_main x) \<longrightarrow> sc_receiver x = Not_created \<and> a_messages (sc_client x) = Some 0)"

definition tasks_inv :: "'u codec \<Rightarrow> 'u script \<Rightarrow> bool" where
  "tasks_inv codec x \<longleftrightarrow> main_inv codec x \<and> receiver_inv x"

lemma tasks_init: "tasks_inv codec (script_init codec)"
  by (simp add: tasks_inv_def main_inv_def receiver_inv_def script_init_def AsyncClient_init_def)

lemma tasks_leave:
  assumes "closing (sc_client x) = []" and "receiver_inv x"
  shows "tasks_inv codec (main_leave outcome x)"
proof -
  obtain r s where c: "async_close (sc_client x) = (r, s)" by fastforce
  from close_changes [OF c] assms show ?thesis
    by (cases r) (auto simp: main_leave_def aexit_def c tasks_inv_def main_inv_def receiver_inv_def)
qed

lemma tasks_enter:
  assumes "tasks_inv codec x" and "sc_main x = Before"
  shows "tasks_inv codec (main_enter x)"
proof -
  have "x = script_init codec" using assms by (simp add: tasks_inv_def main_inv_def)
  then show ?thesis
    by (simp add: main_enter_def aenter_def script_init_def AsyncClient_init_def async_connect_def tasks_inv_def main_inv_def
        receiver_inv_def Let_def)
qed

lemma tasks_closing: "\<lbrakk>tasks_inv codec x; main_closing (sc_main x) = []\<rbrakk> \<Longrightarrow> closing (sc_client x) = [] \<and> receiver_inv x"
  by (simp add: tasks_inv_def main_inv_def)

lemma tasks_entered:
  assumes "tasks_inv codec x" and "sc_main x = Entering f"
  shows "tasks_inv codec (main_entered codec r x)"
proof -
  obtain y s where c: "async_subscribe (literal codec SUBSCRIBE_TOPIC) (sc_client x) = (y, s)" by fastforce
  note ch = call_changes [OF c [unfolded async_subscribe_def]]
  have leave: "tasks_inv codec (main_leave outcome x)" for outcome
    using tasks_closing [OF assms(1)] assms(2) by (intro tasks_leave) simp_all
  show ?thesis
  proof (cases r)
    case (Inl err)
    with assms show ?thesis by (simp add: main_entered_def tasks_inv_def main_inv_def receiver_inv_def)
  next
    case (Inr v)
    show ?thesis
    proof (cases y)
      case (Inl err)
      with ch have "x\<lparr>sc_client := s\<rparr> = x" by simp
      with Inl Inr leave show ?thesis by (simp add: main_entered_def c)
    next
      case y: (Inr g)
      with Inr ch assms show ?thesis by (simp add: main_entered_def c tasks_inv_def main_inv_def receiver_inv_def)
    qed
  qed
qed

lemma tasks_subscribed:
  assumes "tasks_inv codec x" and "sc_main x = Subscribing f"
  shows "tasks_inv codec (main_subscribed codec r x)"
proof (cases r)
  case (Inl err)
  with tasks_closing [OF assms(1)] assms(2) show ?thesis by (simp add: main_subscribed_def tasks_leave)
next
  case (Inr v)
  obtain y s where c: "async_publish (str_encode codec) (literal codec PUBLISH_TOPIC) (Str (literal codec PUBLISH_MESSAGE)) ''utf-8''
      (sc_client x) = (y, s)" by fastforce
  have "receiver_inv (x\<lparr>sc_client := s, sc_receiver := Scheduled\<rparr>)" "closing s = []"
    using publish_changes [OF c] assms by (simp_all add: tasks_inv_def main_inv_def receiver_inv_def)
  then show ?thesis
    using Inr publish_changes [OF c]
    by (cases y) (simp_all add: main_subscribed_def c tasks_leave, simp add: tasks_inv_def main_inv_def receiver_inv_def)
qed

lemma tasks_published:
  assumes "tasks_inv codec x" and "sc_main x = Publishing f"
  shows "tasks_inv codec (main_published codec r x)"
proof (cases r)
  case (Inl err)
  with tasks_closing [OF assms(1)] assms(2) show ?thesis by (simp add: main_published_def tasks_leave)
next
  case (Inr v)
  with assms show ?thesis by (simp add: main_published_def tasks_inv_def main_inv_def receiver_inv_def)
qed

lemma tasks_left:
  assumes "tasks_inv codec x" and "sc_main x = Leaving c outcome"
  shows "tasks_inv codec (main_left c outcome x)"
  using assms by (simp add: main_left_def tasks_inv_def main_inv_def receiver_inv_def close_resume_changes)

lemma tasks_main:
  assumes "tasks_inv codec x" and "main_step codec x = Some x'"
  shows "tasks_inv codec x'"
proof (cases "sc_main x")
  case Awaiting_receiver
  with assms tasks_closing [OF assms(1)] show ?thesis
    by (auto simp: main_step_def intro!: tasks_leave split: receiver_pc.splits)
qed (use assms in \<open>auto simp: main_step_def tasks_enter tasks_entered tasks_subscribed tasks_published tasks_left split: if_splits\<close>)

lemma tasks_next:
  assumes "main_inv codec x" and "sc_receiver x \<noteq> Not_created" and "receiving (sc_client x) = []" and "a_messages (sc_client x) = Some 0"
  shows "tasks_inv codec (print_messages_next x)"
proof -
  obtain y s where c: "async_recv (sc_client x) = (y, s)" by fastforce
  have "sc_main x \<noteq> Before" using assms(1,2) by (auto simp: main_inv_def script_init_def)
  then show ?thesis
    using assms recv_changes [OF c]
    by (cases y) (auto simp: print_messages_next_def messages_next_def c tasks_inv_def main_inv_def receiver_inv_def)
qed

lemma tasks_item:
  assumes "tasks_inv codec x" and "sc_receiver x = Receiving q"
  shows "tasks_inv codec (print_messages_item codec q x)"
proof -
  obtain y s where c: "recv_resume q (sc_client x) = (y, s)" by fastforce
  have here: "main_inv codec x" "receiving (sc_client x) = [q]" "a_messages (sc_client x) = Some 0"
    using assms by (simp_all add: tasks_inv_def receiver_inv_def)
  then have "sc_main x \<noteq> Before" "\<not> main_early (sc_main x)"
    using assms(2) by (auto simp: main_inv_def script_init_def)
  with here have mid: "main_inv codec (x\<lparr>sc_client := s, sc_lines := ls\<rparr>)"
      "main_inv codec (x\<lparr>sc_client := s, sc_receiver := Receiver_ended err\<rparr>)" for ls err
    using resume_changes [OF c] by (simp_all add: main_inv_def)
  have failed: "tasks_inv codec (x\<lparr>sc_client := s, sc_receiver := Receiver_ended err\<rparr>)" for err
    using mid(2) here resume_changes [OF c] by (simp add: tasks_inv_def receiver_inv_def)
  have printed: "tasks_inv codec (print_messages_next (x\<lparr>sc_client := s, sc_lines := ls\<rparr>))" for ls
    by (rule tasks_next [OF mid(1)]) (use here assms(2) resume_changes [OF c] in simp_all)
  show ?thesis
    using failed printed by (cases y) (auto simp: print_messages_item_def c split: sum.split)
qed

lemma tasks_receiver:
  assumes "tasks_inv codec x" and "receiver_step codec x = Some x'"
  shows "tasks_inv codec x'"
proof (cases "sc_receiver x")
  case Scheduled
  with assms(1) have "tasks_inv codec (print_messages_next x)"
    by (intro tasks_next) (simp_all add: tasks_inv_def receiver_inv_def)
  with Scheduled assms(2) show ?thesis by (simp add: receiver_step_def)
qed (use assms tasks_item in \<open>auto simp: receiver_step_def split: if_splits\<close>)

lemma tasks_cancel_receiver: "\<lbrakk>tasks_inv codec x; \<not> main_early (sc_main x); sc_main x \<noteq> Before\<rbrakk> \<Longrightarrow> tasks_inv codec (cancel_receiver x)"
  by (cases "sc_receiver x") (simp_all add: cancel_receiver_def tasks_inv_def main_inv_def receiver_inv_def)

lemma tasks_cancel_future: "\<lbrakk>tasks_inv codec x; sc_main x \<noteq> Before\<rbrakk> \<Longrightarrow> tasks_inv codec (cancel_future f x)"
  by (simp add: cancel_future_def tasks_inv_def main_inv_def receiver_inv_def)

lemma tasks_interrupt:
  assumes "tasks_inv codec x" and "main_interrupt x = Some x'"
  shows "tasks_inv codec x'"
proof -
  have leave: "tasks_inv codec (main_leave outcome x)" if "main_closing (sc_main x) = []" for outcome
    using tasks_closing [OF assms(1) that] by (intro tasks_leave) simp_all
  have ended: "tasks_inv codec (x\<lparr>sc_main := Main_ended outcome\<rparr>)" if "main_closing (sc_main x) = []" for outcome
    using assms(1) that by (simp add: tasks_inv_def main_inv_def receiver_inv_def)
  have left: "tasks_inv codec (x\<lparr>sc_main := Main_ended outcome, sc_client := (sc_client x)\<lparr>closing := remove1 c (closing (sc_client x))\<rparr>\<rparr>)"
    if "sc_main x = Leaving c out" for outcome c out
    using assms(1) that by (simp add: tasks_inv_def main_inv_def receiver_inv_def)
  show ?thesis
    using assms leave ended left tasks_cancel_future [OF assms(1)] tasks_cancel_receiver [OF assms(1)]
    by (cases "sc_main x") (auto simp: main_interrupt_def split: if_splits receiver_pc.splits)
qed

text \<open>Before the main task starts there is nothing for the loop or a worker to do.\<close>

lemma background_started:
  assumes "tasks_inv codec x" and "exec e py l (sc_client x) = Some s" and "background l"
  shows "sc_main x \<noteq> Before"
  using assms(3,1,2) by (cases rule: background.elims(2)) (auto simp: tasks_inv_def main_inv_def script_init_def AsyncClient_init_def)

lemma tasks_background:
  assumes "tasks_inv codec x" and "exec e py l (sc_client x) = Some s" and "background l"
  shows "tasks_inv codec (x\<lparr>sc_client := s\<rparr>)"
  using background_same [OF assms(2,3)] background_started [OF assms] assms(1)
  by (simp add: tasks_inv_def main_inv_def receiver_inv_def same_calls_def)

lemma tasks_step:
  assumes "tasks_inv codec x" and "script_step e py codec x l x'"
  shows "tasks_inv codec x'"
proof (cases l)
  case Shutdown
  with assms tasks_cancel_receiver [OF assms(1)] show ?thesis by (auto simp: script_step_def split: main_pc.splits)
next
  case Loop_callback
  with assms(2) show ?thesis
    using tasks_background [OF assms(1), of e py Run_callback] by (auto simp: script_step_def simp del: exec.simps)
next
  case (Worker_thread t inp)
  with assms(2) show ?thesis
    using tasks_background [OF assms(1), of e py "Work t inp"] by (auto simp: script_step_def simp del: exec.simps)
qed (use assms tasks_main tasks_receiver tasks_interrupt in \<open>auto simp: script_step_def\<close>)

interpretation tasks: labelled_invariant "script_step e py codec" "\<lambda>_. True" "tasks_inv codec" for e py codec
  by unfold_locales (rule tasks_step)

section \<open>The script as a user of the client\<close>

text \<open>A run of the client with labels of a kind; the script's own steps neither start another session nor cancel a call.\<close>

definition reaches :: "endian \<Rightarrow> 'u py_text \<Rightarrow> ('u async_label \<Rightarrow> bool) \<Rightarrow> 'u async_client \<Rightarrow> 'u async_client \<Rightarrow> bool" where
  "reaches e py P s s' \<longleftrightarrow> (\<exists>ls. async_run e py s ls s' \<and> (\<forall>l \<in> set ls. P l))"

fun quiet :: "'u async_label \<Rightarrow> bool" where
  "quiet Connect = False"
| "quiet (Cancel f) = False"
| "quiet _ = True"

lemma reaches_refl [simp, intro]: "reaches e py P s s"
  unfolding reaches_def by (rule exI [of _ "[]"]) (simp add: runs.none)

lemma reaches_step: "\<lbrakk>async_step e py s l s'; P l\<rbrakk> \<Longrightarrow> reaches e py P s s'"
  unfolding reaches_def by (rule exI [of _ "[l]"]) (simp add: runs_single)

lemma reaches_trans:
  assumes "reaches e py P s s'" and "reaches e py P s' s''"
  shows "reaches e py P s s''"
proof -
  obtain ls ms where "async_run e py s ls s'" "\<forall>l \<in> set ls. P l" "async_run e py s' ms s''" "\<forall>l \<in> set ms. P l"
    using assms unfolding reaches_def by blast
  then show ?thesis
    using runs_trans unfolding reaches_def by (intro exI [of _ "ls @ ms"]) auto
qed

lemma reaches_weaken: "\<lbrakk>reaches e py P s s'; \<And>l. P l \<Longrightarrow> Q l\<rbrakk> \<Longrightarrow> reaches e py Q s s'"
  unfolding reaches_def by blast

lemma leave_reaches: "reaches e py quiet (sc_client x) (sc_client (main_leave outcome x))"
proof -
  obtain r s where c: "async_close (sc_client x) = (r, s)" by fastforce
  have "reaches e py quiet (sc_client x) s" by (rule reaches_step [OF async_step.close [OF c]]) simp
  then show ?thesis by (cases r) (simp_all add: main_leave_def aexit_def c)
qed

lemma call_reaches: "\<lbrakk>async_call r s = (x, s'); r \<noteq> Close_request\<rbrakk> \<Longrightarrow> reaches e py quiet s s'"
  by (rule reaches_step [OF async_step.call]) simp_all

lemma publish_reaches: "async_publish encode topic payload encoding s = (x, s') \<Longrightarrow> reaches e py quiet s s'"
  by (auto simp: async_publish_def split: sum.splits elim: call_reaches)

lemma entered_reaches: "reaches e py quiet (sc_client x) (sc_client (main_entered codec r x))"
proof -
  obtain y s where c: "async_call (Subscribe_request (literal codec SUBSCRIBE_TOPIC)) (sc_client x) = (y, s)" by fastforce
  have s: "reaches e py quiet (sc_client x) s" by (rule call_reaches [OF c]) simp
  moreover have "reaches e py quiet (sc_client x) (sc_client (main_leave outcome (x\<lparr>sc_client := s\<rparr>)))" for outcome
    using reaches_trans [OF s] leave_reaches [of e py "x\<lparr>sc_client := s\<rparr>"] by simp
  ultimately show ?thesis by (cases r; cases y) (simp_all add: main_entered_def async_subscribe_def c)
qed

lemma subscribed_reaches: "reaches e py quiet (sc_client x) (sc_client (main_subscribed codec r x))"
proof -
  obtain y s where c: "async_publish (str_encode codec) (literal codec PUBLISH_TOPIC) (Str (literal codec PUBLISH_MESSAGE)) ''utf-8''
      (sc_client x) = (y, s)" by fastforce
  note s = publish_reaches [OF c]
  moreover have "reaches e py quiet (sc_client x) (sc_client (main_leave outcome (x\<lparr>sc_client := s, sc_receiver := Scheduled\<rparr>)))"
    for outcome using reaches_trans [OF s] leave_reaches [of e py "x\<lparr>sc_client := s, sc_receiver := Scheduled\<rparr>"] by simp
  ultimately show ?thesis by (cases r; cases y) (simp_all add: main_subscribed_def leave_reaches c)
qed

lemma published_reaches: "reaches e py quiet (sc_client x) (sc_client (main_published codec r x))"
  by (cases r) (simp_all add: main_published_def leave_reaches)

lemma left_reaches: "may_finish c (sc_client x) \<Longrightarrow> reaches e py quiet (sc_client x) (sc_client (main_left c outcome x))"
  by (rule reaches_step [OF exec_step [of _ _ "Closed c"]]) (simp_all add: main_left_def)

lemma main_reaches:
  assumes "main_step codec x = Some x'" and "sc_main x \<noteq> Before"
  shows "reaches e py quiet (sc_client x) (sc_client x')"
  using assms
  by (cases "sc_main x")
    (auto simp: main_step_def entered_reaches subscribed_reaches published_reaches left_reaches leave_reaches
      split: if_splits receiver_pc.splits)

lemma enter_reaches: "reaches e py (\<lambda>_. True) (sc_client x) (sc_client (main_enter x))"
proof -
  obtain f s where c: "async_connect (sc_client x) = (f, s)" by fastforce
  have "reaches e py (\<lambda>_. True) (sc_client x) s" by (rule reaches_step [OF async_step.connect [OF c]]) simp
  then show ?thesis by (cases f) (simp_all add: main_enter_def aenter_def c)
qed

lemma next_reaches: "reaches e py quiet (sc_client x) (sc_client (print_messages_next x))"
proof -
  obtain y s where c: "async_recv (sc_client x) = (y, s)" by fastforce
  have "reaches e py quiet (sc_client x) s" by (rule reaches_step [OF async_step.recv [OF c]]) simp
  then show ?thesis by (cases y) (simp_all add: print_messages_next_def messages_next_def c)
qed

lemma item_reaches:
  assumes "q \<in> set (receiving (sc_client x))" and "queues (sc_client x) q \<noteq> []"
  shows "reaches e py quiet (sc_client x) (sc_client (print_messages_item codec q x))"
proof -
  obtain y s where c: "recv_resume q (sc_client x) = (y, s)" by fastforce
  have s: "reaches e py quiet (sc_client x) s" by (rule reaches_step [OF async_step.received [OF assms c]]) simp
  moreover have "reaches e py quiet (sc_client x) (sc_client (print_messages_next (x\<lparr>sc_client := s, sc_lines := ls\<rparr>)))" for ls
    using reaches_trans [OF s] next_reaches [of e py "x\<lparr>sc_client := s, sc_lines := ls\<rparr>"] by simp
  ultimately show ?thesis
    by (cases y) (auto simp: print_messages_item_def c split: sum.split)
qed

lemma cancel_receiver_reaches:
  assumes "tasks_inv codec x"
  shows "reaches e py quiet (sc_client x) (sc_client (cancel_receiver x))"
proof (cases "sc_receiver x")
  case (Receiving q)
  with assms have "q \<in> set (receiving (sc_client x))" by (simp add: tasks_inv_def receiver_inv_def)
  from reaches_step [OF async_step.cancel_recv [OF this]] Receiving show ?thesis by (simp add: cancel_receiver_def)
qed (simp_all add: cancel_receiver_def)

lemma cancel_future_reaches:
  assumes "futures (sc_client x) f = Pending" and "f < next_id (sc_client x)"
  shows "reaches e py (\<lambda>l. l \<noteq> Connect) (sc_client x) (sc_client (cancel_future f x))"
  unfolding cancel_future_def by simp (rule reaches_step [OF async_step.cancel], use assms in simp_all)

lemma abandon_close_reaches:
  assumes "c \<in> set (closing s)" and "futures s (fst c) \<noteq> Pending"
  shows "reaches e py quiet s (s\<lparr>closing := remove1 c (closing s)\<rparr>)"
proof (cases "\<exists>v. futures s (fst c) = Done (Inr v)")
  case True
  then obtain v where "futures s (fst c) = Done (Inr v)" ..
  from reaches_step [OF async_step.cancel_close [OF assms(1) this]] show ?thesis by simp
next
  case False
  with assms have "exec e py (Closed c) s = Some (s\<lparr>closing := remove1 c (closing s)\<rparr>)"
    by (auto simp: may_finish_def close_resume_def split: future_state.split sum.split)
  from reaches_step [OF exec_step [OF this]] show ?thesis by simp
qed

lemma quiet_no_connect: "reaches e py quiet s s' \<Longrightarrow> reaches e py (\<lambda>l. l \<noteq> Connect) s s'"
  by (erule reaches_weaken) auto

lemma interrupt_reaches:
  assumes "tasks_inv codec x" and "main_interrupt x = Some x'"
  shows "reaches e py (\<lambda>l. l \<noteq> Connect) (sc_client x) (sc_client x')"
proof (cases "sc_main x")
  case (Leaving c outcome)
  with assms(1) have c: "c \<in> set (closing (sc_client x))" "fst c < next_id (sc_client x)" by (simp_all add: tasks_inv_def main_inv_def)
  show ?thesis
  proof (cases "futures (sc_client x) (fst c) = Pending")
    case True
    with Leaving assms(2) cancel_future_reaches [OF True c(2)] show ?thesis by (simp add: main_interrupt_def)
  next
    case False
    from quiet_no_connect [OF abandon_close_reaches [OF c(1) False]] False Leaving assms(2) show ?thesis
      by (auto simp: main_interrupt_def)
  qed
next
  case Awaiting_receiver
  with assms(2) quiet_no_connect [OF leave_reaches] quiet_no_connect [OF cancel_receiver_reaches [OF assms(1)]] show ?thesis
    by (cases "sc_receiver x") (auto simp: main_interrupt_def)
qed (use assms in \<open>auto simp: main_interrupt_def tasks_inv_def main_inv_def
  intro: cancel_future_reaches quiet_no_connect [OF leave_reaches] split: if_splits\<close>)

lemma background_reaches: "\<lbrakk>exec e py l s = Some s'; background l\<rbrakk> \<Longrightarrow> reaches e py quiet s s'"
  by (rule reaches_step [OF exec_step]) (auto elim: background.elims)

lemma quiet_step_reaches:
  assumes "tasks_inv codec x" and "script_step e py codec x l x'" and "l = Main_task \<longrightarrow> sc_main x \<noteq> Before"
    and "l \<noteq> Interrupt"
  shows "reaches e py quiet (sc_client x) (sc_client x')"
proof (cases l)
  case Main_task
  with assms main_reaches show ?thesis by (simp add: script_step_def)
next
  case Receiver_task
  with assms(2) show ?thesis
    by (auto simp: script_step_def receiver_step_def next_reaches item_reaches split: receiver_pc.splits if_splits)
next
  case Shutdown
  with assms(2) cancel_receiver_reaches [OF assms(1)] show ?thesis by (auto simp: script_step_def split: main_pc.splits)
next
  case Loop_callback
  with assms(2) show ?thesis
    by (auto simp: script_step_def simp del: exec.simps intro: background_reaches)
next
  case (Worker_thread t inp)
  with assms(2) show ?thesis
    by (auto simp: script_step_def simp del: exec.simps intro: background_reaches)
qed (use assms(4) in simp)

lemma step_reaches:
  assumes "tasks_inv codec x" and "script_step e py codec x l x'"
  shows "reaches e py (\<lambda>_. True) (sc_client x) (sc_client x')"
proof -
  consider (enter) "l = Main_task" "sc_main x = Before" | (interrupt) "l = Interrupt"
    | (quiet) "l = Main_task \<longrightarrow> sc_main x \<noteq> Before" "l \<noteq> Interrupt" by blast
  then show ?thesis
  proof cases
    case enter
    with assms(2) enter_reaches show ?thesis by (auto simp: script_step_def main_step_def)
  next
    case interrupt
    with assms have "reaches e py (\<lambda>l. l \<noteq> Connect) (sc_client x) (sc_client x')" by (simp add: script_step_def interrupt_reaches)
    then show ?thesis by (rule reaches_weaken) simp
  next
    case quiet
    with quiet_step_reaches [OF assms] show ?thesis by (auto elim: reaches_weaken)
  qed
qed

text \<open>So the script's client is in a state that the client reaches in some interleaving.\<close>

definition client_inv :: "endian \<Rightarrow> 'u py_text \<Rightarrow> 'u codec \<Rightarrow> 'u script \<Rightarrow> bool" where
  "client_inv e py codec x \<longleftrightarrow>
     tasks_inv codec x \<and> (\<exists>ls. async_run e py (AsyncClient_init (literal codec HOST) PORT) ls (sc_client x))"

lemma client_init: "client_inv e py codec (script_init codec)"
  unfolding client_inv_def
  by (intro conjI tasks_init exI [of _ "[]"]) (simp add: script_init_def runs.none)

lemma client_step:
  assumes "client_inv e py codec x" and "script_step e py codec x l x'"
  shows "client_inv e py codec x'"
proof -
  obtain ls ms where "async_run e py (AsyncClient_init (literal codec HOST) PORT) ls (sc_client x)"
      "async_run e py (sc_client x) ms (sc_client x')"
    using assms step_reaches unfolding client_inv_def reaches_def by blast
  with assms tasks_step show ?thesis unfolding client_inv_def by (metis runs_trans)
qed

lemma client_fresh: "client_inv e py codec x \<Longrightarrow> fresh_inv (sc_client x)"
  unfolding client_inv_def by (blast intro: fresh_run [OF _ fresh_init])

lemma settled_step:
  assumes "client_inv e py codec x" and "script_step e py codec x l x'" and "futures (sc_client x) f = Done r"
  shows "futures (sc_client x') f = Done r"
proof -
  obtain ms where "async_run e py (sc_client x) ms (sc_client x')"
    using assms step_reaches unfolding client_inv_def reaches_def by blast
  from done_run [OF this client_fresh [OF assms(1)]] assms(3) show ?thesis by simp
qed

section \<open>What is printed\<close>

fun texts :: "'u printed_line list \<Rightarrow> 'u list" where
  "texts [] = []"
| "texts (Text_line u # ls) = u # texts ls"
| "texts (Status u # ls) = texts ls"

fun statuses :: "'u printed_line list \<Rightarrow> 'u list" where
  "statuses [] = []"
| "statuses (Text_line u # ls) = statuses ls"
| "statuses (Status u # ls) = u # statuses ls"

lemma texts_append [simp]: "texts (ls @ ms) = texts ls @ texts ms"
  by (induction ls rule: texts.induct) simp_all

lemma statuses_append [simp]: "statuses (ls @ ms) = statuses ls @ statuses ms"
  by (induction ls rule: statuses.induct) simp_all

lemma status_map [simp]: "texts (map Status us) = []" "statuses (map Status us) = us"
  by (induction us) simp_all

text \<open>The receiver prints the texts of the messages it got; the first that is no text ends it.\<close>

definition lines_inv :: "'u codec \<Rightarrow> 'u script \<Rightarrow> bool" where
  "lines_inv codec x \<longleftrightarrow>
     (let read = map (default_text codec) (delivered (sc_client x) 0); printed = map Inr (texts (sc_lines x))
      in read = printed \<or> (\<exists>err. read = printed @ [Inl err] \<and> sc_receiver x = Receiver_ended (Raised err)))"

text \<open>The two status lines are printed together, when both calls have returned.\<close>

definition returned :: "'u async_client \<Rightarrow> nat option \<Rightarrow> bool" where
  "returned s future = (case future of None \<Rightarrow> False | Some f \<Rightarrow> (\<exists>v. futures s f = Done (Inr v)))"

fun main_status :: "main_pc \<Rightarrow> 'u script \<Rightarrow> bool" where
  "main_status (Subscribing f) x = (sc_subscribed x = Some f \<and> statuses (sc_lines x) = [])"
| "main_status (Publishing f) x =
     (sc_published x = Some f \<and> returned (sc_client x) (sc_subscribed x) \<and> statuses (sc_lines x) = [])"
| "main_status Before x = (statuses (sc_lines x) = [])"
| "main_status (Entering f) x = (statuses (sc_lines x) = [])"
| "main_status _ x = True"

definition status_inv :: "'u codec \<Rightarrow> 'u script \<Rightarrow> bool" where
  "status_inv codec x \<longleftrightarrow> main_status (sc_main x) x \<and>
     (statuses (sc_lines x) = [] \<or>
      statuses (sc_lines x) = status_lines codec \<and> returned (sc_client x) (sc_subscribed x) \<and> returned (sc_client x) (sc_published x))"

subsection \<open>Lines of the receiver\<close>

text \<open>The other steps leave to the receiver what it received and printed.\<close>

definition receiver_same :: "'u script \<Rightarrow> 'u script \<Rightarrow> bool" where
  "receiver_same x x' \<longleftrightarrow>
     delivered (sc_client x') = delivered (sc_client x) \<and> texts (sc_lines x') = texts (sc_lines x) \<and>
     (sc_receiver x' = sc_receiver x \<or> (\<forall>err. sc_receiver x \<noteq> Receiver_ended err))"

lemma lines_same: "\<lbrakk>lines_inv codec x; receiver_same x x'\<rbrakk> \<Longrightarrow> lines_inv codec x'"
  by (auto simp: lines_inv_def receiver_same_def)

lemma leave_receiver:
  "delivered (sc_client (main_leave outcome x)) = delivered (sc_client x) \<and> sc_receiver (main_leave outcome x) = sc_receiver x \<and>
   sc_lines (main_leave outcome x) = sc_lines x"
proof -
  obtain r s where c: "async_close (sc_client x) = (r, s)" by fastforce
  from close_changes [OF c] show ?thesis by (simp add: main_leave_def aexit_def c split: sum.split)
qed

lemma enter_receiver: "receiver_same x (main_enter x)"
  by (simp add: main_enter_def aenter_def async_connect_def receiver_same_def Let_def split: prod.split option.split)

lemma entered_receiver: "receiver_same x (main_entered codec r x)"
proof -
  obtain y s where c: "async_call (Subscribe_request (literal codec SUBSCRIBE_TOPIC)) (sc_client x) = (y, s)" by fastforce
  from call_changes [OF c] show ?thesis
    by (simp add: main_entered_def async_subscribe_def c receiver_same_def leave_receiver split: sum.split)
qed

lemma subscribed_receiver:
  assumes "sc_receiver x = Not_created"
  shows "receiver_same x (main_subscribed codec r x)"
proof -
  obtain y s where c: "async_publish (str_encode codec) (literal codec PUBLISH_TOPIC) (Str (literal codec PUBLISH_MESSAGE)) ''utf-8''
      (sc_client x) = (y, s)" by fastforce
  from publish_changes [OF c] assms show ?thesis
    by (simp add: main_subscribed_def c receiver_same_def leave_receiver split: sum.split)
qed

lemma published_receiver: "receiver_same x (main_published codec r x)"
  by (simp add: main_published_def receiver_same_def leave_receiver split: sum.split)

lemma cancel_receiver_receiver: "receiver_same x (cancel_receiver x)"
  by (simp add: cancel_receiver_def receiver_same_def split: receiver_pc.split)

lemma main_receiver:
  assumes "tasks_inv codec x" and "main_step codec x = Some x'"
  shows "receiver_same x x'"
proof (cases "sc_main x")
  case (Subscribing f)
  with assms have "sc_receiver x = Not_created" by (simp add: tasks_inv_def main_inv_def)
  with Subscribing assms(2) subscribed_receiver show ?thesis by (auto simp: main_step_def)
next
  case Awaiting_receiver
  with assms(2) show ?thesis by (auto simp: main_step_def receiver_same_def leave_receiver split: receiver_pc.splits)
next
  case (Leaving c outcome)
  with assms(2) show ?thesis by (auto simp: main_step_def main_left_def receiver_same_def close_resume_changes split: if_splits)
qed (use assms(2) enter_receiver entered_receiver published_receiver in \<open>auto simp: main_step_def\<close>)

lemma interrupt_receiver: "main_interrupt x = Some x' \<Longrightarrow> receiver_same x x'"
  using cancel_receiver_receiver [of x]
  by (auto simp: main_interrupt_def receiver_same_def leave_receiver cancel_future_def split: main_pc.splits if_splits receiver_pc.splits)

lemma next_receiver:
  "delivered (sc_client (print_messages_next x)) = delivered (sc_client x) \<and> sc_lines (print_messages_next x) = sc_lines x"
proof -
  obtain y s where c: "async_recv (sc_client x) = (y, s)" by fastforce
  from recv_changes [OF c] show ?thesis by (simp add: print_messages_next_def messages_next_def c split: sum.split)
qed

lemma lines_receiver:
  assumes "tasks_inv codec x" and "lines_inv codec x" and "receiver_step codec x = Some x'"
  shows "lines_inv codec x'"
proof (cases "sc_receiver x")
  case Scheduled
  with assms(2,3) show ?thesis by (auto simp: receiver_step_def lines_inv_def next_receiver)
next
  case (Receiving q)
  then have q: "q = 0" using assms(1) by (simp add: tasks_inv_def receiver_inv_def)
  have x': "x' = print_messages_item codec 0 x" using assms(3) Receiving q by (simp add: receiver_step_def split: if_splits)
  have printed: "map (default_text codec) (delivered (sc_client x) 0) = map Inr (texts (sc_lines x))"
    using assms(2) Receiving by (auto simp: lines_inv_def)
  obtain y s where c: "recv_resume 0 (sc_client x) = (y, s)" by fastforce
  show ?thesis
    using printed resume_changes [OF c]
    by (cases y) (auto simp: x' print_messages_item_def c lines_inv_def next_receiver split: sum.split)
qed (use assms(3) in \<open>simp_all add: receiver_step_def\<close>)

lemma lines_step:
  assumes "tasks_inv codec x" and "lines_inv codec x" and "script_step e py codec x l x'"
  shows "lines_inv codec x'"
proof (cases l)
  case Receiver_task
  with assms lines_receiver show ?thesis by (simp add: script_step_def)
next
  case Loop_callback
  with assms(3) obtain s where s: "exec e py Run_callback (sc_client x) = Some s" "x' = x\<lparr>sc_client := s\<rparr>"
    by (auto simp: script_step_def simp del: exec.simps)
  with background_same [OF s(1)] show ?thesis by (intro lines_same [OF assms(2)]) (simp add: receiver_same_def same_calls_def)
next
  case (Worker_thread t inp)
  with assms(3) obtain s where s: "exec e py (Work t inp) (sc_client x) = Some s" "x' = x\<lparr>sc_client := s\<rparr>"
    by (auto simp: script_step_def simp del: exec.simps)
  with background_same [OF s(1)] show ?thesis by (intro lines_same [OF assms(2)]) (simp add: receiver_same_def same_calls_def)
next
  case Shutdown
  then have "x' = cancel_receiver x" using assms(3) by (simp add: script_step_def split: main_pc.splits)
  with lines_same [OF assms(2) cancel_receiver_receiver] show ?thesis by simp
qed (use assms(3) lines_same [OF assms(2) main_receiver [OF assms(1)]] lines_same [OF assms(2) interrupt_receiver] in
  \<open>simp_all add: script_step_def\<close>)

subsection \<open>Lines of the main task\<close>

fun main_over :: "main_pc \<Rightarrow> bool" where
  "main_over (Leaving c outcome) = True"
| "main_over (Main_ended outcome) = True"
| "main_over _ = False"

lemma over_status: "main_over pc \<Longrightarrow> main_status pc x"
  by (erule main_over.elims) simp_all

text \<open>Most steps print no status and leave the main task where it is, or end it.\<close>

definition status_same :: "'u script \<Rightarrow> 'u script \<Rightarrow> bool" where
  "status_same x x' \<longleftrightarrow>
     sc_subscribed x' = sc_subscribed x \<and> sc_published x' = sc_published x \<and> statuses (sc_lines x') = statuses (sc_lines x) \<and>
     (sc_main x' = sc_main x \<or> main_over (sc_main x'))"

lemma returned_step: "\<lbrakk>client_inv e py codec x; script_step e py codec x l x'; returned (sc_client x) f\<rbrakk> \<Longrightarrow> returned (sc_client x') f"
  by (auto simp: returned_def dest: settled_step split: option.splits)

lemma status_keep:
  assumes "client_inv e py codec x" and "script_step e py codec x l x'" and "status_inv codec x" and "status_same x x'"
  shows "status_inv codec x'"
proof -
  note kept = returned_step [OF assms(1,2)]
  have "main_status (sc_main x') x'"
    using assms(3,4) kept by (cases "sc_main x") (auto simp: status_inv_def status_same_def over_status)
  with assms(3,4) kept show ?thesis by (auto simp: status_inv_def status_same_def)
qed

lemma leave_status: "status_same x (main_leave outcome x)"
proof -
  obtain r s where c: "async_close (sc_client x) = (r, s)" by fastforce
  then show ?thesis by (simp add: main_leave_def aexit_def c status_same_def split: sum.split)
qed

lemma cancel_receiver_status: "status_same x (cancel_receiver x)"
  by (simp add: cancel_receiver_def status_same_def split: receiver_pc.split)

lemma interrupt_status: "main_interrupt x = Some x' \<Longrightarrow> status_same x x'"
  using leave_status [of x "Inl Cancelled_error"] cancel_receiver_status [of x]
  by (cases "sc_main x") (auto simp: main_interrupt_def cancel_future_def status_same_def split: if_splits receiver_pc.splits)

lemma next_status [simp]:
  "sc_main (print_messages_next x) = sc_main x" "sc_subscribed (print_messages_next x) = sc_subscribed x"
  "sc_published (print_messages_next x) = sc_published x" "sc_lines (print_messages_next x) = sc_lines x"
  by (simp_all add: print_messages_next_def split: prod.split sum.split)

lemma receiver_status: "receiver_step codec x = Some x' \<Longrightarrow> status_same x x'"
  by (auto simp: receiver_step_def print_messages_item_def status_same_def split: receiver_pc.splits if_splits prod.splits sum.splits)

lemma leave_updated_status:
  "status_same x (main_leave outcome (x\<lparr>sc_client := s\<rparr>))"
  "status_same x (main_leave outcome (x\<lparr>sc_client := s, sc_receiver := r\<rparr>))"
  using leave_status [of "x\<lparr>sc_client := s\<rparr>" outcome] leave_status [of "x\<lparr>sc_client := s, sc_receiver := r\<rparr>" outcome]
  by (simp_all add: status_same_def main_leave_def split: prod.splits sum.splits)

lemma awaited_returned: "awaited fs = Some (Inr v) \<Longrightarrow> fs = Done (Inr v)"
  by (cases fs rule: awaited.cases) simp_all

lemma status_entered:
  assumes "status_inv codec x" and "sc_main x = Entering f"
  shows "status_same x (main_entered codec r x) \<or> status_inv codec (main_entered codec r x)"
proof (cases r)
  case (Inl err)
  then show ?thesis by (simp add: main_entered_def status_same_def)
next
  case (Inr v)
  obtain y s where c: "async_subscribe (literal codec SUBSCRIBE_TOPIC) (sc_client x) = (y, s)" by fastforce
  with Inr assms show ?thesis by (cases y) (simp_all add: main_entered_def leave_updated_status status_inv_def)
qed

lemma status_subscribed:
  assumes "status_inv codec x" and "sc_main x = Subscribing f"
    and "\<And>v. r = Inr v \<Longrightarrow> returned (sc_client (main_subscribed codec r x)) (sc_subscribed x)"
  shows "status_same x (main_subscribed codec r x) \<or> status_inv codec (main_subscribed codec r x)"
proof (cases r)
  case (Inl err)
  then show ?thesis by (simp add: main_subscribed_def leave_status)
next
  case (Inr v)
  obtain y s where c: "async_publish (str_encode codec) (literal codec PUBLISH_TOPIC) (Str (literal codec PUBLISH_MESSAGE)) ''utf-8''
      (sc_client x) = (y, s)" by fastforce
  with Inr assms(1,2) assms(3) [OF Inr] show ?thesis
    by (cases y) (simp_all add: main_subscribed_def leave_updated_status status_inv_def)
qed

lemma main_status_step:
  assumes inv: "client_inv e py codec x" and step: "script_step e py codec x Main_task x'" and st: "status_inv codec x"
  shows "status_same x x' \<or> status_inv codec x'"
proof (cases "sc_main x")
  case Before
  with step st show ?thesis
    by (auto simp: script_step_def main_step_def main_enter_def aenter_def status_inv_def status_same_def split: prod.splits option.splits)
next
  case (Entering f)
  then obtain r where "x' = main_entered codec r x" using step by (auto simp: script_step_def main_step_def)
  with st Entering status_entered show ?thesis by blast
next
  case (Subscribing f)
  then obtain r where r: "awaited (futures (sc_client x) f) = Some r" "x' = main_subscribed codec r x"
    using step by (auto simp: script_step_def main_step_def)
  have "returned (sc_client x') (sc_subscribed x)" if "r = Inr v" for v
    using st Subscribing r(1) that returned_step [OF inv step, of "Some f"] awaited_returned [of "futures (sc_client x) f" v]
    by (simp add: status_inv_def returned_def)
  with r(2) st Subscribing status_subscribed [of codec x f r] show ?thesis by blast
next
  case (Publishing f)
  then obtain r where r: "awaited (futures (sc_client x) f) = Some r" "x' = main_published codec r x"
    using step by (auto simp: script_step_def main_step_def)
  with st Publishing leave_status show ?thesis
    by (cases r) (auto simp: main_published_def status_inv_def returned_def dest!: awaited_returned)
next
  case Awaiting_receiver
  with step leave_status show ?thesis by (auto simp: script_step_def main_step_def split: receiver_pc.splits)
qed (use step in \<open>auto simp: script_step_def main_step_def main_left_def status_same_def split: if_splits\<close>)

lemma status_step:
  assumes "client_inv e py codec x" and "script_step e py codec x l x'" and "status_inv codec x"
  shows "status_inv codec x'"
proof (cases l)
  case Main_task
  with main_status_step [OF assms(1) _ assms(3)] status_keep [OF assms] assms(2) show ?thesis by blast
next
  case Shutdown
  then have "x' = cancel_receiver x" using assms(2) by (simp add: script_step_def split: main_pc.splits)
  with status_keep [OF assms] cancel_receiver_status [of x] show ?thesis by simp
next
  case Loop_callback
  then have "status_same x x'" using assms(2) by (auto simp: script_step_def status_same_def simp del: exec.simps)
  with status_keep [OF assms] show ?thesis by simp
next
  case (Worker_thread t inp)
  then have "status_same x x'" using assms(2) by (auto simp: script_step_def status_same_def simp del: exec.simps)
  with status_keep [OF assms] show ?thesis by simp
qed (use assms(2) status_keep [OF assms] receiver_status [of codec x x'] interrupt_status [of x x'] in
  \<open>simp_all add: script_step_def\<close>)

definition script_inv :: "endian \<Rightarrow> 'u py_text \<Rightarrow> 'u codec \<Rightarrow> 'u script \<Rightarrow> bool" where
  "script_inv e py codec x \<longleftrightarrow> client_inv e py codec x \<and> lines_inv codec x \<and> status_inv codec x"

lemma script_init_inv: "script_inv e py codec (script_init codec)"
  unfolding script_inv_def
  by (intro conjI client_init) (simp_all add: lines_inv_def status_inv_def script_init_def AsyncClient_init_def)

interpretation script: labelled_invariant "script_step e py codec" "\<lambda>_. True" "script_inv e py codec" for e py codec
proof
  fix x l x' assume "script_inv e py codec x" "script_step e py codec x l x'"
  then show "script_inv e py codec x'"
    unfolding script_inv_def by (meson client_inv_def client_step lines_step status_step)
qed

section \<open>Properties\<close>

text \<open>C39: What the Python example prints, in any interleaving of its tasks, the event loop and the worker, and whatever ENet, the server
  and Ctrl-C do: the lines of the receiver are the texts of the messages that \<^verbatim>\<open>recv\<close> returned, each once and in order, until the first whose
  payload is no text, which ends the receiver with the error; \<^verbatim>\<open>recv\<close> returned them in the order in which they were polled, and none is lost on the way.
  The two status lines are printed together or not at all, and only after \<^verbatim>\<open>subscribe\<close> and \<^verbatim>\<open>publish\<close> both succeeded.\<close>

theorem python_example_prints:
  assumes "script_run e py codec (script_init codec) ls x"
  shows "(let read = map (default_text codec) (delivered (sc_client x) 0); printed = map Inr (texts (sc_lines x))
      in read = printed \<or> (\<exists>err. read = printed @ [Inl err] \<and> sc_receiver x = Receiver_ended (Raised err))) \<and>
    polled (sc_client x) 0 = delivered (sc_client x) 0 @ item_messages (queues (sc_client x) 0) @ posted 0 (callbacks (sc_client x)) \<and>
    (statuses (sc_lines x) = [] \<or>
     statuses (sc_lines x) = status_lines codec \<and> returned (sc_client x) (sc_subscribed x) \<and> returned (sc_client x) (sc_published x))"
proof -
  have inv: "script_inv e py codec x"
    by (rule script.kept_by_runs [OF assms script_init_inv]) simp
  then obtain ms where "async_run e py (AsyncClient_init (literal codec HOST) PORT) ms (sc_client x)"
    by (auto simp: script_inv_def client_inv_def)
  from messages_flow [OF this] inv show ?thesis by (simp add: script_inv_def lines_inv_def status_inv_def)
qed

text \<open>While the worker is gone and \<^verbatim>\<open>close\<close> waits for its answer, only Ctrl-C moves the main task.\<close>

definition stuck :: "'u codec \<Rightarrow> nat \<times> nat \<Rightarrow> task_error + unit \<Rightarrow> 'u script \<Rightarrow> bool" where
  "stuck codec c outcome x \<longleftrightarrow> tasks_inv codec x \<and> sc_main x = Leaving c outcome \<and> stranded (sc_client x) (fst c)"

lemma stranded_reaches:
  assumes "reaches e py quiet s s'" and "stranded s f"
  shows "stranded s' f"
proof -
  obtain ls where run: "async_run e py s ls s'" and "\<forall>l \<in> set ls. quiet l"
    using assms(1) by (auto simp: reaches_def)
  then have "Connect \<notin> set ls" "Cancel f \<notin> set ls" by force+
  with stranded_run [OF run assms(2)] show ?thesis by simp
qed

lemma stuck_step:
  assumes "stuck codec c outcome x" and "script_step e py codec x l x'" and "l \<noteq> Interrupt"
  shows "stuck codec c outcome x'"
proof -
  have at: "tasks_inv codec x" "sc_main x = Leaving c outcome" "futures (sc_client x) (fst c) = Pending"
    "stranded (sc_client x) (fst c)"
    using assms(1) by (simp_all add: stuck_def stranded_def)
  have "sc_main x' = Leaving c outcome"
    using assms(2,3) at(2,3)
    by (cases l) (auto simp: script_step_def main_step_def may_finish_def receiver_step_def print_messages_item_def
      split: if_splits receiver_pc.splits prod.splits sum.splits simp del: exec.simps)
  moreover have "reaches e py quiet (sc_client x) (sc_client x')"
    using quiet_step_reaches [OF at(1) assms(2)] at(2) assms(3) by simp
  ultimately show ?thesis
    using tasks_step [OF at(1) assms(2)] at(4) stranded_reaches by (auto simp: stuck_def)
qed

interpretation stuck: labelled_invariant "script_step e py codec" "\<lambda>l. l \<noteq> Interrupt" "stuck codec c outcome" for e py codec c outcome
  by unfold_locales (rule stuck_step)

fun script_exec_all ::
    "endian \<Rightarrow> 'u py_text \<Rightarrow> 'u codec \<Rightarrow> script_label list \<Rightarrow> 'u script \<Rightarrow> 'u script option" where
  "script_exec_all e py codec [] x = Some x"
| "script_exec_all e py codec (l # ls) x =
     (case script_exec e py codec l x of None \<Rightarrow> None | Some x' \<Rightarrow> script_exec_all e py codec ls x')"

lemma script_exec_run: "script_exec_all e py codec ls x = Some x' \<Longrightarrow> script_run e py codec x ls x'"
proof (induction ls arbitrary: x)
  case (Cons l ls)
  then obtain y where y: "script_exec e py codec l x = Some y" "script_exec_all e py codec ls y = Some x'"
    by (auto split: option.splits)
  then have "script_step e py codec x l y" by (simp add: script_step_def)
  from runs_trans [OF Cons.IH [OF y(2)] runs_single [of "script_step e py codec", OF this]] show ?case by simp
qed (simp add: runs.none)

lemmas script_defs =
  script_init_def main_step_def main_enter_def aenter_def main_entered_def async_subscribe_def main_leave_def aexit_def HOST_def PORT_def

text \<open>
  The worker connects and fails before the loop comes to run its three callbacks: the completion of \<^verbatim>\<open>connect\<close>, its failure, which finds
  the future settled, and the report of the error. The first of them wakes the main task, which \<^verbatim>\<open>call_soon\<close> puts behind the
  other two: the schedule keeps the loop's first-in-first-out order.
\<close>

definition failing_schedule :: "int \<Rightarrow> connect_results \<Rightarrow> bool \<Rightarrow> nat \<Rightarrow> script_label list" where
  "failing_schedule result res once_done p =
     [Main_task, Worker_thread 2 (Created result res once_done), Worker_thread 2 Nothing,
      Worker_thread 2 (Reported (Some (ENET_EVENT_TYPE_DISCONNECT p))), Worker_thread 2 Nothing, Worker_thread 2 Nothing,
      Worker_thread 2 Nothing, Loop_callback, Loop_callback, Loop_callback, Main_task, Worker_thread 2 Nothing]"

abbreviation disconnected :: async_error where
  "disconnected \<equiv> Native (Native_error (Runtime_error ''Disconnected from server.''))"

lemma failing_run:
  assumes "fst (py_client_init py result res (literal codec HOST) 6767 once_done) = Inr client"
  shows "\<exists>x. script_exec_all e py codec (failing_schedule result res once_done p) (script_init codec) = Some x \<and>
    stuck codec (3, 2) (Inl (Raised disconnected)) x"
proof -
  have "fst (py_poll e (Some (ENET_EVENT_TYPE_DISCONNECT p)) client) = Inl (Native_error (Runtime_error ''Disconnected from server.''))"
    by (simp add: py_poll_def poll_result poll_answer_def)
  then obtain c' g where broken: "py_poll e (Some (ENET_EVENT_TYPE_DISCONNECT p)) client =
      (Inl (Native_error (Runtime_error ''Disconnected from server.'')), c', g)"
    by (metis prod_cases3 fst_conv)
  show ?thesis
    using assms broken
    by (simp add: failing_schedule_def script_defs async_defs poll_messages_def publish_worker_error_def fail_pending_def
      stuck_def stranded_def idle_def tasks_inv_def main_inv_def receiver_inv_def Let_def)
qed

text \<open>C40: The Python example can hang at its end: when the server goes away while the example starts, the worker fails its pending commands
  and reports the error, \<^verbatim>\<open>subscribe\<close> raises it, and \<^verbatim>\<open>__aexit__\<close> calls \<^verbatim>\<open>close\<close> while the thread is still alive but has left
  \<^verbatim>\<open>_fail_pending\<close>. Nobody takes the close command any more, and until Ctrl-C the main task waits for its future, whatever the loop, the
  worker and the server do.\<close>

theorem python_example_exit_hangs:
  assumes "fst (py_client_init py result res (literal codec HOST) 6767 once_done) = Inr client"
  shows "\<exists>x. script_run e py codec (script_init codec) (failing_schedule result res once_done p) x \<and>
    sc_main x = Leaving (3, 2) (Inl (Raised disconnected)) \<and>
    (\<forall>ls x'. script_run e py codec x ls x' \<and> Interrupt \<notin> set ls \<longrightarrow> sc_main x' = sc_main x)"
proof -
  obtain x where x: "script_exec_all e py codec (failing_schedule result res once_done p) (script_init codec) = Some x"
    "stuck codec (3, 2) (Inl (Raised disconnected)) x"
    using failing_run [OF assms] by blast
  have "sc_main x' = sc_main x" if "script_run e py codec x ls x'" "Interrupt \<notin> set ls" for ls x'
  proof -
    have "stuck codec (3, 2) (Inl (Raised disconnected)) x'"
      by (rule stuck.kept_by_runs [OF that(1) x(2)]) (use that(2) in auto)
    with x(2) show ?thesis by (simp add: stuck_def)
  qed
  with script_exec_run [OF x(1)] x(2) show ?thesis by (auto simp: stuck_def)
qed

section \<open>Witnesses\<close>

definition ascii_codec :: "string codec" where
  "ascii_codec = \<lparr>str_encode = (\<lambda>u encoding. Inr u), bytes_decode = (\<lambda>b encoding errors. Inr b), literal = (\<lambda>u. u)\<rparr>"

lemma example_localhost:
  obtains client where "fst (py_client_init ascii_text 0 example_connect (literal ascii_codec HOST) 6767 True) = Inr client"
    "c_topic_map client = Map.empty" "c_inverse_topic_map client = Map.empty"
proof -
  have "\<exists>client. fst (py_client_init ascii_text 0 example_connect (literal ascii_codec HOST) 6767 True) = Inr client \<and>
      c_topic_map client = Map.empty \<and> c_inverse_topic_map client = Map.empty"
    by (simp add: py_client_init_def ascii_text_def init_networking_once_def bus_client_ctor_def example_connected HOST_def ascii_codec_def)
  with that show thesis by blast
qed

theorem python_example_exit_hangs_witness:
  "\<exists>x. script_run Little ascii_text ascii_codec (script_init ascii_codec) (failing_schedule 0 example_connect True 30) x \<and>
     sc_main x = Leaving (3, 2) (Inl (Raised disconnected)) \<and>
     (\<forall>ls x'. script_run Little ascii_text ascii_codec x ls x' \<and> Interrupt \<notin> set ls \<longrightarrow> sc_main x' = sc_main x)"
proof -
  obtain client where "fst (py_client_init ascii_text 0 example_connect (literal ascii_codec HOST) 6767 True) = Inr client"
    by (rule example_localhost)
  from python_example_exit_hangs [OF this, of Little 30] show ?thesis .
qed

text \<open>A run in which the example subscribes under the key 5, and receives and prints a message before its own is published.\<close>

definition example_answer :: topic_lookup where
  "example_answer = example_net (fst (construct_topic_response Little Constructor_ctor 5 SUBSCRIBE_TOPIC Origin_server))"

lemma example_key:
  assumes "c_topic_map client = Map.empty" and "c_inverse_topic_map client = Map.empty"
  shows "\<exists>client'. get_topic_key Little example_answer SUBSCRIBE_TOPIC client = (Inr 5, client') \<and>
    c_inverse_topic_map client' = [5 \<mapsto> SUBSCRIBE_TOPIC]"
proof -
  have "lookup_answer Little example_answer = Inr (SUBSCRIBE_TOPIC, 5)"
    by (simp add: lookup_answer_def example_answer_def example_net_def del: construct_simp)
  with assms show ?thesis
    by (simp add: get_topic_key_uncached Let_def packet_factory_defs)
      (simp add: example_answer_def example_net_def example_connected)
qed

lemma example_subscribe:
  assumes "c_topic_map client = Map.empty" and "c_inverse_topic_map client = Map.empty"
  obtains client' where
    "native_call Little ascii_text example_answer (Subscribe_request SUBSCRIBE_TOPIC) client = (Inr No_value, client')"
    "c_inverse_topic_map client' = [5 \<mapsto> SUBSCRIBE_TOPIC]"
proof -
  obtain c1 where c1: "get_topic_key Little example_answer SUBSCRIBE_TOPIC client = (Inr 5, c1)"
    "c_inverse_topic_map c1 = [5 \<mapsto> SUBSCRIBE_TOPIC]" using example_key [OF assms] by blast
  then obtain c2 where "subscribe Little example_answer SUBSCRIBE_TOPIC client = (Inr (), c2)"
    "c_inverse_topic_map c2 = [5 \<mapsto> SUBSCRIBE_TOPIC]"
    by (simp add: subscribe_def Let_def packet_factory_defs)
  moreover have "to_utf8 ascii_text SUBSCRIBE_TOPIC = Some SUBSCRIBE_TOPIC" by (simp add: ascii_text_def SUBSCRIBE_TOPIC_def)
  ultimately show thesis using that by (simp add: py_subscribe_def)
qed

lemma example_fanout:
  assumes "c_inverse_topic_map client = [5 \<mapsto> SUBSCRIBE_TOPIC]"
  shows "\<exists>client' g. py_poll Little (Some (ENET_EVENT_TYPE_RECEIVE 30 example_packet)) client =
    (Inr (Some \<lparr>fm_topic_key = 5, fm_topic = SUBSCRIBE_TOPIC, fm_payload = byte_span ''hi''\<rparr>), client', g)"
  using assms by (simp add: py_poll_def poll_result poll_answer_def example_packet_def)

definition printing_schedule :: "script_label list" where
  "printing_schedule =
     [Main_task, Worker_thread 2 (Created 0 example_connect True), Loop_callback, Main_task, Worker_thread 2 Nothing,
      Worker_thread 2 (Answered example_answer), Loop_callback, Main_task, Receiver_task,
      Worker_thread 2 (Reported (Some (ENET_EVENT_TYPE_RECEIVE 30 example_packet))), Loop_callback, Receiver_task]"

lemma printing_run:
  "\<exists>x. script_exec_all Little ascii_text ascii_codec printing_schedule (script_init ascii_codec) = Some x \<and>
     texts (sc_lines x) = [''hi''] \<and> sc_receiver x = Receiving 0"
proof -
  obtain client where c: "fst (py_client_init ascii_text 0 example_connect (literal ascii_codec HOST) 6767 True) = Inr client"
    and empty: "c_topic_map client = Map.empty" "c_inverse_topic_map client = Map.empty" by (rule example_localhost)
  obtain c1 where c1: "native_call Little ascii_text example_answer (Subscribe_request SUBSCRIBE_TOPIC) client = (Inr No_value, c1)"
    and c1': "c_inverse_topic_map c1 = [5 \<mapsto> SUBSCRIBE_TOPIC]" by (rule example_subscribe [OF empty])
  let ?m = "\<lparr>fm_topic_key = 5, fm_topic = SUBSCRIBE_TOPIC, fm_payload = byte_span ''hi''\<rparr>"
  obtain c2 g where p: "py_poll Little (Some (ENET_EVENT_TYPE_RECEIVE 30 example_packet)) c1 = (Inr (Some ?m), c2, g)"
    using example_fanout [OF c1'] by blast
  have m: "message_of ascii_text ?m = Inr \<lparr>am_topic_key = 5, am_topic = SUBSCRIBE_TOPIC, am_payload = ''hi''\<rparr>"
    using payload_bytes_span [of ?m "''hi''"]
    by (simp add: message_of_def py_topic_def py_topic_key_def ascii_text_def SUBSCRIBE_TOPIC_def)
  have l: "literal ascii_codec u = u" "str_encode ascii_codec u enc = Inr u" "bytes_decode ascii_codec u enc err = Inr u" for u enc err
    by (simp_all add: ascii_codec_def)
  show ?thesis
    using c c1 p m
    by (simp add: printing_schedule_def script_defs l main_subscribed_def async_publish_def async_payload_bytes_def
        receiver_step_def print_messages_next_def print_messages_item_def messages_next_def default_text_def async_text_def
        async_defs handle_command_def poll_messages_def post_message_def async_recv_def require_messages_def recv_resume_def Let_def
        del: native_call.simps)
qed

theorem python_example_prints_witness:
  "\<exists>x. script_run Little ascii_text ascii_codec (script_init ascii_codec) printing_schedule x \<and> texts (sc_lines x) = [''hi''] \<and>
     map (default_text ascii_codec) (delivered (sc_client x) 0) = [Inr ''hi'']"
proof -
  obtain x where x: "script_exec_all Little ascii_text ascii_codec printing_schedule (script_init ascii_codec) = Some x"
    "texts (sc_lines x) = [''hi'']" "sc_receiver x = Receiving 0"
    using printing_run by blast
  from python_example_prints [OF script_exec_run [OF x(1)]] x(2,3) script_exec_run [OF x(1)] show ?thesis
    by (auto simp: Let_def)
qed

end
