(* ===== verification/Spec2Isabelle.thy ===== *)
theory Spec2Isabelle
  imports Programs Bindings Wire_Types Server_Views Client_Views Async_Delivery Async_Progress Async_Results Python_Example
begin

text \<open>
  A verification of spraybus, a publish/subscribe message bus over ENet: a server that assigns numeric
  keys to topic names and forwards published payloads to subscribers, a client library with Python
  bindings, a command line client and a server program.

  \<^bold>\<open>The program's parts.\<close> Clients and server exchange packets of a 16-byte header and a payload
  (\<^verbatim>\<open>networking/protocol.hpp\<close>). The low-level server (\<^verbatim>\<open>networking/server/server.hpp\<close>) turns ENet events
  into callbacks of a derived class and keeps the table of connected clients; the concrete server
  (\<^verbatim>\<open>server/server.hpp\<close>, \<^verbatim>\<open>server.cpp\<close>) answers topic requests from its topic map
  (\<^verbatim>\<open>server/topic_map.hpp\<close>), records subscriptions and fans out messages. The low-level client
  (\<^verbatim>\<open>networking/client/client.hpp\<close>) owns a connection and the packets it receives; the high-level client
  (\<^verbatim>\<open>client/client.hpp\<close>, \<^verbatim>\<open>client.cpp\<close>) resolves names over temporary connections, caches them, publishes,
  subscribes and polls. \<^verbatim>\<open>common/\<close> has the environment and the run loop, \<^verbatim>\<open>drivers/\<close> the two programs. The Python package
  (\<^verbatim>\<open>python/src/spraybus\<close>) binds the high-level client (\<^verbatim>\<open>_bindings.cpp\<close>), wraps it for asyncio in a worker thread
  (\<^verbatim>\<open>async_client.py\<close>) and has launchers for the programs; \<^verbatim>\<open>examples/\<close> has a client in C++ and one in Python.

  \<^bold>\<open>Theories\<close>, each named after the part it models:
  \<^item> \<open>Spraybus_Prelude\<close>: machine types, exceptions as values, words as bytes in memory, strings as bytes, and the
    interfaces \<open>guarded_machine\<close>, \<open>safe_machine\<close> and \<open>labelled_invariant\<close> of steps that keep an invariant, and \<open>bounded_wait\<close> of steps that
    lower a rank; \<open>Cpp_Strings\<close>: the
    standard library's number conversions and string views;
  \<^item> \<open>Protocol\<close>: header, packet constructor, message parser; the interface \<open>packet_codec\<close>, interpreted on
    \<^verbatim>\<open>construct\<close> and the parser;
  \<^item> \<open>Topic_Map\<close>: the topic table; the interface \<open>key_allocator\<close>, interpreted on \<^verbatim>\<open>TopicMap\<close>, and its abstract
    specification, the list of names in order of registration;
  \<^item> \<open>ENet_Boundary\<close>: the calls made of ENet as a list, its results as arguments, and the documented order of its events
    (\<open>enet_protocol\<close>), a named hypothesis; \<open>Logging\<close>: the log file setting, the loggers
    and the calls made of Quill, with its documented reuse of loggers (\<open>gets_existing\<close>) as a named hypothesis, and the log entries;
  \<^item> \<open>Net_Server\<close>: the client table and the event loop; the interface \<open>derived_server\<close> states what the callbacks of a
    derived class must keep, and gives memory safety of the loop for any such class;
  \<^item> \<open>Bus_Server\<close>: the concrete server, the interpretation of \<open>derived_server\<close> on its callbacks, the abstract broker
    (\<open>broker_step\<close>) and the simulation \<open>bus_abs\<close>; \<open>ready\<close> adds the bounds under which the simulation holds;
  \<^item> \<open>Net_Client\<close>: the packet wrapper, with unique ownership as an interpretation of \<open>safe_machine\<close> over a store of
    wrappers, and the connection; \<open>Bus_Client\<close>: the high-level client; \<open>Topic_Cache\<close>: its caches against the server's table, proved
    in \<open>topic_service\<close>, which extends \<open>key_allocator\<close>;
  \<^item> \<open>Process_Support\<close>: environment, ENet initialisation, run loop; \<open>Cli\<close>: the command line client; \<open>Programs\<close>: the
    server program, the example client, the packaging test and the Python launchers;
  \<^item> \<open>Bindings\<close>: every bound method, with what it does with the interpreter lock; \<open>Async_Client\<close>: the asyncio client as a labelled step
    relation over coroutines, event loop callbacks and worker threads, its invariants as interpretations of \<open>labelled_invariant\<close>;
    \<open>Async_Progress\<close>: how long a call can wait, an interpretation of \<open>bounded_wait\<close>; \<open>Async_Results\<close>: what it returns; \<open>Python_Example\<close>: the tasks of the Python example over that client;
  \<^item> \<open>Views\<close>, \<open>Server_Views\<close>, \<open>Client_Views\<close>: the same packet builder, handlers and client operations on spans into memory, where overwriting or
    freeing an object ends the life of its spans, and their refinement to the definitions on values; \<open>Wire_Types\<close>: which packets each side
    sends, as a type discipline;
  \<^item> \<open>System\<close>: the server, any number of clients and any other peers, which may send arbitrary bytes, as an inductive step relation, with the
    invariants behind the results on delivery order and origin; \<open>Delivery\<close>: that a subscriber misses nothing; \<open>Async_System\<close>: any number
    of asyncio clients on this bus, each step of a worker taken together with its effect on the server and the connections, and the simulation by
    \<open>System\<close> on one side and \<open>Async_Client\<close> on the other; \<open>Async_Bus\<close>: what follows for \<^verbatim>\<open>publish\<close> and \<^verbatim>\<open>recv\<close>; \<open>Async_Delivery\<close>: that an asyncio
    subscriber misses nothing; this theory: the properties across
    components.

  \<^bold>\<open>How code becomes definitions.\<close> A class is a record, an operation a function on it; an exception is the left value of a sum,
  next to the state it leaves; \<open>Undefined_behaviour\<close> marks the dereference of a null or dangling pointer, so that
  its absence is a theorem. Pointers to clients are keys of the node table; spans are values, except in the three theories on
  views, where a span carries the generation of the object it was taken from. Definitions that read or write multi-byte integers take the byte
  order of the host as an argument. 64-bit counters are words and wrap. A loop over what \<^verbatim>\<open>enet_host_service\<close> reports
  runs over the list of reported events; the run loop, which may never end, is a partial function into \<open>option\<close>, and exactly when it
  returns is proved. A coroutine is a step up to its next \<^verbatim>\<open>await\<close>, a worker thread a program counter, so that every interleaving of the
  asyncio client is a run of its step relation. pybind11's string conversions are an argument (\<open>py_text\<close>); what is needed of them is a
  hypothesis on the one name in question.

  \<^bold>\<open>What is shown.\<close> Packets: round trips, byte layout, exchange between hosts of different byte order, errors. Topic table: refinement, stability and
  uniqueness of keys. Server: refinement of the broker, memory safety in every reachable state, when it throws and what, when it starts, release of
  packets, each branch of \<^verbatim>\<open>on_message\<close>. Client: outcome and resource use of a lookup, caching, polling. Spans: server and client never read a
  dead span and compute what the definitions on values compute. Types: neither side sends a packet the other rejects. Programs:
  option and port parsing, every reason to fail with its exit code and message, what \<^verbatim>\<open>pub\<close> sends and \<^verbatim>\<open>sub\<close> prints, the server from start to SIGINT. System: one
  delivery order for all subscribers, no duplicated, missing or invented message, correct topic names. Python: lock discipline, messages between
  Python clients end to end; of the asyncio client, that no call is lost or answered twice, what it returns and how long it can wait, that messages keep their order from the server to
  \<^verbatim>\<open>recv\<close> and a subscriber misses none, that \<^verbatim>\<open>publish\<close> sends what the server reads, and five interleavings around \<^verbatim>\<open>close\<close> in which calls hang, raise a stale error or leave a worker
  behind; of the example, what it prints and how its end can hang.

  \<^bold>\<open>Bounds.\<close> Results that need distinct keys or identifiers assume that the 64-bit counters have not wrapped, stated with the number of events of
  the run (\<open>ready\<close>, \<open>names_of\<close>); nothing else is bounded and no fuel is used.

  \<^bold>\<open>Not modelled.\<close> ENet, Quill and pybind11 themselves; sleeping and wall-clock time, so polling intervals and timeouts; registering the
  signal handler; build and packaging files; of the asyncio worker, the native destructor that \<^verbatim>\<open>client = None\<close> runs, and a loop that was closed
  before \<^verbatim>\<open>call_soon_threadsafe\<close>. A failing \<^verbatim>\<open>enet_peer_send\<close>, whose result the code
  ignores, is a call like any other. In \<open>System\<close>, connections deliver reliable packets in order, as ENet documents.

  \<^bold>\<open>Assumptions of the compositions.\<close> \<open>Async_System\<close> lets a client be closed by one coroutine at a time; \<open>late_close_detaches_session\<close> shows
  what two may do. A lookup of an asyncio client is answered by the server or fails (\<open>server_answers\<close>), and a connection reports what the server
  sent over it, in order, or that it is lost (\<open>reportable\<close>). \<^verbatim>\<open>str.encode\<close>, \<^verbatim>\<open>bytes.decode\<close> and literals are parameters of the Python example.
\<close>

section \<open>Properties across the components\<close>

text \<open>C12: Delivery of a subscription over time: once the server has processed a client's subscription to a key, and until
  that client unsubscribes from the key or disconnects, every message that another client publishes under the key is
  sent to it exactly once, unchanged, whatever other events come in between.\<close>

theorem subscriber_receives:
  assumes "ready b (ENET_EVENT_TYPE_RECEIVE p d1 # between @ [ENET_EVENT_TYPE_RECEIVE q d2]) s"
    and "request_of e (packet_data d1) = Subscribe k"
    and "\<forall>ev \<in> set between. keeps p k (broker_event_of e ev)"
    and "request_of e (packet_data d2) = Publish k m" and "q \<noteq> p"
  shows "\<exists>s1 s2 out. bus_process e (ENET_EVENT_TYPE_RECEIVE p d1 # between) s = (Inr (), s1) \<and>
    bus_process e [ENET_EVENT_TYPE_RECEIVE q d2] s1 = (Inr (), s2) \<and>
    sends (enet_calls s2) = sends (enet_calls s1) @ out \<and>
    filter (\<lambda>x. fst x = p) out = [(p, reply_bytes e (Fanout_of k m))]"
proof -
  let ?sub = "ENET_EVENT_TYPE_RECEIVE p d1" and ?pub = "ENET_EVENT_TYPE_RECEIVE q d2"
  let ?b1 = "snd (broker_run (map (broker_event_of e) (?sub # between)) b)"
  from assms(1) have "ready b ((?sub # between) @ [?pub]) s" by simp
  from ready_process [OF this, of e] obtain s1 where
    s1: "bus_process e (?sub # between) s = (Inr (), s1)" and r1: "ready ?b1 [?pub] s1" by blast
  from r1 have "ready ?b1 ([?pub] @ []) s1" by simp
  from ready_process [OF this, of e] obtain s2 where s2: "bus_process e [?pub] s1 = (Inr (), s2)"
    and out: "sends (enet_calls s2) = sends (enet_calls s1) @
      on_wire e (fst (broker_run (map (broker_event_of e) [?pub]) ?b1))" by blast
  have "p \<in> fst ` set (b_sessions b)"
    using assms(1) sessions_peers [of s] by (simp add: ready_def bus_abs_def flip: set_map)
  then have "subscribed p k (snd (broker_step (Request p (Subscribe k)) b))"
    by (rule subscribed_request)
  then have "subscribed p k ?b1"
    using subscribed_run [of p k _ "map (broker_event_of e) between"] assms(2,3)
    by (simp add: case_prod_beta)
  moreover have "distinct (map fst (b_sessions ?b1))"
    using r1 sessions_distinct [of s1] by (simp add: ready_def bus_abs_def)
  ultimately have "filter (\<lambda>x. fst x = p) (on_wire e (fst (broker_step (Request q (Publish k m)) ?b1))) =
      [(p, reply_bytes e (Fanout_of k m))]"
    using assms(5) by (simp only: fanout_for_peer) simp
  with s1 s2 out show ?thesis
    using assms(4) by (auto simp: case_prod_beta)
qed

definition three_sessions :: broker where
  "three_sessions = \<lparr>b_names = [], b_sessions = [(4, {1}), (5, {1, 9}), (6, {})]\<rparr>"

lemma three_clients_ready:
  assumes "enet_protocol {4, 5, 6} events" and "length events < 1000"
  shows "ready three_sessions events three_clients"
proof -
  have start: "names_of (m_topic_map three_clients) []" "m_next_client_id three_clients = 4"
    using example_start by (simp_all add: three_clients_def bus_abs_def empty_broker_def)
  have s: "sessions three_clients = [(4, {1}), (5, {1, 9}), (6, {})]"
    by (simp add: sessions_def session_def deref_def three_clients_def)
  have "set (connected_peers three_clients) = {4, 5, 6}"
    using sessions_peers [of three_clients, symmetric] s by simp
  moreover have "ids_below three_clients"
    by (simp add: ids_below_def three_clients_def)
  ultimately show ?thesis
    using assms start s three_clients_inv by (simp add: ready_def bus_abs_def three_sessions_def)
qed

theorem subscriber_receives_witness:
  "\<exists>s1 s2 out. bus_process Little
       [ENET_EVENT_TYPE_RECEIVE 6 \<lparr>packet_ptr = 1, packet_data = fst (construct_subscribe Big Constructor_ctor 1 Origin_client)\<rparr>,
        ENET_EVENT_TYPE_DISCONNECT 5] three_clients = (Inr (), s1) \<and>
     bus_process Little
       [ENET_EVENT_TYPE_RECEIVE 4 \<lparr>packet_ptr = 2, packet_data = fst (construct_publish Little Constructor_ctor 1 [42] Origin_client)\<rparr>] s1 =
       (Inr (), s2) \<and>
     sends (enet_calls s2) = sends (enet_calls s1) @ out \<and>
     filter (\<lambda>x. fst x = 6) out = [(6, reply_bytes Little (Fanout_of 1 [42]))]"
proof -
  let ?d1 = "\<lparr>packet_ptr = 1, packet_data = fst (construct_subscribe Big Constructor_ctor 1 Origin_client)\<rparr>"
  let ?d2 = "\<lparr>packet_ptr = 2, packet_data = fst (construct_publish Little Constructor_ctor 1 [42] Origin_client)\<rparr>"
  have r: "ready three_sessions (ENET_EVENT_TYPE_RECEIVE 6 ?d1 # [ENET_EVENT_TYPE_DISCONNECT 5] @ [ENET_EVENT_TYPE_RECEIVE 4 ?d2]) three_clients"
    by (intro three_clients_ready) simp_all
  show ?thesis
    using subscriber_receives [OF r, of Little 1 "[42]"]
    by (simp add: request_of_subscribe request_of_publish del: construct_simp reply_bytes.simps)
qed

text \<open>C9: A published message end to end, between hosts of any byte order: the packet a client's \<^verbatim>\<open>publish\<close> hands to ENet,
  received by the server from that client, makes it send one packet each to exactly the other clients subscribed to the
  key, in connection order; and whichever client polls such a packet gets the key and the payload back unchanged,
  with the topic's name if it has resolved it.\<close>

theorem published_message_delivered:
  assumes "sends (c_calls (publish_key eA k payload A)) = sends (c_calls A) @ [(mc_peer (c_client A), d)]"
    and "ready b [ENET_EVENT_TYPE_RECEIVE p \<lparr>packet_ptr = x, packet_data = d\<rparr>] s"
  shows "\<exists>s' out. bus_process eS [ENET_EVENT_TYPE_RECEIVE p \<lparr>packet_ptr = x, packet_data = d\<rparr>] s = (Inr (), s') \<and>
    sends (enet_calls s') = sends (enet_calls s) @ out \<and>
    map fst out = map fst (filter (\<lambda>(q, S). q \<noteq> p \<and> k \<in> S) (b_sessions b)) \<and>
    (\<forall>(q, m) \<in> set out. \<forall>eB B r y.
      fst (poll eB (Some (ENET_EVENT_TYPE_RECEIVE r \<lparr>packet_ptr = y, packet_data = m\<rparr>)) B) =
      Inr (Some \<lparr>fm_topic_key = k,
        fm_topic = (case c_inverse_topic_map B k of None \<Rightarrow> ''unknown'' | Some n \<Rightarrow> n),
        fm_payload = payload\<rparr>))"
proof -
  let ?ev = "ENET_EVENT_TYPE_RECEIVE p \<lparr>packet_ptr = x, packet_data = d\<rparr>"
  let ?targets = "filter (\<lambda>(q, S). q \<noteq> p \<and> k \<in> S) (b_sessions b)"
  have d: "d = fst (construct_publish eA Constructor_ctor k payload Origin_client)"
    using assms(1) by simp
  obtain s' where "bus_process eS [?ev] s = (Inr (), s')"
    and "sends (enet_calls s') = sends (enet_calls s) @
      on_wire eS (map (\<lambda>(q, S). (q, Fanout_of k payload)) ?targets)"
    using server_publishes [OF assms(2), of eS] by (auto simp: d request_of_publish)
  moreover have "fst (poll eB (Some (ENET_EVENT_TYPE_RECEIVE r \<lparr>packet_ptr = y,
        packet_data = reply_bytes eS (Fanout_of k payload)\<rparr>)) B) =
      Inr (Some \<lparr>fm_topic_key = k, fm_topic = (case c_inverse_topic_map B k of None \<Rightarrow> ''unknown'' | Some n \<Rightarrow> n),
        fm_payload = payload\<rparr>)" for eB r y B
    by (simp add: poll_result poll_answer_def)
  ultimately show ?thesis
    by (auto simp: on_wire_def o_def case_prod_beta simp del: reply_bytes.simps)
qed

theorem published_message_delivered_witness:
  "\<exists>s' out. bus_process Big [ENET_EVENT_TYPE_RECEIVE 4 \<lparr>packet_ptr = 1,
       packet_data = fst (construct_publish Little Constructor_ctor 1 [42] Origin_client)\<rparr>] three_clients = (Inr (), s') \<and>
     sends (enet_calls s') = sends (enet_calls three_clients) @ out \<and> map fst out = [5]"
proof -
  let ?d = "fst (construct_publish Little Constructor_ctor 1 [42] Origin_client)"
  have r: "ready three_sessions [ENET_EVENT_TYPE_RECEIVE 4 \<lparr>packet_ptr = 1, packet_data = ?d\<rparr>] three_clients"
    by (intro three_clients_ready) simp_all
  show ?thesis
    using published_message_delivered [OF _ r, of Little 1 "[42]" example_client Big]
    by (auto simp: three_sessions_def simp del: construct_simp)
qed

text \<open>C11: A message from one Python client to another, between hosts of any byte order: when a Python program publishes bytes under
  a name it has resolved, every packet the server sends for it, polled by a Python client that has resolved the same name, is a message
  whose \<^verbatim>\<open>payload\<close> is the same bytes and whose \<^verbatim>\<open>topic\<close> is the same string. The string conversions of pybind11 need only be
  inverse on this one name.\<close>

theorem python_message_end_to_end:
  assumes "to_utf8 py topic = Some name" and "from_utf8 py name = Some topic"
    and "c_topic_map A name = Some k" and "c_inverse_topic_map B k = Some name"
    and "py_publish eA py net topic payload A = (r, A', g)"
    and "sends (c_calls A') = sends (c_calls A) @ [(mc_peer (c_client A), d)]"
    and "ready b [ENET_EVENT_TYPE_RECEIVE p \<lparr>packet_ptr = x, packet_data = d\<rparr>] s"
  shows "r = Inr () \<and> (\<exists>s' out.
    bus_process eS [ENET_EVENT_TYPE_RECEIVE p \<lparr>packet_ptr = x, packet_data = d\<rparr>] s = (Inr (), s') \<and>
    sends (enet_calls s') = sends (enet_calls s) @ out \<and>
    map fst out = map fst (filter (\<lambda>(q, S). q \<noteq> p \<and> k \<in> S) (b_sessions b)) \<and>
    (\<forall>(q, data) \<in> set out. \<exists>m B' g'.
      py_poll eB (Some (ENET_EVENT_TYPE_RECEIVE (mc_peer (c_client B)) \<lparr>packet_ptr = y, packet_data = data\<rparr>)) B =
        (Inr (Some m), B', g') \<and>
      py_topic_key m = k \<and> py_topic py m = Inr topic \<and> payload_bytes m = payload \<and>
      payload_text decode enc errs m = decode payload enc errs))"
proof -
  let ?ev = "ENET_EVENT_TYPE_RECEIVE p \<lparr>packet_ptr = x, packet_data = d\<rparr>"
  let ?m = "\<lparr>fm_topic_key = k, fm_topic = name, fm_payload = byte_span payload\<rparr>"
  let ?targets = "filter (\<lambda>(q, S). q \<noteq> p \<and> k \<in> S) (b_sessions b)"
  have A': "r = Inr ()" "A' = publish_key eA k (byte_span payload) A"
    using assms(5) py_publish_resolved [OF assms(1,3)] by simp_all
  have d: "d = fst (construct_publish eA Constructor_ctor k (byte_span payload) Origin_client)"
    using assms(6) unfolding A' by simp
  have s: "\<exists>s'. bus_process eS [?ev] s = (Inr (), s') \<and> sends (enet_calls s') =
      sends (enet_calls s) @ on_wire eS (map (\<lambda>(q, S). (q, Fanout_of k (byte_span payload))) ?targets)"
    using server_publishes [OF assms(7), of eS] by (simp add: d request_of_publish)
  have "payload_bytes ?m = payload" by (rule payload_bytes_span) simp
  then have m: "py_topic_key ?m = k \<and> py_topic py ?m = Inr topic \<and> payload_bytes ?m = payload \<and>
      payload_text decode enc errs ?m = decode payload enc errs"
    using assms(2) by (simp add: py_topic_key_def py_topic_def payload_text_def)
  have "fst (poll eB (Some (ENET_EVENT_TYPE_RECEIVE (mc_peer (c_client B)) \<lparr>packet_ptr = y,
      packet_data = reply_bytes eS (Fanout_of k (byte_span payload))\<rparr>)) B) = Inr (Some ?m)"
    using assms(4) by (simp add: poll_result poll_answer_def)
  from py_poll_message [OF this] m s A'(1) show ?thesis
    by (fastforce simp: on_wire_def o_def case_prod_beta simp del: reply_bytes.simps)
qed

theorem python_message_end_to_end_witness:
  "\<exists>s' out. bus_process Big [ENET_EVENT_TYPE_RECEIVE 4 \<lparr>packet_ptr = 1,
       packet_data = fst (construct_publish Little Constructor_ctor 1 (byte_span ''hi'') Origin_client)\<rparr>] three_clients = (Inr (), s') \<and>
     sends (enet_calls s') = sends (enet_calls three_clients) @ out \<and> map fst out = [5] \<and>
     (\<forall>(q, data) \<in> set out. \<exists>m B' g'.
        py_poll Little (Some (ENET_EVENT_TYPE_RECEIVE 30 \<lparr>packet_ptr = 2, packet_data = data\<rparr>))
          (example_client\<lparr>c_inverse_topic_map := [1 \<mapsto> ''a'']\<rparr>) = (Inr (Some m), B', g') \<and>
        payload_bytes m = ''hi'')"
proof -
  let ?d = "fst (construct_publish Little Constructor_ctor 1 (byte_span ''hi'') Origin_client)"
  let ?A = "example_client\<lparr>c_topic_map := [''a'' \<mapsto> 1]\<rparr>" and ?B = "example_client\<lparr>c_inverse_topic_map := [1 \<mapsto> ''a'']\<rparr>"
  have r: "ready three_sessions [ENET_EVENT_TYPE_RECEIVE 4 \<lparr>packet_ptr = 1, packet_data = ?d\<rparr>] three_clients"
    by (intro three_clients_ready) simp_all
  have t: "to_utf8 ascii_text ''a'' = Some ''a''" "from_utf8 ascii_text ''a'' = Some ''a''"
    by (simp_all add: ascii_text_def)
  have c: "c_topic_map ?A ''a'' = Some 1" "c_inverse_topic_map ?B 1 = Some ''a''" by simp_all
  have A: "sends (c_calls (publish_key Little 1 (byte_span ''hi'') ?A)) = sends (c_calls ?A) @ [(mc_peer (c_client ?A), ?d)]"
    by simp
  have peers: "mc_peer (c_client ?B) = 30" "map fst (filter (\<lambda>(q, S). q \<noteq> 4 \<and> 1 \<in> S) (b_sessions three_sessions)) = [5]"
    by (simp_all add: three_sessions_def)
  obtain s' out where run: "bus_process Big [ENET_EVENT_TYPE_RECEIVE 4 \<lparr>packet_ptr = 1, packet_data = ?d\<rparr>] three_clients = (Inr (), s')"
      "sends (enet_calls s') = sends (enet_calls three_clients) @ out" "map fst out = [5]"
    and polled: "\<forall>(q, data) \<in> set out. \<exists>m B' g'.
        py_poll Little (Some (ENET_EVENT_TYPE_RECEIVE 30 \<lparr>packet_ptr = 2, packet_data = data\<rparr>)) ?B = (Inr (Some m), B', g') \<and>
        py_topic_key m = 1 \<and> py_topic ascii_text m = Inr ''a'' \<and> payload_bytes m = ''hi'' \<and>
        payload_text (\<lambda>x _ _. x) () () m = ''hi''"
    using python_message_end_to_end [OF t c py_publish_resolved [OF t(1) c(1)] A r, where eS = Big and eB = Little and
        y = 2 and decode = "\<lambda>x (_ :: unit) _. x" and enc = "()" and errs = "()"] unfolding peers by (elim conjE exE) simp
  show ?thesis
    using run polled by (intro exI [of _ s'] exI [of _ out]) fastforce
qed

text \<open>C10: Resolving a topic end to end, between hosts of any byte order: the request the client sends over its temporary connection
  makes the server answer that connection alone; with that answer \<^verbatim>\<open>get_topic_key\<close> returns the key the server's table
  now has for the topic, and the client's caches mirror the table.\<close>

theorem topic_resolved_end_to_end:
  assumes "c_topic_map C topic = None" and "mirrors (\<lambda>n. get n (m_topic_map s)) C"
    and "fst (net_client_ctor (tl_connect net) (c_host C) (c_port C)) = Inr tmp"
    and "ready b [ENET_EVENT_TYPE_CONNECT p, ENET_EVENT_TYPE_RECEIVE p \<lparr>packet_ptr = x,
      packet_data = fst (construct_topic_request eC Constructor_ctor topic Origin_client)\<rparr>] s"
  shows "\<exists>s' k answer.
    bus_process eS [ENET_EVENT_TYPE_CONNECT p, ENET_EVENT_TYPE_RECEIVE p \<lparr>packet_ptr = x,
      packet_data = fst (construct_topic_request eC Constructor_ctor topic Origin_client)\<rparr>] s = (Inr (), s') \<and>
    sends (enet_calls s') = sends (enet_calls s) @ [(p, answer)] \<and>
    get topic (m_topic_map s') = Some k \<and>
    (\<forall>r y. \<exists>C'. get_topic_key eC
        (net\<lparr>tl_recv := Some (ENET_EVENT_TYPE_RECEIVE r \<lparr>packet_ptr = y, packet_data = answer\<rparr>)\<rparr>) topic C = (Inr k, C') \<and>
      sends (c_calls C') = sends (c_calls C) @
        [(mc_peer tmp, fst (construct_topic_request eC Constructor_ctor topic Origin_client))] \<and>
      mirrors (\<lambda>n. get n (m_topic_map s')) C')"
proof -
  let ?req = "fst (construct_topic_request eC Constructor_ctor topic Origin_client)"
  obtain s' k where s': "bus_process eS [ENET_EVENT_TYPE_CONNECT p, ENET_EVENT_TYPE_RECEIVE p \<lparr>packet_ptr = x, packet_data = ?req\<rparr>] s = (Inr (), s')"
    and out: "sends (enet_calls s') = sends (enet_calls s) @
      [(p, fst (construct_topic_response eS Constructor_ctor k topic Origin_server))]"
    and k: "get topic (m_topic_map s') = Some k" and table: "\<exists>ns. names_of (m_topic_map s') ns"
    and mono: "\<And>n k'. get n (m_topic_map s) = Some k' \<Longrightarrow> get n (m_topic_map s') = Some k'"
    using server_resolves [OF assms(4) request_of_topic_request] by blast
  let ?answer = "fst (construct_topic_response eS Constructor_ctor k topic Origin_server)"
  have "\<exists>C'. get_topic_key eC net' topic C = (Inr k, C') \<and>
      sends (c_calls C') = sends (c_calls C) @ [(mc_peer tmp, ?req)] \<and> mirrors (\<lambda>n. get n (m_topic_map s')) C'"
    if net': "net' = net\<lparr>tl_recv := Some (ENET_EVENT_TYPE_RECEIVE r \<lparr>packet_ptr = y, packet_data = ?answer\<rparr>)\<rparr>" for r y net'
  proof -
    have a: "lookup_answer eC net' = Inr (topic, k)"
      by (simp add: net' lookup_answer_def del: construct_simp)
    obtain calls where c: "net_client_ctor (tl_connect net') (c_host C) (c_port C) = (Inr tmp, calls)"
      using assms(3) by (cases "net_client_ctor (tl_connect net) (c_host C) (c_port C)") (simp add: net')
    then have quiet: "sends calls = []" using ctor_calls(1) by (metis snd_conv)
    obtain C' where C': "get_topic_key eC net' topic C = (Inr k, C')"
      and sent: "sends (c_calls C') = sends (c_calls C) @ [(mc_peer tmp, ?req)]"
      using assms(1) a c quiet by (simp add: get_topic_key_uncached Let_def packet_factory_defs)
    have "mirrors (\<lambda>n. get n (m_topic_map s')) C'"
      using service.mirrors_lookup [OF table mirrors_mono [OF assms(2) mono] _ C'] a k
      by (simp add: answered_from_def)
    with C' sent show ?thesis by blast
  qed
  with s' out k show ?thesis by blast
qed

theorem topic_resolved_end_to_end_witness:
  "\<exists>s' k answer. bus_process Big [ENET_EVENT_TYPE_CONNECT 7, ENET_EVENT_TYPE_RECEIVE 7 \<lparr>packet_ptr = 1,
       packet_data = fst (construct_topic_request Little Constructor_ctor ''t'' Origin_client)\<rparr>] three_clients = (Inr (), s') \<and>
     get ''t'' (m_topic_map s') = Some k \<and>
     (\<exists>C'. get_topic_key Little (example_net answer) ''t'' example_client = (Inr k, C'))"
proof -
  have r: "ready three_sessions [ENET_EVENT_TYPE_CONNECT 7, ENET_EVENT_TYPE_RECEIVE 7 \<lparr>packet_ptr = 1,
      packet_data = fst (construct_topic_request Little Constructor_ctor ''t'' Origin_client)\<rparr>] three_clients"
    by (intro three_clients_ready) simp_all
  have m: "mirrors (\<lambda>n. get n (m_topic_map three_clients)) example_client" "c_topic_map example_client ''t'' = None"
    by (simp_all add: mirrors_def)
  have net: "example_net [] \<lparr>tl_recv := Some (ENET_EVENT_TYPE_RECEIVE 30 \<lparr>packet_ptr = 77, packet_data = a\<rparr>)\<rparr> = example_net a" for a
    by (simp add: example_net_def)
  have c: "fst (net_client_ctor (tl_connect (example_net [])) (c_host example_client) (c_port example_client)) =
      Inr \<lparr>mc_client = 20, mc_address = \<lparr>addr_host = Some 0, addr_port = c_port example_client\<rparr>, mc_peer = 30\<rparr>"
    by (simp add: example_net_def example_connected)
  show ?thesis
    using topic_resolved_end_to_end [OF m(2,1) c r, of Big] net by metis
qed

text \<open>C1: One order for all: in every run of the server, its clients and any other peers, which may send arbitrary bytes, under any interleaving, the
  messages that a client's \<^verbatim>\<open>poll\<close> has returned are messages of other peers, in the order in which the server processed them and each at most once; so any
  two subscribers see common messages in the same order. Of each publisher, the server has processed a part of what it published, in the
  order of publication.\<close>

theorem common_delivery_order:
  assumes "sys_reachable eS ec y"
  shows "(\<exists>ys. map snd ys = map content (got y p) \<and> subseq ys (served y) \<and> (\<forall>x \<in> set ys. fst x \<noteq> p)) \<and>
    subseq (messages q (served y)) (pub y q)"
proof
  from sys_reachable_inv [OF assms] obtain ys zs where "map snd ys = map content (got y p)"
    and "subseq (ys @ zs) (served y)" and "\<forall>x \<in> set (ys @ zs). fst x \<noteq> p"
    unfolding sys_inv_def down_inv_def flows_def by blast
  moreover from this have "subseq ys (served y)"
    by (blast intro: subseq_left)
  ultimately show "\<exists>ys. map snd ys = map content (got y p) \<and> subseq ys (served y) \<and> (\<forall>x \<in> set ys. fst x \<noteq> p)"
    by auto
next
  show "subseq (messages q (served y)) (pub y q)"
    using sys_reachable_inv [OF assms] unfolding sys_inv_def up_inv_def by (blast intro: subseq_left)
qed

theorem common_delivery_order_witness:
  "\<exists>y. sys_reachable Little (\<lambda>_. Little) y \<and> map content (got y 2) = [(1, [7])] \<and>
     (\<exists>ys. map snd ys = [(1, [7])] \<and> subseq ys (served y) \<and> (\<forall>x \<in> set ys. fst x \<noteq> 2))"
proof -
  obtain y where y: "sys_reachable Little (\<lambda>_. Little) y"
    and g: "got y 2 = [\<lparr>fm_topic_key = 1, fm_topic = ''t'', fm_payload = [7]\<rparr>]"
    using example_delivered by blast
  have "map content (got y 2) = [(1, [7])]" by (simp add: g content_def)
  then show ?thesis
    using y common_delivery_order [OF y, of 2 1] by metis
qed

text \<open>C2: Nothing is made up: every message a client's \<^verbatim>\<open>poll\<close> returns was published by another peer with exactly this key and payload,
  and it carries the name of the topic that the server's table has under this key, or \<open>unknown\<close>.\<close>

theorem delivered_was_published:
  assumes "sys_reachable eS ec y" and "m \<in> set (got y p)"
  shows "(\<exists>q. q \<noteq> p \<and> (fm_topic_key m, fm_payload m) \<in> set (pub y q)) \<and>
    (fm_topic m = ''unknown'' \<or> get (fm_topic m) (m_topic_map (sy_server y)) = Some (fm_topic_key m))"
proof -
  note inv = sys_reachable_inv [OF assms(1)]
  obtain ys zs where ys: "map snd ys = map content (got y p)"
    and sub: "subseq (ys @ zs) (served y)" and other: "\<forall>x \<in> set (ys @ zs). fst x \<noteq> p"
    using inv unfolding sys_inv_def down_inv_def flows_def by blast
  have "content m \<in> snd ` set ys" using assms(2) ys by (metis image_eqI list.set_map)
  then obtain q where q: "(q, content m) \<in> set ys" by force
  then have "q \<noteq> p" using other by force
  moreover have "(q, content m) \<in> set (served y)"
    using q subseq_set [OF sub] by auto
  then have "content m \<in> set (pub y q)" by (rule served_published [OF assms(1)])
  ultimately have "\<exists>q. q \<noteq> p \<and> content m \<in> set (pub y q)" by blast
  moreover have "labelled (table y) m"
    using inv assms(2) by (simp add: sys_inv_def names_inv_def)
  ultimately show ?thesis
    by (simp add: content_def labelled_def table_def)
qed

theorem delivered_was_published_witness:
  "\<exists>y m. sys_reachable Little (\<lambda>_. Little) y \<and> m \<in> set (got y 2) \<and> fm_topic m = ''t'' \<and>
     get ''t'' (m_topic_map (sy_server y)) = Some (fm_topic_key m) \<and>
     (\<exists>q. q \<noteq> 2 \<and> (fm_topic_key m, fm_payload m) \<in> set (pub y q))"
proof -
  obtain y where y: "sys_reachable Little (\<lambda>_. Little) y"
    and g: "got y 2 = [\<lparr>fm_topic_key = 1, fm_topic = ''t'', fm_payload = [7]\<rparr>]"
    using example_delivered by blast
  let ?m = "\<lparr>fm_topic_key = 1, fm_topic = ''t'', fm_payload = [7 :: byte]\<rparr>"
  have m: "?m \<in> set (got y 2)" by (simp add: g)
  show ?thesis
    using y m delivered_was_published [OF y m] by (intro exI [where x = y] exI [where x = ?m]) simp
qed

end
